(* ===== verification/SZ_Prelude.thy ===== *)
theory SZ_Prelude
  imports Main "HOL-Library.Word"
begin

text \<open>
  The vocabulary every component of the development shares: the C integer and buffer types,
  the error values that stand for the early returns of the sources, the little-endian byte
  encodings the file formats use (the distribution targets amd64), partial reads from a
  byte stream, and two interfaces stated as locales:
  \<^item> \<open>codec\<close>, a self-delimiting on-disk record (a writer and a reader that hands the rest of
    the input back);
  \<^item> \<open>slot_table\<close>, a table of records removed by key, as the session table and the container
    table are.
\<close>

section \<open>C types and results\<close>

type_synonym u8 = "8 word"
type_synonym u16 = "16 word"
type_synonym u32 = "32 word"
type_synonym u64 = "64 word"
type_synonym bytes = "u8 list"
type_synonym path = string
type_synonym fs = "path \<rightharpoonup> bytes"

text \<open>
  The reasons for which the sources return early. \<open>EUndefined\<close> marks an execution the C
  standard leaves undefined (an access outside a buffer): the model returns it instead of
  inventing a result.
\<close>

datatype err =
    EInval | ENoMem | EOpen | EIo | ETooBig | ETooSmall | EAuth | EFormat
  | EFull | ENotFound | EExists | ESys | EUnsupported | EUndefined

type_synonym 'a res = "err + 'a"

text \<open>The \<open>int\<close> a C function of the engine returns: 0 for success, -1 for every failure.\<close>

definition rc :: "'a res \<Rightarrow> int" where
  "rc r = (case r of Inl _ \<Rightarrow> -1 | Inr _ \<Rightarrow> 0)"

lemma rc_simps [simp]: "rc (Inl e) = -1" "rc (Inr x) = 0"
  by (simp_all add: rc_def)

lemma rc_zero_iff: "rc r = 0 \<longleftrightarrow> (\<exists>x. r = Inr x)"
  by (cases r) auto

named_theorems byte_simps \<open>lengths and round trips of the byte encodings\<close>
named_theorems table_simps \<open>what the operations of a table do to its active entries\<close>

section \<open>Little-endian integers\<close>

fun le_bytes :: "nat \<Rightarrow> nat \<Rightarrow> bytes" where
  "le_bytes 0 v = []"
| "le_bytes (Suc n) v = word_of_nat v # le_bytes n (v div 256)"

fun le_val :: "bytes \<Rightarrow> nat" where
  "le_val [] = 0"
| "le_val (b # bs) = unat b + 256 * le_val bs"

lemma length_le_bytes [simp, byte_simps]: "length (le_bytes n v) = n"
  by (induction n arbitrary: v) auto

lemma le_val_le_bytes: "le_val (le_bytes n v) = v mod 256 ^ n"
proof (induction n arbitrary: v)
  case 0
  show ?case by simp
next
  case (Suc n)
  have "unat (word_of_nat v :: u8) = v mod 256"
    by (simp add: unat_of_nat)
  then show ?case
    using Suc by (simp add: mod_mult2_eq)
qed

definition put_u16 :: "u16 \<Rightarrow> bytes" where
  "put_u16 w = le_bytes 2 (unat w)"

definition put_u32 :: "u32 \<Rightarrow> bytes" where
  "put_u32 w = le_bytes 4 (unat w)"

definition put_u64 :: "u64 \<Rightarrow> bytes" where
  "put_u64 w = le_bytes 8 (unat w)"

definition val_u16 :: "bytes \<Rightarrow> u16" where
  "val_u16 bs = word_of_nat (le_val bs)"

definition val_u32 :: "bytes \<Rightarrow> u32" where
  "val_u32 bs = word_of_nat (le_val bs)"

definition val_u64 :: "bytes \<Rightarrow> u64" where
  "val_u64 bs = word_of_nat (le_val bs)"

lemma length_put [simp, byte_simps]:
  "length (put_u16 a) = 2" "length (put_u32 b) = 4" "length (put_u64 c) = 8"
  by (simp_all add: put_u16_def put_u32_def put_u64_def)

lemma val_put_u16 [simp, byte_simps]: "val_u16 (put_u16 w) = w"
proof -
  have "unat w < 256 ^ 2" using unsigned_less [where 'a = nat, of w] by simp
  then show ?thesis by (simp add: val_u16_def put_u16_def le_val_le_bytes)
qed

lemma val_put_u32 [simp, byte_simps]: "val_u32 (put_u32 w) = w"
proof -
  have "unat w < 256 ^ 4" using unsigned_less [where 'a = nat, of w] by simp
  then show ?thesis by (simp add: val_u32_def put_u32_def le_val_le_bytes)
qed

lemma val_put_u64 [simp, byte_simps]: "val_u64 (put_u64 w) = w"
proof -
  have "unat w < 256 ^ 8" using unsigned_less [where 'a = nat, of w] by simp
  then show ?thesis by (simp add: val_u64_def put_u64_def le_val_le_bytes)
qed

lemma unat_ucast_32_64 [simp]: "unat (ucast (w :: u32) :: u64) = unat w"
proof -
  have "unat w < 2 ^ 32" using unsigned_less [where 'a = nat, of w] by simp
  then show ?thesis by (simp add: unsigned_ucast_eq unsigned_take_bit_eq take_bit_nat_eq_self)
qed

lemma unat_word_of_nat_16: "n < 65536 \<Longrightarrow> unat (word_of_nat n :: u16) = n"
  by (simp add: unat_of_nat)

lemma unat_word_of_nat_32: "n < 2 ^ 32 \<Longrightarrow> unat (word_of_nat n :: u32) = n"
  by (simp add: unat_of_nat)

section \<open>Reading from a byte stream\<close>

text \<open>
  \<open>fread_all n bs\<close> is a \<open>fread\<close> of \<open>n\<close> bytes whose caller stops on a short count: the bytes
  read and what is left of the stream, or \<open>None\<close> at a premature end of file.
\<close>

definition fread_all :: "nat \<Rightarrow> 'a list \<Rightarrow> ('a list \<times> 'a list) option" where
  "fread_all n bs = (if length bs < n then None else Some (take n bs, drop n bs))"

lemma fread_all_append [simp, byte_simps]:
  "length xs = n \<Longrightarrow> fread_all n (xs @ ys) = Some (xs, ys)"
  by (simp add: fread_all_def)

lemma fread_all_Some: "fread_all n bs = Some (xs, ys) \<Longrightarrow> bs = xs @ ys \<and> length xs = n"
  by (auto simp: fread_all_def split: if_splits)

lemma fread_all_shorter: "fread_all n bs = Some (xs, ys) \<Longrightarrow> length ys + n = length bs"
  by (auto dest: fread_all_Some)

text \<open>A read of \<open>n\<close> bytes at offset \<open>off\<close> of a buffer; \<open>None\<close> when it leaves the buffer.\<close>

definition slice :: "nat \<Rightarrow> nat \<Rightarrow> 'a list \<Rightarrow> 'a list option" where
  "slice off n xs = (if off + n \<le> length xs then Some (take n (drop off xs)) else None)"

lemma slice_append [simp, byte_simps]:
  "length xs = off \<Longrightarrow> length ys = n \<Longrightarrow> slice off n (xs @ ys) = Some ys"
  by (simp add: slice_def)

lemma slice_None_iff: "slice off n xs = None \<longleftrightarrow> length xs < off + n"
  by (auto simp: slice_def)

lemma slice_length: "slice off n xs = Some ys \<Longrightarrow> length ys = n"
  by (auto simp: slice_def split: if_splits)

section \<open>Writing through a stream\<close>

text \<open>
  The code writes through buffered streams and ignores what \<open>fclose\<close> (and often \<open>fwrite\<close> and
  \<open>fprintf\<close>) returns: \<open>flushed (Some n) d\<close> is what a file receives of \<open>d\<close> when the disk fills up
  after \<open>n\<close> bytes without the program noticing, \<open>flushed None d\<close> all of it.
\<close>

definition flushed :: "nat option \<Rightarrow> 'a list \<Rightarrow> 'a list" where
  "flushed t d = (case t of None \<Rightarrow> d | Some n \<Rightarrow> take n d)"

lemma flushed_simps [simp]: "flushed None d = d" "flushed (Some n) d = take n d"
  by (simp_all add: flushed_def)

lemma flushed_take: "\<exists>n. flushed t d = take n d"
  by (cases t) (auto intro: exI [of _ "length d"])

section \<open>Randomness\<close>

text \<open>
  \<open>randombytes_buf\<close> fills a buffer from a source of bytes that is a parameter of the model;
  whatever the source, the buffer has the requested length.
\<close>

definition randombytes_buf :: "(nat \<Rightarrow> u8) \<Rightarrow> nat \<Rightarrow> bytes" where
  "randombytes_buf r n = map r [0..<n]"

lemma length_randombytes_buf [simp, byte_simps]: "length (randombytes_buf r n) = n"
  by (simp add: randombytes_buf_def)

section \<open>Interface: self-delimiting records\<close>

locale codec =
  fixes put :: "'a \<Rightarrow> bytes"
    and get :: "bytes \<Rightarrow> ('a \<times> bytes) option"
    and wf :: "'a \<Rightarrow> bool"
  assumes get_put: "wf x \<Longrightarrow> get (put x @ rest) = Some (x, rest)"
begin

lemma put_prefix_free:
  assumes "wf x" "wf y" "put x @ r = put y @ s"
  shows "x = y \<and> r = s"
proof -
  have "get (put x @ r) = get (put y @ s)"
    by (rule arg_cong [OF assms(3)])
  then have "Some (x, r) = Some (y, s)"
    by (simp only: get_put [OF assms(1)] get_put [OF assms(2)])
  then show ?thesis by simp
qed

lemma stream_determines_records:
  assumes "\<forall>x \<in> set xs. wf x" "\<forall>y \<in> set ys. wf y" "length xs = length ys"
    and "concat (map put xs) @ r = concat (map put ys) @ s"
  shows "xs = ys \<and> r = s"
  using assms(3,1,2,4)
proof (induction xs ys rule: list_induct2)
  case Nil
  then show ?case by simp
next
  case (Cons x xs y ys)
  from Cons.prems(3)
  have "put x @ (concat (map put xs) @ r) = put y @ (concat (map put ys) @ s)"
    by (simp only: list.map concat.simps append_assoc)
  then have eq: "x = y" "concat (map put xs) @ r = concat (map put ys) @ s"
    using put_prefix_free [of x y] Cons.prems(1,2) by auto
  from Cons.IH [OF _ _ eq(2)] Cons.prems(1,2) have "xs = ys \<and> r = s" by auto
  with eq(1) show ?case by blast
qed

end

section \<open>Interface: tables of records removed by key\<close>

text \<open>
  Removing the first entry that carries a key, the effect a linear search followed by a
  \<open>memmove\<close> has on the active part of an array.
\<close>

fun remove_key :: "('e \<Rightarrow> 'k) \<Rightarrow> 'k \<Rightarrow> 'e list \<Rightarrow> 'e list" where
  "remove_key key k [] = []"
| "remove_key key k (e # es) = (if key e = k then es else e # remove_key key k es)"

lemma remove_key_subset: "set (remove_key key k es) \<subseteq> set es"
  by (induction es) auto

lemma remove_key_notin: "k \<notin> key ` set es \<Longrightarrow> remove_key key k es = es"
  by (induction es) auto

lemma distinct_remove_key:
  "distinct (map key es) \<Longrightarrow> distinct (map key (remove_key key k es))"
  by (induction es) (use remove_key_subset in fastforce)+

lemma keys_remove_key:
  "distinct (map key es) \<Longrightarrow> key ` set (remove_key key k es) = key ` set es - {k}"
  by (induction es) (auto simp: image_iff)

lemma length_remove_key:
  "k \<in> key ` set es \<Longrightarrow> Suc (length (remove_key key k es)) = length es"
  by (induction es) auto

text \<open>The position a linear search finds, and the removal written with it.\<close>

fun find_key :: "('e \<Rightarrow> 'k) \<Rightarrow> 'k \<Rightarrow> 'e list \<Rightarrow> nat option" where
  "find_key key k [] = None"
| "find_key key k (e # es) = (if key e = k then Some 0 else map_option Suc (find_key key k es))"

lemma find_key_None: "find_key key k es = None \<longleftrightarrow> k \<notin> key ` set es"
  by (induction es) auto

lemma find_key_Some:
  "find_key key k es = Some i \<Longrightarrow> i < length es \<and> key (es ! i) = k"
  by (induction es arbitrary: i) (auto split: if_splits)

lemma find_key_remove:
  "find_key key k es = Some i \<Longrightarrow> remove_key key k es = take i es @ drop (Suc i) es"
  by (induction es arbitrary: i) (auto split: if_splits)

lemma find_key_find:
  "find (\<lambda>e. key e = k) es = map_option ((!) es) (find_key key k es)"
  by (induction es) (auto simp: option.map_comp comp_def)

lemma find_remove_key:
  "distinct (map key es) \<Longrightarrow>
   find (\<lambda>e. key e = k') (remove_key key k es) =
     (if k' = k then None else find (\<lambda>e. key e = k') es)"
  by (induction es) (auto simp: find_None_iff image_iff)

lemma find_snoc:
  "find P (es @ [e]) = (case find P es of Some x \<Rightarrow> Some x | None \<Rightarrow> if P e then Some e else None)"
  by (induction es) auto

text \<open>
  The loop \<open>for (i = 0; i < cnt; i++) if (p (arr[i])) return i;\<close> over the slots in use of an
  array, which finds what \<open>find_key\<close> finds in the list of those slots.
\<close>

function scan_slots :: "('e \<Rightarrow> bool) \<Rightarrow> nat \<Rightarrow> nat \<Rightarrow> 'e list \<Rightarrow> nat option" where
  "scan_slots p i cnt arr =
     (if i < cnt then if p (arr ! i) then Some i else scan_slots p (Suc i) cnt arr else None)"
  by pat_completeness auto
termination
  by (relation "measure (\<lambda>(p, i, cnt, arr). cnt - i)") auto

declare scan_slots.simps [simp del]

lemma scan_slots_from:
  "cnt \<le> length arr \<Longrightarrow>
   scan_slots (\<lambda>e. key e = k) i cnt arr = map_option ((+) i) (find_key key k (drop i (take cnt arr)))"
proof (induction "\<lambda>e. key e = k" i cnt arr rule: scan_slots.induct)
  case (1 i cnt arr)
  show ?case
  proof (cases "i < cnt")
    case True
    then have "drop i (take cnt arr) = arr ! i # drop (Suc i) (take cnt arr)"
      using "1.prems" by (simp add: Cons_nth_drop_Suc [symmetric])
    then show ?thesis
      using True "1.hyps" "1.prems"
      by (subst scan_slots.simps) (auto simp: option.map_comp comp_def intro: option.map_cong)
  next
    case False
    then show ?thesis using "1.prems" by (subst scan_slots.simps) simp
  qed
qed

lemma scan_slots_find_key:
  "cnt \<le> length arr \<Longrightarrow> scan_slots (\<lambda>e. key e = k) 0 cnt arr = find_key key k (take cnt arr)"
  using scan_slots_from [of cnt arr key k 0] by (cases "find_key key k (take cnt arr)") simp_all

text \<open>
  Removing slot \<open>idx\<close> of an array whose first \<open>cnt\<close> slots are in use: \<open>memmove\<close> moves the
  slots behind it down by one; the last slot in use keeps its old content.
\<close>

definition memmove_down :: "nat \<Rightarrow> nat \<Rightarrow> 'a list \<Rightarrow> 'a list" where
  "memmove_down idx cnt arr =
     (if idx < cnt - 1
      then take idx arr @ take (cnt - idx - 1) (drop (Suc idx) arr) @ drop (cnt - 1) arr
      else arr)"

lemma take_memmove_down:
  assumes "idx < cnt" "cnt \<le> length arr"
  shows "take (cnt - 1) (memmove_down idx cnt arr) =
         take idx (take cnt arr) @ drop (Suc idx) (take cnt arr)"
proof (cases "idx < cnt - 1")
  case True
  then show ?thesis using assms by (auto simp: memmove_down_def min_def drop_take)
next
  case False
  then have "cnt = Suc idx" using assms(1) by simp
  then show ?thesis by (simp add: memmove_down_def)
qed

lemma length_memmove_down [simp]:
  "idx < cnt \<Longrightarrow> cnt \<le> length arr \<Longrightarrow> length (memmove_down idx cnt arr) = length arr"
  by (auto simp: memmove_down_def)

locale slot_table =
  fixes active :: "'s \<Rightarrow> 'e list"
    and key :: "'e \<Rightarrow> 'k"
    and remove :: "'k \<Rightarrow> 's \<Rightarrow> 's"
    and inv :: "'s \<Rightarrow> bool"
  assumes remove_active: "inv s \<Longrightarrow> active (remove k s) = remove_key key k (active s)"
    and remove_inv: "inv s \<Longrightarrow> inv (remove k s)"
begin

text \<open>
  Removing, one after the other, the keys of a snapshot of the table leaves it empty,
  whether or not two entries share a key.
\<close>

lemma remove_snapshot:
  assumes "inv s" "ks = map key (active s)"
  shows "inv (fold remove ks s) \<and> active (fold remove ks s) = []"
  using assms
proof (induction ks arbitrary: s)
  case Nil
  then show ?case by simp
next
  case (Cons k ks)
  then obtain e es where es: "active s = e # es" "key e = k" "ks = map key es"
    by (auto simp: Cons_eq_map_conv)
  with Cons.prems have "active (remove k s) = es" "inv (remove k s)"
    by (simp_all add: remove_active remove_inv)
  with Cons.IH [of "remove k s"] es show ?case by simp
qed

lemma lookup_remove:
  assumes "inv s" "distinct (map key (active s))"
  shows "find (\<lambda>e. key e = k') (active (remove k s)) =
         (if k' = k then None else find (\<lambda>e. key e = k') (active s))"
  using assms by (simp add: remove_active find_remove_key)

lemma remove_only_key:
  assumes "inv s" "distinct (map key (active s))"
  shows "key ` set (active (remove k s)) = key ` set (active s) - {k}"
  using assms by (simp add: remove_active keys_remove_key)

end

end
