(* ===== verification/C_Strings.thy ===== *)
theory C_Strings
  imports SZ_Prelude
begin

text \<open>
  The functions of the C library on which the sources build: \<open>strncpy\<close>, \<open>snprintf\<close> with
  \<open>%s\<close>, \<open>%d\<close> and \<open>%zu\<close>, \<open>strstr\<close>, \<open>strchr\<close>, \<open>strrchr\<close>, \<open>atoi\<close>, \<open>isspace\<close> and \<open>fgets\<close>, on C strings
  modelled as lists of characters without the terminating NUL. A pointer into a string is
  the suffix it points to, a null pointer \<open>None\<close>.
\<close>

named_theorems str_simps \<open>evaluation of the C string functions\<close>

section \<open>Bytes and characters\<close>

definition to_bytes :: "string \<Rightarrow> bytes" where
  "to_bytes s = map of_char s"

definition of_bytes :: "bytes \<Rightarrow> string" where
  "of_bytes bs = map (\<lambda>b. char_of (unat b)) bs"

lemma length_to_bytes [simp, byte_simps]: "length (to_bytes s) = length s"
  by (simp add: to_bytes_def)

lemma length_of_bytes [simp, byte_simps]: "length (of_bytes b) = length b"
  by (simp add: of_bytes_def)

lemma unat_of_char: "unat (of_char c :: u8) = of_char c"
proof -
  have "(of_char c :: u8) = word_of_nat (of_char c)" by (simp only: of_nat_of_char)
  then show ?thesis by (simp only: unat_of_nat) simp
qed

lemma of_bytes_to_bytes [simp, byte_simps]: "of_bytes (to_bytes s) = s"
  by (induction s) (simp_all add: of_bytes_def to_bytes_def unat_of_char)

lemma to_bytes_append [simp]: "to_bytes (s @ t) = to_bytes s @ to_bytes t"
  by (simp add: to_bytes_def)

lemma of_bytes_append [simp]: "of_bytes (s @ t) = of_bytes s @ of_bytes t"
  by (simp add: of_bytes_def)

text \<open>A buffer read as a C string ends at its first NUL.\<close>

definition cstr :: "string \<Rightarrow> string" where
  "cstr s = takeWhile (\<lambda>c. c \<noteq> CHR 0x00) s"

lemma cstr_id [simp, str_simps]: "CHR 0x00 \<notin> set s \<Longrightarrow> cstr s = s"
  by (induction s) (auto simp: cstr_def)

section \<open>Bounded copies and formatted output\<close>

text \<open>
  \<open>strncpy(dst, src, n - 1)\<close> into a zeroed buffer of \<open>n\<close> bytes, and \<open>snprintf(dst, n, \<dots>)\<close>,
  both keep the first \<open>n - 1\<close> characters of the text.
\<close>

definition strncpy_buf :: "nat \<Rightarrow> string \<Rightarrow> string" where
  "strncpy_buf n s = take (n - 1) s"

definition snprintf_buf :: "nat \<Rightarrow> string \<Rightarrow> string" where
  "snprintf_buf n s = take (n - 1) s"

lemma bounded_copy_id [simp, str_simps]:
  "length s < n \<Longrightarrow> strncpy_buf n s = s" "length s < n \<Longrightarrow> snprintf_buf n s = s"
  by (simp_all add: strncpy_buf_def snprintf_buf_def)

lemma bounded_copy_length:
  "0 < n \<Longrightarrow> length (strncpy_buf n s) < n" "0 < n \<Longrightarrow> length (snprintf_buf n s) < n"
  by (auto simp: strncpy_buf_def snprintf_buf_def)

fun fmt_nat :: "nat \<Rightarrow> string" where
  "fmt_nat n = (if n < 10 then [char_of (48 + n)] else fmt_nat (n div 10) @ [char_of (48 + n mod 10)])"

declare fmt_nat.simps [simp del]

definition fmt_d :: "int \<Rightarrow> string" where
  "fmt_d i = (if i < 0 then CHR ''-'' # fmt_nat (nat (- i)) else fmt_nat (nat i))"

section \<open>Searching\<close>

fun is_prefix :: "string \<Rightarrow> string \<Rightarrow> bool" where
  "is_prefix [] s = True"
| "is_prefix (c # cs) [] = False"
| "is_prefix (c # cs) (d # ds) = (c = d \<and> is_prefix cs ds)"

fun strstr :: "string \<Rightarrow> string \<Rightarrow> string option" where
  "strstr [] needle = (if needle = [] then Some [] else None)"
| "strstr (c # cs) needle = (if is_prefix needle (c # cs) then Some (c # cs) else strstr cs needle)"

fun strchr :: "string \<Rightarrow> char \<Rightarrow> string option" where
  "strchr [] c = None"
| "strchr (d # ds) c = (if d = c then Some (d # ds) else strchr ds c)"

fun strrchr :: "string \<Rightarrow> char \<Rightarrow> string option" where
  "strrchr [] c = None"
| "strrchr (d # ds) c =
     (case strrchr ds c of Some s \<Rightarrow> Some s | None \<Rightarrow> if d = c then Some (d # ds) else None)"

lemma is_prefix_append [simp, str_simps]: "is_prefix p (p @ s)"
  by (induction p) auto

lemma is_prefix_iff: "is_prefix p s \<longleftrightarrow> (\<exists>t. s = p @ t)"
  by (induction p s rule: is_prefix.induct) auto

lemma strchr_append [simp, str_simps]: "c \<notin> set s \<Longrightarrow> strchr (s @ c # t) c = Some (c # t)"
  by (induction s) auto

lemma strchr_None: "strchr s c = None \<longleftrightarrow> c \<notin> set s"
  by (induction s) auto

lemma strchr_Some: "strchr s c = Some t \<Longrightarrow> \<exists>u. s = u @ t \<and> c \<notin> set u \<and> hd t = c \<and> t \<noteq> []"
proof (induction s)
  case (Cons d ds)
  then show ?case
    by (cases "d = c") (auto intro: exI [of _ "d # u" for u])
qed simp

lemma strstr_Some: "strstr s p = Some t \<Longrightarrow> (\<exists>u. s = u @ t) \<and> is_prefix p t"
proof (induction s)
  case Nil
  then show ?case by (auto split: if_splits)
next
  case (Cons c cs)
  then show ?case
    by (auto split: if_splits)
qed

section \<open>Numbers\<close>

definition isspace :: "char \<Rightarrow> bool" where
  "isspace c \<longleftrightarrow> c \<in> {CHR '' '', CHR 0x09, CHR 0x0A, CHR 0x0B, CHR 0x0C, CHR 0x0D}"

definition isdigit :: "char \<Rightarrow> bool" where
  "isdigit c \<longleftrightarrow> 48 \<le> (of_char c :: nat) \<and> (of_char c :: nat) \<le> 57"

fun atoi_digits :: "nat \<Rightarrow> string \<Rightarrow> nat" where
  "atoi_digits acc [] = acc"
| "atoi_digits acc (c # cs) =
     (if isdigit c then atoi_digits (10 * acc + (of_char c - 48)) cs else acc)"

text \<open>The number a text denotes: white space is skipped, then an optional sign and digits.\<close>

definition number :: "string \<Rightarrow> int" where
  "number s =
     (case dropWhile isspace s of
        [] \<Rightarrow> 0
      | c # cs \<Rightarrow> if c = CHR ''-'' then - int (atoi_digits 0 cs)
                 else if c = CHR ''+'' then int (atoi_digits 0 cs)
                 else int (atoi_digits 0 (c # cs)))"

text \<open>
  \<open>atoi\<close> as the C library has it: \<open>strtol\<close>, which stops at the bounds of a 64-bit \<open>long\<close>, and then a
  conversion to \<open>int\<close>, which keeps the lower 32 bits.
\<close>

definition int_range :: "int \<Rightarrow> bool" where
  "int_range i \<longleftrightarrow> - (2 ^ 31) \<le> i \<and> i < 2 ^ 31"

definition atoi :: "string \<Rightarrow> int" where
  "atoi s = signed_take_bit 31 (max (- (2 ^ 63)) (min (2 ^ 63 - 1) (number s)))"

lemma atoi_range: "int_range (atoi s)"
  unfolding atoi_def int_range_def
  by (blast intro: signed_take_bit_int_greater_eq_minus_exp signed_take_bit_int_less_exp)

lemma atoi_number: "int_range (number s) \<Longrightarrow> atoi s = number s"
  by (simp add: atoi_def int_range_def max_def min_def signed_take_bit_int_eq_self)

lemma isdigit_fmt: "n < 10 \<Longrightarrow> isdigit (char_of (48 + n :: nat))"
  by (simp add: isdigit_def)

lemma fmt_nat_digits: "\<forall>c \<in> set (fmt_nat n). isdigit c"
proof (induction n rule: fmt_nat.induct)
  case (1 n)
  then show ?case
    by (subst fmt_nat.simps) (auto simp: isdigit_fmt)
qed

lemma atoi_digits_append:
  "\<forall>c \<in> set s. isdigit c \<Longrightarrow> atoi_digits acc (s @ t) = atoi_digits (atoi_digits acc s) t"
  by (induction s arbitrary: acc) auto

lemma atoi_digits_fmt: "atoi_digits 0 (fmt_nat n) = n"
proof (induction n rule: fmt_nat.induct)
  case (1 n)
  show ?case
  proof (cases "n < 10")
    case True
    then show ?thesis by (subst fmt_nat.simps) (simp add: isdigit_fmt)
  next
    case False
    then show ?thesis
      using "1.IH"
      by (subst fmt_nat.simps) (simp add: isdigit_fmt atoi_digits_append fmt_nat_digits)
  qed
qed

lemma atoi_digits_stop:
  "(\<forall>c cs. t = c # cs \<longrightarrow> \<not> isdigit c) \<Longrightarrow> atoi_digits acc t = acc"
  by (cases t) auto

lemma fmt_nat_Cons: "\<exists>c cs. fmt_nat n = c # cs \<and> isdigit c"
proof -
  have "fmt_nat n \<noteq> []" by (subst fmt_nat.simps) simp
  then show ?thesis using fmt_nat_digits [of n] by (cases "fmt_nat n") auto
qed

lemma not_isspace_digit: "isdigit c \<Longrightarrow> \<not> isspace c \<and> c \<noteq> CHR ''-'' \<and> c \<noteq> CHR ''+''"
  by (auto simp: isdigit_def isspace_def)

text \<open>Printing with \<open>%d\<close> and reading back with \<open>atoi\<close>, up to the first non-digit.\<close>

lemma number_fmt_nat:
  assumes "\<forall>c cs. t = c # cs \<longrightarrow> \<not> isdigit c"
  shows "number (fmt_nat n @ t) = int n"
proof -
  obtain c cs where c: "fmt_nat n = c # cs" "isdigit c" using fmt_nat_Cons by blast
  then have "dropWhile isspace (fmt_nat n @ t) = fmt_nat n @ t"
    using not_isspace_digit by simp
  moreover have "atoi_digits 0 (fmt_nat n @ t) = n"
    using assms by (simp add: atoi_digits_append fmt_nat_digits atoi_digits_fmt atoi_digits_stop)
  ultimately show ?thesis
    using c not_isspace_digit [OF c(2)] by (simp add: number_def)
qed

lemma number_fmt_d:
  assumes "\<forall>c cs. t = c # cs \<longrightarrow> \<not> isdigit c"
  shows "number (fmt_d i @ t) = i"
proof (cases "i < 0")
  case True
  have "\<not> isspace (CHR ''-'')" by (simp add: isspace_def)
  moreover have "atoi_digits 0 (fmt_nat (nat (- i)) @ t) = nat (- i)"
    using assms by (simp add: atoi_digits_append fmt_nat_digits atoi_digits_fmt atoi_digits_stop)
  ultimately show ?thesis using True by (simp add: fmt_d_def number_def)
next
  case False
  then show ?thesis using number_fmt_nat [OF assms] by (simp add: fmt_d_def)
qed

lemma atoi_fmt_nat: "n < 2 ^ 31 \<Longrightarrow> \<forall>c cs. t = c # cs \<longrightarrow> \<not> isdigit c \<Longrightarrow> atoi (fmt_nat n @ t) = int n"
  by (subst atoi_number) (simp_all add: number_fmt_nat int_range_def)

lemma atoi_fmt_d: "int_range i \<Longrightarrow> \<forall>c cs. t = c # cs \<longrightarrow> \<not> isdigit c \<Longrightarrow> atoi (fmt_d i @ t) = i"
  by (subst atoi_number) (simp_all add: number_fmt_d)

section \<open>Lines\<close>

text \<open>
  \<open>fgets(buf, n, f)\<close>: at most \<open>n - 1\<close> characters, up to and including the first newline;
  \<open>None\<close> at end of file. The second component is the rest of the stream.
\<close>

fun line_split :: "nat \<Rightarrow> string \<Rightarrow> string \<times> string" where
  "line_split 0 s = ([], s)"
| "line_split (Suc n) [] = ([], [])"
| "line_split (Suc n) (c # cs) =
     (if c = CHR 0x0A then ([c], cs)
      else let (l, r) = line_split n cs in (c # l, r))"

definition fgets :: "nat \<Rightarrow> string \<Rightarrow> (string \<times> string) option" where
  "fgets n s = (if s = [] then None else Some (line_split (n - 1) s))"

definition strip_newline :: "string \<Rightarrow> string" where
  "strip_newline s = (if s \<noteq> [] \<and> last s = CHR 0x0A then butlast s else s)"

lemma line_split_line:
  "CHR 0x0A \<notin> set s \<Longrightarrow> length s < n \<Longrightarrow> line_split n (s @ CHR 0x0A # t) = (s @ [CHR 0x0A], t)"
proof (induction s arbitrary: n)
  case Nil
  then show ?case by (cases n) auto
next
  case (Cons c s)
  then show ?case by (cases n) auto
qed

lemma line_split_prefix:
  "CHR 0x0A \<notin> set s \<Longrightarrow> length s = n \<Longrightarrow> line_split n (s @ t) = (s, t)"
proof (induction s arbitrary: n)
  case (Cons c s)
  then show ?case by (cases n) auto
qed auto

lemma line_split_append: "line_split n s = (l, r) \<Longrightarrow> s = l @ r"
  by (induction n s arbitrary: l r rule: line_split.induct) (auto split: if_splits prod.splits)

lemma fgets_shorter: "fgets n s = Some (l, r) \<Longrightarrow> 1 < n \<Longrightarrow> length r < length s"
proof -
  assume f: "fgets n s = Some (l, r)" and n: "1 < n"
  then obtain c cs k where s: "s = c # cs" "n - 1 = Suc k"
    by (cases s; cases "n - 1") (auto simp: fgets_def)
  with f have "line_split (Suc k) (c # cs) = (l, r)" by (simp add: fgets_def)
  then have "l \<noteq> []" by (auto split: if_splits prod.splits)
  with \<open>line_split (Suc k) (c # cs) = (l, r)\<close> line_split_append [of "Suc k" "c # cs" l r] s
  show ?thesis by (cases l) auto
qed

lemma strip_newline_line: "CHR 0x0A \<notin> set s \<Longrightarrow> strip_newline (s @ [CHR 0x0A]) = s"
  by (simp add: strip_newline_def)

lemma strip_newline_id: "CHR 0x0A \<notin> set s \<Longrightarrow> strip_newline s = s"
  by (metis last_in_set strip_newline_def)

section \<open>Lengths of printed numbers and skipping in searches\<close>

lemma length_fmt_nat: "0 < k \<Longrightarrow> n < 10 ^ k \<Longrightarrow> length (fmt_nat n) \<le> k"
proof (induction n arbitrary: k rule: fmt_nat.induct)
  case (1 n)
  show ?case
  proof (cases "n < 10")
    case True
    then show ?thesis using "1.prems" by (subst fmt_nat.simps) simp
  next
    case False
    then obtain j where k: "k = Suc j" "0 < j"
      using "1.prems" by (cases k; cases "k - 1") auto
    then have "n div 10 < 10 ^ j" using "1.prems" by (simp add: less_mult_imp_div_less mult.commute)
    with "1.IH" False k have "length (fmt_nat (n div 10)) \<le> j" by blast
    with False k show ?thesis by (subst fmt_nat.simps) simp
  qed
qed

lemma length_fmt_int32: "- (2 ^ 31) \<le> i \<Longrightarrow> i < 2 ^ 31 \<Longrightarrow> length (fmt_d i) \<le> 11"
proof -
  assume i: "- (2 ^ 31) \<le> i" "i < 2 ^ 31"
  then have "nat i < 10 ^ 10" "nat (- i) < 10 ^ 10" by simp_all
  then have "length (fmt_nat (nat i)) \<le> 10" "length (fmt_nat (nat (- i))) \<le> 10"
    by (simp_all add: length_fmt_nat)
  then show ?thesis by (simp add: fmt_d_def)
qed

text \<open>A search for something that starts with a character skips text without it.\<close>

lemma strstr_skip: "c \<notin> set s \<Longrightarrow> strstr (s @ t) (c # n) = strstr t (c # n)"
  by (induction s) auto

lemma strstr_here [simp]: "is_prefix n t \<Longrightarrow> t \<noteq> [] \<Longrightarrow> strstr t n = Some t"
  by (cases t) auto

end
