(* ===== verification/Hidden_Container.thy ===== *)
theory Hidden_Container
  imports C_Strings
begin

text \<open>
  \<open>crypticengine/src/hidden_container.c\<close>: LUKS volumes with detached headers. The state has
  the static variables of the file (the array \<open>containers\<close> with its 16 slots,
  \<open>container_count\<close>, \<open>container_base\<close>, \<open>container_initialized\<close>) and the log \<open>clog\<close> of what was
  done to the system. The programs the file runs (\<open>dd\<close>, \<open>cryptsetup\<close>, \<open>mkfs.ext4\<close>, \<open>mount\<close>,
  \<open>umount\<close>) are not in the sources: \<open>co_exec\<close> is a parameter that, for an argument vector and
  the text on standard input, gives an exit status (\<open>None\<close>: no child, or it did not exit
  normally) and the files afterwards. The outcomes of the system calls are the other fields
  of \<open>co_env\<close>.
\<close>

section \<open>Data\<close>

abbreviation (input) CONTAINER_NAME_MAX :: nat where "CONTAINER_NAME_MAX \<equiv> 64"
abbreviation (input) CONTAINER_PATH_MAX :: nat where "CONTAINER_PATH_MAX \<equiv> 256"
abbreviation (input) CONTAINER_MAX_ACTIVE :: nat where "CONTAINER_MAX_ACTIVE \<equiv> 16"

datatype container_state = CONTAINER_STATE_CLOSED | CONTAINER_STATE_OPEN | CONTAINER_STATE_ERROR

record container_info =
  cname :: string
  vault_path :: string
  header_path :: string
  mount_path :: string
  mapper_name :: string
  cstate :: container_state
  size_mb :: nat

definition container_zero :: container_info where
  "container_zero = \<lparr>cname = [], vault_path = [], header_path = [], mount_path = [], mapper_name = [],
     cstate = CONTAINER_STATE_CLOSED, size_mb = 0\<rparr>"

datatype cevent =
    CRun "string list" string
  | CMkdir path
  | CRmdir path
  | CMount path path
  | CUmount path
  | CUnlink path
  | CChmod path

record cont_state =
  containers :: "container_info list"
  container_count :: nat
  container_base :: string
  container_initialized :: bool
  clog :: "cevent list"

definition cont_start :: cont_state where
  "cont_start = \<lparr>containers = replicate CONTAINER_MAX_ACTIVE container_zero, container_count = 0,
     container_base = [], container_initialized = False, clog = []\<rparr>"

record co_env =
  co_exec :: "string list \<Rightarrow> string \<Rightarrow> fs \<Rightarrow> int option \<times> fs"
  co_home :: "string option"
  co_pwdir :: "string option"
  co_pipe1_ok :: bool
  co_pipe2_ok :: bool
  co_fork1_ok :: bool
  co_fork2_ok :: bool
  co_readable :: "path \<Rightarrow> bool"
  co_mount_ok :: bool
  co_umount_ok :: bool

section \<open>Internal helpers\<close>

definition clog_add :: "cevent list \<Rightarrow> cont_state \<Rightarrow> cont_state" where
  "clog_add es st = st\<lparr>clog := clog st @ es\<rparr>"

definition get_container_base :: "co_env \<Rightarrow> cont_state \<Rightarrow> string \<times> cont_state" where
  "get_container_base e st =
     (if container_base st \<noteq> [] then (container_base st, st)
      else
        let home = (case co_home e of
                      Some h \<Rightarrow> h
                    | None \<Rightarrow> (case co_pwdir e of Some d \<Rightarrow> d | None \<Rightarrow> ''/root''));
            base = snprintf_buf CONTAINER_PATH_MAX (home @ ''/.securez/containers'')
        in (base, st\<lparr>container_base := base\<rparr>))"

text \<open>
  \<open>run_command\<close>, and the fork/exec/pipe sequence with a password on standard input: the exit
  status, -1 when there is none.
\<close>

definition run_command ::
  "co_env \<Rightarrow> string list \<Rightarrow> string \<Rightarrow> fs \<times> cont_state \<Rightarrow> int \<times> fs \<times> cont_state" where
  "run_command e argv input w =
     (case co_exec e argv input (fst w) of
        (r, files') \<Rightarrow> (case r of None \<Rightarrow> -1 | Some x \<Rightarrow> x, files', clog_add [CRun argv input] (snd w)))"

definition find_container :: "string \<Rightarrow> cont_state \<Rightarrow> nat option" where
  "find_container name st =
     scan_slots (\<lambda>c. cname c = name) 0 (container_count st) (containers st)"

definition vault_of :: "string \<Rightarrow> string \<Rightarrow> path" where
  "vault_of base name = snprintf_buf CONTAINER_PATH_MAX (base @ ''/'' @ name @ ''.vault'')"

definition header_of :: "string \<Rightarrow> string \<Rightarrow> path" where
  "header_of base name = snprintf_buf CONTAINER_PATH_MAX (base @ ''/'' @ name @ ''.header'')"

definition mount_of :: "string \<Rightarrow> path" where
  "mount_of name = snprintf_buf CONTAINER_PATH_MAX (''/mnt/securez-vault/'' @ name)"

definition mapper_of :: "string \<Rightarrow> string" where
  "mapper_of name = snprintf_buf (CONTAINER_NAME_MAX + 16) (''sz-'' @ name)"

definition dev_of :: "string \<Rightarrow> path" where
  "dev_of mapper = snprintf_buf 128 (''/dev/mapper/'' @ mapper)"

definition luks_format_argv :: "path \<Rightarrow> path \<Rightarrow> string list" where
  "luks_format_argv header vault =
     [''cryptsetup'', ''luksFormat'', ''--type'', ''luks2'', ''--header'', header,
      ''--cipher'', ''aes-xts-plain64'', ''--key-size'', ''512'', ''--hash'', ''sha512'',
      ''--pbkdf'', ''argon2id'', ''--pbkdf-memory'', ''262144'', ''--pbkdf-parallel'', ''4'',
      ''--pbkdf-force-iterations'', ''4'', ''--batch-mode'', ''--key-file'', ''-'', vault]"

definition luks_open_argv :: "path \<Rightarrow> path \<Rightarrow> string \<Rightarrow> string list" where
  "luks_open_argv header vault mapper =
     [''cryptsetup'', ''open'', ''--type'', ''luks2'', ''--header'', header, ''--key-file'', ''-'',
      vault, mapper]"

definition luks_close_argv :: "string \<Rightarrow> string list" where
  "luks_close_argv mapper = [''cryptsetup'', ''close'', mapper]"

definition unlinked :: "path list \<Rightarrow> fs \<times> cont_state \<Rightarrow> fs \<times> cont_state" where
  "unlinked ps w = (fold (\<lambda>p files. files(p := None)) ps (fst w), clog_add (map CUnlink ps) (snd w))"

section \<open>Public API\<close>

definition container_init :: "co_env \<Rightarrow> cont_state \<Rightarrow> unit res \<times> cont_state" where
  "container_init e st =
     (if container_initialized st then (Inr (), st)
      else
        let (base, st1) = get_container_base e st
        in (Inr (), clog_add [CMkdir base, CMkdir ''/mnt/securez-vault'']
              (st1\<lparr>containers := replicate CONTAINER_MAX_ACTIVE container_zero, container_count := 0,
                   container_initialized := True\<rparr>)))"

text \<open>
  \<open>container_create\<close>: the vault file of random data, the LUKS header, the file system inside.
  The second \<open>fork\<close> is not checked: when it fails, \<open>waitpid\<close> is asked for pid -1 and the
  status it leaves unset is read.
\<close>

definition container_create ::
  "co_env \<Rightarrow> string option \<Rightarrow> nat \<Rightarrow> string option \<Rightarrow> fs \<times> cont_state \<Rightarrow> unit res \<times> fs \<times> cont_state" where
  "container_create e name_p sz password w =
     (case (name_p, password) of
        (Some name, Some pw) \<Rightarrow>
          if sz = 0 then (Inl EInval, w)
          else if length name \<ge> CONTAINER_NAME_MAX then (Inl EInval, w)
          else
            let (base, st0) = get_container_base e (snd w);
                vault = vault_of base name; header = header_of base name; mapper = mapper_of name;
                w0 = (fst w, st0)
            in if fst w vault \<noteq> None then (Inl EExists, w0)
            else (case run_command e [''dd'', ''if=/dev/urandom'', ''of='' @ vault, ''bs=1M'',
                    snprintf_buf 32 (''count='' @ fmt_nat sz), ''status=progress''] [] w0 of (x1, w1) \<Rightarrow>
            if x1 \<noteq> 0 then (Inl ESys, w1)
            else if \<not> co_pipe1_ok e then (Inl ESys, unlinked [vault] w1)
            else if \<not> co_fork1_ok e then (Inl ESys, unlinked [vault] w1)
            else (case run_command e (luks_format_argv header vault) pw w1 of (x2, w2) \<Rightarrow>
            if x2 \<noteq> 0 then (Inl ESys, unlinked [vault, header] w2)
            else if \<not> co_pipe2_ok e then (Inl ESys, unlinked [vault, header] w2)
            else if \<not> co_fork2_ok e then (Inl EUndefined, w2)
            else (case run_command e (luks_open_argv header vault mapper) pw w2 of (x3, w3) \<Rightarrow>
            if x3 \<noteq> 0 then (Inl ESys, unlinked [vault, header] w3)
            else (case run_command e [''mkfs.ext4'', ''-q'', dev_of mapper] [] w3 of (_, w4) \<Rightarrow>
                 (case run_command e (luks_close_argv mapper) [] w4 of (_, w5) \<Rightarrow>
                   (Inr (), fst w5, clog_add [CChmod header, CChmod vault] (snd w5)))))))
      | _ \<Rightarrow> (Inl EInval, w))"

definition open_slot :: "string \<Rightarrow> string \<Rightarrow> container_info \<Rightarrow> container_info" where
  "open_slot base name c =
     c\<lparr>cname := strncpy_buf CONTAINER_NAME_MAX name,
       vault_path := strncpy_buf CONTAINER_PATH_MAX (vault_of base name),
       header_path := strncpy_buf CONTAINER_PATH_MAX (header_of base name),
       mount_path := strncpy_buf CONTAINER_PATH_MAX (mount_of name),
       mapper_name := strncpy_buf CONTAINER_NAME_MAX (mapper_of name),
       cstate := CONTAINER_STATE_OPEN\<rparr>"

text \<open>The slot that is written: the one found, or the next free one.\<close>

definition track_open :: "nat option \<Rightarrow> string \<Rightarrow> string \<Rightarrow> cont_state \<Rightarrow> cont_state" where
  "track_open found base name st =
     (let idx = (case found of Some i \<Rightarrow> i | None \<Rightarrow> container_count st);
          cnt = (case found of Some i \<Rightarrow> container_count st | None \<Rightarrow> Suc (container_count st))
      in st\<lparr>containers := (containers st)[idx := open_slot base name (containers st ! idx)],
            container_count := cnt\<rparr>)"

definition container_open ::
  "co_env \<Rightarrow> string option \<Rightarrow> string option \<Rightarrow> fs \<times> cont_state \<Rightarrow> unit res \<times> fs \<times> cont_state" where
  "container_open e name_p password w =
     (case (name_p, password) of
        (Some name, Some pw) \<Rightarrow>
          let found = find_container name (snd w)
          in if (case found of None \<Rightarrow> False
                 | Some i \<Rightarrow> cstate (containers (snd w) ! i) = CONTAINER_STATE_OPEN)
             then (Inr (), w)
          else if container_count (snd w) \<ge> CONTAINER_MAX_ACTIVE \<and> found = None then (Inl EFull, w)
          else
            let (base, st0) = get_container_base e (snd w);
                vault = vault_of base name; header = header_of base name;
                mnt = mount_of name; mapper = mapper_of name;
                w0 = (fst w, st0)
            in if fst w vault = None \<or> \<not> co_readable e vault \<or> fst w header = None \<or> \<not> co_readable e header
               then (Inl ENotFound, w0)
            else if \<not> co_pipe1_ok e then (Inl ESys, w0)
            else if \<not> co_fork1_ok e then (Inl EUndefined, w0)
            else (case run_command e (luks_open_argv header vault mapper) pw w0 of (x1, w1) \<Rightarrow>
            if x1 \<noteq> 0 then (Inl EAuth, w1)
            else
              let w2 = (fst w1, clog_add [CMkdir mnt, CMount (dev_of mapper) mnt] (snd w1));
                  (mounted, w3) =
                    (if co_mount_ok e then (True, w2)
                     else case run_command e [''mount'', dev_of mapper, mnt] [] w2 of (x2, w2') \<Rightarrow> (x2 = 0, w2'))
              in if \<not> mounted
                 then (case run_command e (luks_close_argv mapper) [] w3 of (_, w4) \<Rightarrow> (Inl ESys, w4))
                 else (Inr (), fst w3, track_open found base name (snd w3)))
      | _ \<Rightarrow> (Inl EInval, w))"

definition container_close ::
  "co_env \<Rightarrow> string option \<Rightarrow> fs \<times> cont_state \<Rightarrow> unit res \<times> fs \<times> cont_state" where
  "container_close e name_p w =
     (case name_p of
        None \<Rightarrow> (Inl EInval, w)
      | Some name \<Rightarrow>
          (case find_container name (snd w) of
             None \<Rightarrow> (Inl ENotFound, w)
           | Some idx \<Rightarrow>
               let c = containers (snd w) ! idx
               in if cstate c \<noteq> CONTAINER_STATE_OPEN then (Inl ENotFound, w)
               else
                 let w1 = (fst w, clog_add [CUmount (mount_path c)] (snd w));
                     w2 = (if co_umount_ok e then w1
                           else snd (run_command e [''umount'', mount_path c] [] w1));
                     w3 = (fst w2, clog_add [CRmdir (mount_path c)] (snd w2));
                     w4 = snd (run_command e (luks_close_argv (mapper_name c)) [] w3);
                     st = snd w4;
                     arr = (containers st)[idx := c\<lparr>cstate := CONTAINER_STATE_CLOSED\<rparr>]
                 in (Inr (), fst w4,
                     st\<lparr>containers := memmove_down idx (container_count st) arr,
                        container_count := container_count st - 1\<rparr>)))"

definition container_destroy ::
  "co_env \<Rightarrow> string option \<Rightarrow> string option \<Rightarrow> fs \<times> cont_state \<Rightarrow> unit res \<times> fs \<times> cont_state" where
  "container_destroy e name_p password w =
     (case (name_p, password) of
        (Some name, Some pw) \<Rightarrow>
          let w1 = snd (container_close e (Some name) w);
              (base, st1) = get_container_base e (snd w1);
              vault = vault_of base name; header = header_of base name;
              w2 = (case fst w1 vault of
                      None \<Rightarrow> (fst w1, st1)
                    | Some content \<Rightarrow>
                        snd (run_command e [''dd'', ''if=/dev/urandom'', ''of='' @ vault, ''bs=1M'',
                          snprintf_buf 32 (''count='' @ fmt_nat (length content div (1024 * 1024) + 1)),
                          ''conv=notrunc'', ''status=none''] [] (fst w1, st1)))
          in (Inr (), unlinked [vault, header] w2)
      | _ \<Rightarrow> (Inl EInval, w))"

definition container_list :: "cont_state \<Rightarrow> container_info list \<times> nat" where
  "container_list st = (take (container_count st) (containers st), container_count st)"

definition container_get_info :: "string \<Rightarrow> cont_state \<Rightarrow> container_info res" where
  "container_get_info name st =
     (case find_container name st of
        None \<Rightarrow> Inl ENotFound
      | Some idx \<Rightarrow> Inr (containers st ! idx))"

definition container_close_all :: "co_env \<Rightarrow> fs \<times> cont_state \<Rightarrow> fs \<times> cont_state" where
  "container_close_all e w =
     fold (\<lambda>name w. snd (container_close e (Some name) w))
       (map cname (take (container_count (snd w)) (containers (snd w)))) w"

section \<open>The table of open containers\<close>

definition cactive :: "cont_state \<Rightarrow> container_info list" where
  "cactive st = take (container_count st) (containers st)"

definition cont_inv :: "cont_state \<Rightarrow> bool" where
  "cont_inv st \<longleftrightarrow>
     length (containers st) = CONTAINER_MAX_ACTIVE \<and> container_count st \<le> CONTAINER_MAX_ACTIVE \<and>
     (\<forall>c \<in> set (cactive st). cstate c = CONTAINER_STATE_OPEN)"

lemma clog_add_frame [simp, table_simps]:
  "containers (clog_add es st) = containers st" "container_count (clog_add es st) = container_count st"
  "container_base (clog_add es st) = container_base st"
  by (simp_all add: clog_add_def)

lemma run_command_frame [simp, table_simps]:
  "containers (snd (snd (run_command e argv i w))) = containers (snd w)"
  "container_count (snd (snd (run_command e argv i w))) = container_count (snd w)"
  by (simp_all add: run_command_def split: prod.splits)

lemma run_command_frame_eq [table_simps]:
  "run_command e argv i w = (x, w') \<Longrightarrow>
     containers (snd w') = containers (snd w) \<and> container_count (snd w') = container_count (snd w)"
  using run_command_frame [of e argv i w] by auto

lemma get_base_frame [table_simps]:
  "get_container_base e st = (b, st') \<Longrightarrow>
     containers st' = containers st \<and> container_count st' = container_count st"
  by (auto simp: get_container_base_def Let_def split: if_splits)

lemma cactive_cong:
  "containers st = containers st' \<Longrightarrow> container_count st = container_count st' \<Longrightarrow>
     cactive st = cactive st' \<and> (cont_inv st \<longleftrightarrow> cont_inv st')"
  by (simp add: cactive_def cont_inv_def)

lemma find_container_eq: "cont_inv st \<Longrightarrow> find_container k st = find_key cname k (cactive st)"
  by (simp add: find_container_def cont_inv_def scan_slots_find_key cactive_def)

lemma found_open:
  assumes "cont_inv st" "find_container k st = Some idx"
  shows "idx < container_count st" "cstate (containers st ! idx) = CONTAINER_STATE_OPEN"
    "cname (containers st ! idx) = k" "remove_key cname k (cactive st) = take idx (cactive st) @ drop (Suc idx) (cactive st)"
proof -
  from assms have f: "find_key cname k (cactive st) = Some idx" by (simp add: find_container_eq)
  from find_key_Some [OF f] have idx: "idx < length (cactive st)" "cname (cactive st ! idx) = k" by auto
  then show "idx < container_count st" by (simp add: cactive_def)
  moreover have "cactive st ! idx = containers st ! idx" using idx(1) by (simp add: cactive_def)
  ultimately show "cstate (containers st ! idx) = CONTAINER_STATE_OPEN" "cname (containers st ! idx) = k"
    using assms(1) idx by (auto simp: cont_inv_def dest: nth_mem)
  show "remove_key cname k (cactive st) = take idx (cactive st) @ drop (Suc idx) (cactive st)"
    by (rule find_key_remove [OF f])
qed

text \<open>What a successful close does to the table, whatever the programs it runs answer.\<close>

lemma close_table:
  assumes "cont_inv (snd w)" "find_container k (snd w) = Some idx"
  shows "containers (snd (snd (container_close e (Some k) w))) =
      memmove_down idx (container_count (snd w))
        ((containers (snd w))[idx := (containers (snd w) ! idx)\<lparr>cstate := CONTAINER_STATE_CLOSED\<rparr>])"
    "container_count (snd (snd (container_close e (Some k) w))) = container_count (snd w) - 1"
  using found_open [OF assms]
  by (simp_all add: container_close_def assms(2) Let_def)

lemma close_active:
  assumes "cont_inv (snd w)"
  shows "cactive (snd (snd (container_close e (Some k) w))) = remove_key cname k (cactive (snd w))"
proof (cases "find_container k (snd w)")
  case None
  then have "k \<notin> cname ` set (cactive (snd w))"
    using assms by (simp add: find_container_eq find_key_None)
  then show ?thesis using None by (simp add: container_close_def remove_key_notin)
next
  case (Some idx)
  have "idx < container_count (snd w)" "container_count (snd w) \<le> length (containers (snd w))"
    using found_open [OF assms Some] assms by (simp_all add: cont_inv_def)
  then show ?thesis
    unfolding found_open(4) [OF assms Some] unfolding cactive_def close_table [OF assms Some]
    by (subst take_memmove_down) (simp_all add: take_update_swap list_update_beyond)
qed

lemma close_inv:
  assumes "cont_inv (snd w)"
  shows "cont_inv (snd (snd (container_close e (Some k) w)))"
proof (cases "find_container k (snd w)")
  case None
  then show ?thesis using assms by (simp add: container_close_def)
next
  case (Some idx)
  then show ?thesis
    using assms found_open(1) [OF assms Some] remove_key_subset [of cname k "cactive (snd w)"]
    by (auto simp: cont_inv_def close_active close_table)
qed

interpretation ct: slot_table
  "\<lambda>w. cactive (snd w)" cname "\<lambda>k w. snd (container_close e (Some k) w)" "\<lambda>w. cont_inv (snd w)"
  for e :: co_env
  by unfold_locales (simp_all add: close_active close_inv)

text \<open>What a container that was opened adds to the table.\<close>

lemma track_open_None:
  assumes "cont_inv st" "container_count st < CONTAINER_MAX_ACTIVE"
  shows "cactive (track_open None base name st) =
      cactive st @ [open_slot base name (containers st ! container_count st)]"
    and "cont_inv (track_open None base name st)"
proof -
  show a: "cactive (track_open None base name st) =
      cactive st @ [open_slot base name (containers st ! container_count st)]"
    using assms by (simp add: track_open_def Let_def cactive_def cont_inv_def take_Suc_conv_app_nth)
  show "cont_inv (track_open None base name st)"
    using assms a by (auto simp: cont_inv_def track_open_def Let_def open_slot_def)
qed

lemma open_cases:
  assumes "cont_inv (snd w)" "container_open e (Some name) (Some pw) w = (r, w')"
  obtains (already) "r = Inr ()" "w' = w" "find_container name (snd w) \<noteq> None"
  | (failed) err where "r = Inl err" "cactive (snd w') = cactive (snd w)" "cont_inv (snd w')"
  | (opened) base c where "r = Inr ()" "find_container name (snd w) = None"
      "cactive (snd w') = cactive (snd w) @ [open_slot base name c]" "cont_inv (snd w')"
proof -
  have open_found: "cstate (containers (snd w) ! i) = CONTAINER_STATE_OPEN"
    if "find_container name (snd w) = Some i" for i
    using found_open(2) [OF assms(1) that] .
  show thesis
  proof (cases "find_container name (snd w)")
    case (Some i)
    then show thesis
      using assms(2) open_found [OF Some] by (intro already) (auto simp: container_open_def)
  next
    case None
    note fr = get_base_frame run_command_frame_eq
    show thesis
    proof (cases r)
      case (Inl err)
      have "containers (snd w') = containers (snd w) \<and> container_count (snd w') = container_count (snd w)"
        using assms(2) None Inl
        by (auto simp: container_open_def Let_def split: if_splits prod.splits dest!: fr)
      then show thesis
        using failed [OF Inl] assms(1) cactive_cong [of "snd w'" "snd w"] by simp
    next
      case (Inr u)
      then obtain base st where st: "snd w' = track_open None base name st"
        "containers st = containers (snd w)" "container_count st = container_count (snd w)"
        and cnt: "container_count (snd w) < CONTAINER_MAX_ACTIVE"
        using assms(2) None
        by (auto simp: container_open_def Let_def not_le split: if_splits prod.splits dest!: fr)
      from st(2,3) have eq: "cactive st = cactive (snd w)" "cont_inv st"
        using cactive_cong [of st "snd w"] assms(1) by auto
      show thesis
        using opened [OF _ None] Inr track_open_None [OF eq(2), of base name] cnt st eq(1) by auto
    qed
  qed
qed

section \<open>Reachable tables\<close>

lemma unlinked_frame [simp, table_simps]:
  "containers (snd (unlinked ps w)) = containers (snd w)"
  "container_count (snd (unlinked ps w)) = container_count (snd w)"
  by (simp_all add: unlinked_def)

lemma unlinked_removed: "p \<in> set ps \<Longrightarrow> fst (unlinked ps w) p = None"
proof -
  have "p \<in> set ps \<or> files p = None \<Longrightarrow> fold (\<lambda>p files. files(p := None)) ps files p = None" for files
    by (induction ps arbitrary: files) auto
  then show "p \<in> set ps \<Longrightarrow> fst (unlinked ps w) p = None" by (simp add: unlinked_def)
qed

text \<open>Steps that keep the table, chained through the continuations of the operation.\<close>

definition same_table :: "fs \<times> cont_state \<Rightarrow> fs \<times> cont_state \<Rightarrow> bool" where
  "same_table w w' \<longleftrightarrow> containers (snd w') = containers (snd w) \<and> container_count (snd w') = container_count (snd w)"

lemma same_table_intros:
  "same_table w w"
  "same_table w w' \<Longrightarrow> same_table w (unlinked ps w')"
  "same_table w w' \<Longrightarrow> same_table w (fst w', clog_add es (snd w'))"
  by (simp_all add: same_table_def)

lemma same_table_if:
  "same_table w (snd a) \<Longrightarrow> same_table w (snd b) \<Longrightarrow> same_table w (snd (if c then a else b))"
  by simp

lemma same_table_run:
  "same_table w w0 \<Longrightarrow> (\<And>x w'. same_table w w' \<Longrightarrow> same_table w (snd (f x w'))) \<Longrightarrow>
   same_table w (snd (case run_command e argv i w0 of (x, w') \<Rightarrow> f x w'))"
  by (auto simp: same_table_def dest: run_command_frame_eq split: prod.splits)

lemma create_frame:
  "containers (snd (snd (container_create e name sz pw w))) = containers (snd w) \<and>
   container_count (snd (snd (container_create e name sz pw w))) = container_count (snd w)"
proof (cases "name = None \<or> pw = None")
  case True
  then show ?thesis by (auto simp: container_create_def split: option.splits)
next
  case False
  then obtain n p where np: "name = Some n" "pw = Some p" by auto
  obtain base st0 where base: "get_container_base e (snd w) = (base, st0)" by (rule prod.exhaust)
  then have start: "same_table w (fst w, st0)" by (auto simp: same_table_def dest: get_base_frame)
  have "same_table w (snd (container_create e (Some n) sz (Some p) w))"
    unfolding container_create_def Let_def base prod.case option.case
    by (intro same_table_if same_table_run)
      (simp_all add: same_table_intros start)
  then show ?thesis by (simp add: np same_table_def)
qed

lemma destroy_table:
  "cactive (snd (snd (container_destroy e (Some name) (Some pw) w))) =
     cactive (snd (snd (container_close e (Some name) w))) \<and>
   (cont_inv (snd (snd (container_destroy e (Some name) (Some pw) w))) \<longleftrightarrow>
     cont_inv (snd (snd (container_close e (Some name) w))))"
  by (rule cactive_cong)
    (auto simp: container_destroy_def Let_def split: option.splits prod.splits dest!: get_base_frame)

lemma close_all_empties:
  assumes "cont_inv (snd w)"
  shows "cont_inv (snd (container_close_all e w)) \<and> cactive (snd (container_close_all e w)) = []"
  unfolding container_close_all_def cactive_def [symmetric]
  by (rule ct.remove_snapshot) (simp_all add: assms)

inductive cont_step :: "fs \<times> cont_state \<Rightarrow> fs \<times> cont_state \<Rightarrow> bool" where
  cont_init: "cont_step (files, st) (files, snd (container_init e st))"
| cont_create: "cont_step w (snd (container_create e name sz pw w))"
| cont_open: "cont_step w (snd (container_open e (Some name) (Some pw) w))"
| cont_close: "cont_step w (snd (container_close e (Some name) w))"
| cont_destroy: "cont_step w (snd (container_destroy e (Some name) (Some pw) w))"
| cont_close_all: "cont_step w (container_close_all e w)"
| cont_files: "cont_step (files, st) (files', st)"

inductive cont_reachable :: "fs \<times> cont_state \<Rightarrow> bool" where
  creach_start: "cont_reachable (files, cont_start)"
| creach_step: "cont_reachable w \<Longrightarrow> cont_step w w' \<Longrightarrow> cont_reachable w'"

lemma open_inv:
  assumes "cont_inv (snd w)"
  shows "cont_inv (snd (snd (container_open e (Some name) (Some pw) w)))"
proof -
  obtain r w' where o: "container_open e (Some name) (Some pw) w = (r, w')" by (rule prod.exhaust)
  from assms o show ?thesis
    by (cases rule: open_cases) (simp_all add: o assms)
qed

lemma reachable_cont_inv: "cont_reachable w \<Longrightarrow> cont_inv (snd w)"
proof (induction rule: cont_reachable.induct)
  case (creach_start files)
  show ?case by (simp add: cont_inv_def cont_start_def cactive_def)
next
  case (creach_step w w')
  from creach_step(2,3) show ?case
  proof (cases rule: cont_step.cases)
    case (cont_init files st e)
    then show ?thesis
      using creach_step(3)
      by (auto simp: container_init_def Let_def cont_inv_def cactive_def split: prod.splits)
  next
    case (cont_create e name sz pw)
    then show ?thesis
      using creach_step(3) cactive_cong create_frame [of e name sz pw w] by blast
  qed (simp_all add: creach_step(3) open_inv close_inv destroy_table close_all_empties)
qed

lemma reachable_container_names:
  "cont_reachable w \<Longrightarrow> \<forall>c \<in> set (cactive (snd w)). length (cname c) < CONTAINER_NAME_MAX"
proof (induction rule: cont_reachable.induct)
  case (creach_start files)
  show ?case by (simp add: cont_start_def cactive_def)
next
  case (creach_step w w')
  have inv: "cont_inv (snd w)" by (rule reachable_cont_inv [OF creach_step(1)])
  note close = close_active [OF inv] remove_key_subset
  from creach_step(2) show ?case
  proof (cases rule: cont_step.cases)
    case (cont_init files st e)
    then show ?thesis
      using creach_step(3) by (auto simp: container_init_def Let_def cactive_def split: prod.splits dest!: get_base_frame)
  next
    case (cont_create e name sz pw)
    then show ?thesis using creach_step(3) cactive_cong create_frame [of e name sz pw w] by metis
  next
    case (cont_open e name pw)
    obtain r w1 where o: "container_open e (Some name) (Some pw) w = (r, w1)" by (rule prod.exhaust)
    from inv o show ?thesis
      by (cases rule: open_cases)
        (use creach_step(3) cont_open o in \<open>auto simp: open_slot_def bounded_copy_length\<close>)
  next
    case (cont_close e name)
    then show ?thesis using creach_step(3) close by fastforce
  next
    case (cont_destroy e name pw)
    then show ?thesis using creach_step(3) close destroy_table [of e name pw w] by fastforce
  next
    case (cont_close_all e)
    then show ?thesis using close_all_empties [OF inv, of e] by simp
  next
    case (cont_files files st files')
    then show ?thesis using creach_step(3) by simp
  qed
qed

text \<open>
  Whatever sequence of container operations came before, and whatever the programs
  they run answer, \<open>container_close_all\<close> leaves no container in the table.
\<close>

theorem container_close_all_empties:
  assumes "cont_reachable w"
  shows "container_list (snd (container_close_all e w)) = ([], 0)"
  using close_all_empties [OF reachable_cont_inv [OF assms], of e]
  by (auto simp: container_list_def cactive_def cont_inv_def)

definition co_demo :: co_env where
  "co_demo = \<lparr>co_exec = (\<lambda>argv inp files. (Some 0, files)), co_home = Some ''/root'', co_pwdir = None,
     co_pipe1_ok = True, co_pipe2_ok = True, co_fork1_ok = True, co_fork2_ok = True,
     co_readable = (\<lambda>_. True), co_mount_ok = True, co_umount_ok = True\<rparr>"

definition demo_files :: fs where
  "demo_files = [''/root/.securez/containers/tax.vault'' \<mapsto> [], ''/root/.securez/containers/tax.header'' \<mapsto> []]"

definition one_container :: "fs \<times> cont_state" where
  "one_container = snd (container_open co_demo (Some ''tax'') (Some ''pw'') (demo_files, cont_start))"

lemma one_container_reachable: "cont_reachable one_container"
  unfolding one_container_def by (rule creach_step [OF creach_start cont_open])

lemma one_container_names: "map cname (fst (container_list (snd one_container))) = [''tax'']"
  by code_simp

theorem container_close_all_empties_witness:
  "map cname (fst (container_list (snd one_container))) = [''tax''] \<and>
   container_list (snd (container_close_all co_demo one_container)) = ([], 0)"
  using container_close_all_empties [OF one_container_reachable] one_container_names by blast

text \<open>
  Opening containers under names that fit \<open>CONTAINER_NAME_MAX\<close> keeps the names in the
  table distinct, so that each open container can be found and closed by its name.
\<close>

theorem container_open_distinct:
  assumes "cont_reachable w" "distinct (map cname (fst (container_list (snd w))))"
    and "length name < CONTAINER_NAME_MAX"
  shows "distinct (map cname (fst (container_list (snd (snd (container_open e (Some name) (Some pw) w))))))"
proof -
  have inv: "cont_inv (snd w)" by (rule reachable_cont_inv [OF assms(1)])
  obtain r w' where o: "container_open e (Some name) (Some pw) w = (r, w')" by (rule prod.exhaust)
  from inv o show ?thesis
  proof (cases rule: open_cases)
    case already
    then show ?thesis using assms(2) o by simp
  next
    case failed
    then show ?thesis using assms(2) o by (simp add: container_list_def cactive_def)
  next
    case (opened base c)
    then have "name \<notin> cname ` set (cactive (snd w))"
      using inv by (simp add: find_container_eq find_key_None)
    then show ?thesis
      using opened(3) assms(2,3) o by (simp add: container_list_def cactive_def open_slot_def)
  qed
qed

theorem container_open_distinct_witness:
  "distinct (map cname (fst (container_list (snd (snd
     (container_open co_demo (Some ''keys'') (Some ''pw'') one_container))))))"
  by (rule container_open_distinct [OF one_container_reachable])
    (simp_all only: one_container_names, simp_all)

section \<open>Opening, closing and destroying one container\<close>

text \<open>
  The name under which \<open>container_close\<close> asks \<open>cryptsetup\<close> to close the mapping is
  stored in a buffer of 64 bytes, while \<open>container_open\<close> used the untruncated name: for
  container names the creation accepts, the two are the same exactly up to 60 characters.
  With 61 to 63 characters, closing leaves the decrypted mapping open.
\<close>

theorem close_uses_opened_mapper:
  assumes "length name < CONTAINER_NAME_MAX"
  shows "mapper_name (open_slot base name c) = mapper_of name \<longleftrightarrow> length name \<le> 60"
proof -
  have m: "mapper_of name = ''sz-'' @ name" using assms by (simp add: mapper_of_def)
  have "mapper_name (open_slot base name c) = take 63 (''sz-'' @ name)"
    by (simp add: open_slot_def m strncpy_buf_def)
  moreover have "take 63 (''sz-'' @ name) = ''sz-'' @ name \<longleftrightarrow> length (''sz-'' @ name) \<le> 63"
    by (rule take_all_iff)
  ultimately show ?thesis using m by simp
qed

theorem close_uses_opened_mapper_witness:
  "mapper_name (open_slot ''/b'' (replicate 62 (CHR ''x'')) container_zero) \<noteq> mapper_of (replicate 62 (CHR ''x''))"
  using close_uses_opened_mapper [of "replicate 62 (CHR ''x'')" "''/b''" container_zero] by simp

text \<open>
  \<open>container_destroy\<close> deletes the vault and the header of the container whatever
  password it is given: the password is never compared with anything.
\<close>

theorem container_destroy_ignores_password:
  "container_destroy e (Some name) (Some pw) w = container_destroy e (Some name) (Some pw') w \<and>
   (let base = fst (get_container_base e (snd (snd (container_close e (Some name) w))));
        files' = fst (snd (container_destroy e (Some name) (Some pw) w))
    in files' (vault_of base name) = None \<and> files' (header_of base name) = None)"
proof -
  obtain base st where "get_container_base e (snd (snd (container_close e (Some name) w))) = (base, st)"
    by (rule prod.exhaust)
  then show ?thesis by (simp add: container_destroy_def Let_def unlinked_removed)
qed

end
