(* ===== verification/Secure_Session.thy ===== *)
theory Secure_Session
  imports C_Strings
begin

unbundle bit_operations_syntax

text \<open>
  \<open>crypticengine/src/secure_session.c\<close>: the table of namespace-isolated sessions. The state
  has the static variables of the file: the array \<open>sessions\<close> with its \<open>SESSION_MAX_ACTIVE\<close>
  slots (the slots beyond \<open>session_count\<close> hold stale data, as in C), the counters, the
  initialisation flag. The system calls are recorded in \<open>klog\<close>, oldest first, so that what
  is done to the kernel, and in which order, is part of the state; their outcomes are
  arguments (\<open>create_env\<close>).
\<close>

section \<open>Data\<close>

abbreviation (input) SESSION_MAX_ACTIVE :: nat where "SESSION_MAX_ACTIVE \<equiv> 16"
abbreviation (input) SESSION_NAME_MAX :: nat where "SESSION_NAME_MAX \<equiv> 64"

definition SESSION_DEFAULT_MEM :: u64 where "SESSION_DEFAULT_MEM = 512 * 1024 * 1024"
definition SESSION_TMPFS_BASE :: string where "SESSION_TMPFS_BASE = ''/tmp/securez-sessions''"
definition SESSION_CGROUP_BASE :: string where "SESSION_CGROUP_BASE = ''/sys/fs/cgroup/securez''"

definition mode_0755 :: nat where "mode_0755 = 7 * 64 + 5 * 8 + 5"
definition mode_0700 :: nat where "mode_0700 = 7 * 64"

datatype session_state =
    SESSION_STATE_INACTIVE | SESSION_STATE_STARTING | SESSION_STATE_ACTIVE
  | SESSION_STATE_STOPPING | SESSION_STATE_ERROR

record session_info =
  sid :: int
  sname :: string
  spid :: int
  sstate :: session_state
  start_time :: int
  memory_limit :: u64
  tmpfs_path :: string
  cgroup_path :: string
  has_network :: bool

definition session_zero :: session_info where
  "session_zero = \<lparr>sid = 0, sname = [], spid = 0, sstate = SESSION_STATE_INACTIVE, start_time = 0,
     memory_limit = 0, tmpfs_path = [], cgroup_path = [], has_network = False\<rparr>"

datatype syscall =
    SysMkdir path nat
  | SysRmdir path
  | SysWriteFile path string
  | SysClone "32 word"
  | SysKill int nat
  | SysUsleep nat
  | SysWaitpid int
  | SysUmount path
  | SysSethostname string
  | SysMountProc
  | SysMountTmpfs path
  | SysExecve path "string list" "string list"
  | SysExit int

record sess_state =
  sessions :: "session_info list"
  session_count :: nat
  next_session_id :: int
  session_initialized :: bool
  klog :: "syscall list"

definition sess_start :: sess_state where
  "sess_start = \<lparr>sessions = replicate SESSION_MAX_ACTIVE session_zero, session_count = 0,
     next_session_id = 1, session_initialized = False, klog = []\<rparr>"

definition log_sys :: "syscall list \<Rightarrow> sess_state \<Rightarrow> sess_state" where
  "log_sys cs st = st\<lparr>klog := klog st @ cs\<rparr>"

section \<open>Internal helpers\<close>

definition find_session :: "int \<Rightarrow> sess_state \<Rightarrow> nat option" where
  "find_session session_id st =
     scan_slots (\<lambda>s. sid s = session_id) 0 (session_count st) (sessions st)"

text \<open>
  \<open>mkdir_ok\<close>: the second \<open>mkdir\<close> succeeded or failed with \<open>EEXIST\<close>; \<open>limit_ok\<close>: the limit
  file could be opened. Returns the session with its cgroup path and the calls made.
\<close>

definition setup_cgroup :: "bool \<Rightarrow> bool \<Rightarrow> session_info \<Rightarrow> session_info \<times> syscall list" where
  "setup_cgroup mkdir_ok limit_ok s =
     (let cg = snprintf_buf 256 (SESSION_CGROUP_BASE @ ''/session-'' @ fmt_d (sid s));
          s' = s\<lparr>cgroup_path := cg\<rparr>;
          mk = [SysMkdir SESSION_CGROUP_BASE mode_0755, SysMkdir cg mode_0755]
      in if \<not> mkdir_ok then (s', mk)
         else (s', mk @ (if limit_ok
                then [SysWriteFile (snprintf_buf 512 (cg @ ''/memory.max'')) (fmt_nat (unat (memory_limit s)))]
                else [])))"

definition cleanup_cgroup :: "session_info \<Rightarrow> syscall list" where
  "cleanup_cgroup s = (if cgroup_path s \<noteq> [] then [SysRmdir (cgroup_path s)] else [])"

text \<open>
  The child of \<open>clone\<close>: the calls it makes inside its namespaces, up to the \<open>execve\<close> that
  succeeds or its \<open>_exit(1)\<close>. \<open>procs_ok\<close> is the outcome of opening \<open>cgroup.procs\<close>, \<open>self\<close> the
  child's \<open>getpid()\<close>, the last two booleans the outcomes of the two \<open>execve\<close> calls.
\<close>

definition shell_envp :: "string list" where
  "shell_envp = [''HOME=/tmp'', ''TERM=xterm-256color'', ''SECUREZ_SESSION=1'',
     ''PATH=/usr/local/sbin:/usr/local/bin:/usr/sbin:/usr/bin:/sbin:/bin'']"

definition session_child :: "bool \<Rightarrow> int \<Rightarrow> bool \<Rightarrow> bool \<Rightarrow> session_info \<Rightarrow> syscall list" where
  "session_child procs_ok self exec_szshell_ok exec_bash_ok s =
     [SysSethostname ''securez-session'', SysMountProc,
      SysMkdir (tmpfs_path s) mode_0700, SysMountTmpfs (tmpfs_path s)] @
     (if procs_ok
      then [SysWriteFile (snprintf_buf 512 (cgroup_path s @ ''/cgroup.procs'')) (fmt_d self)]
      else []) @
     [SysExecve ''/usr/bin/szshell'' [''/usr/bin/szshell''] shell_envp] @
     (if exec_szshell_ok then []
      else [SysExecve ''/bin/bash'' [''/bin/bash''] shell_envp] @
           (if exec_bash_ok then [] else [SysExit 1]))"

section \<open>Public API\<close>

definition session_init :: "sess_state \<Rightarrow> unit res \<times> sess_state" where
  "session_init st =
     (if session_initialized st then (Inr (), st)
      else (Inr (), log_sys [SysMkdir SESSION_TMPFS_BASE mode_0700, SysMkdir SESSION_CGROUP_BASE mode_0755]
        (st\<lparr>sessions := replicate SESSION_MAX_ACTIVE session_zero, session_count := 0,
            next_session_id := 1, session_initialized := True\<rparr>)))"

definition CLONE_NEWNS :: "32 word" where "CLONE_NEWNS = 0x00020000"
definition CLONE_NEWPID :: "32 word" where "CLONE_NEWPID = 0x20000000"
definition CLONE_NEWUTS :: "32 word" where "CLONE_NEWUTS = 0x04000000"
definition CLONE_NEWNET :: "32 word" where "CLONE_NEWNET = 0x40000000"
definition SIGCHLD :: "32 word" where "SIGCHLD = 17"

record create_env =
  ce_time :: int
  ce_mkdir_ok :: bool
  ce_limit_ok :: bool
  ce_stack_ok :: bool
  ce_clone :: int

definition new_session :: "create_env \<Rightarrow> string option \<Rightarrow> u64 \<Rightarrow> bool \<Rightarrow> int \<Rightarrow> session_info" where
  "new_session e name mem_limit allow_network i =
     (let nm = (case name of
                  Some n \<Rightarrow> strncpy_buf SESSION_NAME_MAX n
                | None \<Rightarrow> snprintf_buf SESSION_NAME_MAX (''session-'' @ fmt_d i))
      in session_zero\<lparr>sid := i, sstate := SESSION_STATE_STARTING,
           memory_limit := (if mem_limit > 0 then mem_limit else SESSION_DEFAULT_MEM),
           has_network := allow_network, start_time := ce_time e, sname := nm,
           tmpfs_path := snprintf_buf 256 (SESSION_TMPFS_BASE @ ''/'' @ nm)\<rparr>)"

definition clone_flags :: "bool \<Rightarrow> 32 word" where
  "clone_flags allow_network =
     (let fl = CLONE_NEWNS OR CLONE_NEWPID OR CLONE_NEWUTS OR SIGCHLD
      in if \<not> allow_network then fl OR CLONE_NEWNET else fl)"

text \<open>\<open>next_session_id++\<close> on the largest \<open>int\<close> is undefined.\<close>

definition session_create ::
  "create_env \<Rightarrow> string option \<Rightarrow> u64 \<Rightarrow> bool \<Rightarrow> sess_state \<Rightarrow> int res \<times> sess_state" where
  "session_create e name mem_limit allow_network st =
     (if \<not> session_initialized st then (Inl EInval, st)
      else if session_count st \<ge> SESSION_MAX_ACTIVE then (Inl EFull, st)
      else if next_session_id st \<ge> 2 ^ 31 - 1 then (Inl EUndefined, st)
      else
        let idx = session_count st;
            i = next_session_id st;
            (s, cg_calls) = setup_cgroup (ce_mkdir_ok e) (ce_limit_ok e)
                              (new_session e name mem_limit allow_network i);
            st1 = log_sys cg_calls (st\<lparr>next_session_id := i + 1, sessions := (sessions st)[idx := s]\<rparr>)
        in if \<not> ce_stack_ok e then (Inl ENoMem, log_sys (cleanup_cgroup s) st1)
           else
             let st2 = log_sys [SysClone (clone_flags allow_network)] st1
             in if ce_clone e < 0 then (Inl ESys, log_sys (cleanup_cgroup s) st2)
                else (Inr i,
                      st2\<lparr>sessions := (sessions st2)[idx :=
                            s\<lparr>spid := ce_clone e, sstate := SESSION_STATE_ACTIVE\<rparr>],
                          session_count := Suc idx\<rparr>))"

definition destroy_calls :: "session_info \<Rightarrow> syscall list" where
  "destroy_calls s =
     (if spid s > 0 then [SysKill (spid s) 15, SysUsleep 100000, SysKill (spid s) 9, SysWaitpid (spid s)]
      else []) @
     (if tmpfs_path s \<noteq> [] then [SysUmount (tmpfs_path s), SysRmdir (tmpfs_path s)] else []) @
     cleanup_cgroup s"

definition session_destroy :: "int \<Rightarrow> sess_state \<Rightarrow> unit res \<times> sess_state" where
  "session_destroy session_id st =
     (case find_session session_id st of
        None \<Rightarrow> (Inl ENotFound, st)
      | Some idx \<Rightarrow>
          let s = sessions st ! idx;
              arr = (sessions st)[idx := s\<lparr>sstate := SESSION_STATE_STOPPING\<rparr>]
          in (Inr (), log_sys (destroy_calls s)
                (st\<lparr>sessions := memmove_down idx (session_count st) arr,
                    session_count := session_count st - 1\<rparr>)))"

definition session_get_info :: "int \<Rightarrow> sess_state \<Rightarrow> session_info res" where
  "session_get_info session_id st =
     (case find_session session_id st of
        None \<Rightarrow> Inl ENotFound
      | Some idx \<Rightarrow> Inr (sessions st ! idx))"

definition session_list :: "sess_state \<Rightarrow> session_info list \<times> nat" where
  "session_list st = (take (session_count st) (sessions st), session_count st)"

definition session_destroy_all :: "sess_state \<Rightarrow> sess_state" where
  "session_destroy_all st =
     fold (\<lambda>i st. snd (session_destroy i st)) (map sid (take (session_count st) (sessions st))) st"

definition session_shutdown :: "sess_state \<Rightarrow> sess_state" where
  "session_shutdown st =
     (if \<not> session_initialized st then st
      else (session_destroy_all st)\<lparr>session_initialized := False\<rparr>)"

text \<open>
  \<open>session_exec\<close> ignores the session and forks: \<open>fork_result\<close> is the child's pid or negative.
\<close>

definition session_exec :: "int \<Rightarrow> int \<Rightarrow> string list \<Rightarrow> int" where
  "session_exec fork_result session_id argv = fork_result"

fun getenv :: "string \<Rightarrow> string list \<Rightarrow> string option" where
  "getenv name [] = None"
| "getenv name (e # es) =
     (if is_prefix (name @ ''='') e then Some (drop (Suc (length name)) e) else getenv name es)"

definition session_is_active :: "string list \<Rightarrow> bool" where
  "session_is_active env =
     (case getenv ''SECUREZ_SESSION'' env of None \<Rightarrow> False | Some v \<Rightarrow> v = ''1'')"

section \<open>The table as a list\<close>

definition active :: "sess_state \<Rightarrow> session_info list" where
  "active st = take (session_count st) (sessions st)"

definition sess_inv :: "sess_state \<Rightarrow> bool" where
  "sess_inv st \<longleftrightarrow>
     length (sessions st) = SESSION_MAX_ACTIVE \<and> session_count st \<le> SESSION_MAX_ACTIVE \<and>
     distinct (map sid (active st)) \<and>
     (\<forall>s \<in> set (active st). 1 \<le> sid s \<and> sid s < next_session_id st) \<and> 1 \<le> next_session_id st"

lemma active_simps [simp, table_simps]:
  "active (log_sys cs st) = active st"
  "active (st\<lparr>session_initialized := b\<rparr>) = active st"
  "active (st\<lparr>next_session_id := i\<rparr>) = active st"
  by (simp_all add: active_def log_sys_def)

lemma find_session_eq: "sess_inv st \<Longrightarrow> find_session k st = find_key sid k (active st)"
  by (simp add: find_session_def sess_inv_def scan_slots_find_key active_def)

lemma destroy_active:
  assumes "sess_inv st"
  shows "active (snd (session_destroy k st)) = remove_key sid k (active st)"
proof (cases "find_session k st")
  case None
  then have "k \<notin> sid ` set (active st)"
    using assms by (simp add: find_session_eq find_key_None)
  then show ?thesis
    using None by (simp add: session_destroy_def remove_key_notin)
next
  case (Some idx)
  then have f: "find_key sid k (active st) = Some idx" using assms by (simp add: find_session_eq)
  then have idx: "idx < session_count st" "session_count st \<le> length (sessions st)"
    using assms find_key_Some [OF f] by (auto simp: active_def sess_inv_def)
  have "take (session_count st - 1) (memmove_down idx (session_count st) ((sessions st)[idx := s])) =
      remove_key sid k (active st)" for s
    using idx unfolding find_key_remove [OF f] unfolding active_def
    by (subst take_memmove_down) (simp_all add: take_update_swap list_update_beyond)
  then show ?thesis
    using Some by (simp add: session_destroy_def Let_def active_def log_sys_def)
qed

lemma destroy_inv:
  assumes "sess_inv st"
  shows "sess_inv (snd (session_destroy k st))"
proof -
  have "session_count st \<le> 16" "length (sessions st) = 16"
    using assms by (simp_all add: sess_inv_def)
  moreover have "find_session k st = Some idx \<Longrightarrow> idx < session_count st" for idx
    using find_key_Some [of sid k "active st" idx] assms
    by (auto simp: find_session_eq active_def)
  ultimately have "length (sessions (snd (session_destroy k st))) = 16"
    "session_count (snd (session_destroy k st)) \<le> 16"
    "next_session_id (snd (session_destroy k st)) = next_session_id st"
    by (auto simp: session_destroy_def Let_def log_sys_def split: option.splits)
  then show ?thesis
    using assms remove_key_subset [of sid k "active st"]
    by (auto simp: sess_inv_def destroy_active distinct_remove_key)
qed

interpretation st: slot_table active sid "\<lambda>k st. snd (session_destroy k st)" sess_inv
  by unfold_locales (simp_all add: destroy_active destroy_inv)

section \<open>Reachable tables\<close>

text \<open>The two ways \<open>session_create\<close> can end, in terms of the active list.\<close>

lemma create_cases:
  assumes "sess_inv st" "session_create e name mem net st = (r, st')"
  obtains (failed) err where "r = Inl err" "active st' = active st"
      "next_session_id st \<le> next_session_id st'"
      "sessions st' = sessions st \<or> (\<exists>s. sessions st' = (sessions st)[session_count st := s])"
      "session_count st' = session_count st"
  | (created) s where "r = Inr (next_session_id st)" "active st' = active st @ [s]"
      "s = (fst (setup_cgroup (ce_mkdir_ok e) (ce_limit_ok e)
              (new_session e name mem net (next_session_id st))))
             \<lparr>spid := ce_clone e, sstate := SESSION_STATE_ACTIVE\<rparr>"
      "next_session_id st' = next_session_id st + 1"
      "length (sessions st') = length (sessions st)"
      "session_count st' = Suc (session_count st)" "session_count st < SESSION_MAX_ACTIVE"
proof -
  define idx where "idx = session_count st"
  have len: "length (sessions st) = 16" "idx \<le> 16" using assms(1) by (auto simp: sess_inv_def idx_def)
  obtain s cs where cg: "setup_cgroup (ce_mkdir_ok e) (ce_limit_ok e)
      (new_session e name mem net (next_session_id st)) = (s, cs)" by fastforce
  have same: "take idx ((sessions st)[idx := x]) = take idx (sessions st)" for x by simp
  have more: "take (Suc idx) ((sessions st)[idx := y]) = take idx (sessions st) @ [y]"
    if "idx < 16" for y
    using that len by (simp add: take_Suc_conv_app_nth)
  consider (uninit) "\<not> session_initialized st" | (full) "session_initialized st" "16 \<le> idx"
    | (overflow) "session_initialized st" "idx < 16" "2 ^ 31 - 1 \<le> next_session_id st"
    | (go) "session_initialized st" "idx < 16" "\<not> 2 ^ 31 - 1 \<le> next_session_id st" by linarith
  then show thesis
  proof cases
    case uninit
    then show thesis using assms(2) by (intro failed) (auto simp: session_create_def)
  next
    case full
    then show thesis using assms(2) by (intro failed) (auto simp: session_create_def idx_def)
  next
    case overflow
    then show thesis using assms(2) by (intro failed) (auto simp: session_create_def idx_def)
  next
    case go
    then show thesis
    proof (cases "ce_stack_ok e \<and> \<not> ce_clone e < 0")
      case True
      with go assms(2) show thesis
        by (intro created) (auto simp: session_create_def cg Let_def idx_def [symmetric] log_sys_def
            active_def more)
    next
      case False
      with go assms(2) have "\<exists>err. r = Inl err"
        by (auto simp: session_create_def cg Let_def idx_def [symmetric] split: if_splits)
      then obtain err where "r = Inl err" by blast
      with False go assms(2) show thesis
        by (intro failed [of err]) (auto simp: session_create_def cg Let_def idx_def [symmetric] log_sys_def
            active_def same split: if_splits)
    qed
  qed
qed

lemma new_session_sid [simp]: "sid (new_session e name mem net i) = i"
  by (simp add: new_session_def Let_def)

lemma created_sid [simp]:
  "sid (fst (setup_cgroup a b (new_session e name mem net i))) = i"
  by (simp add: setup_cgroup_def Let_def)

lemma create_inv:
  assumes "sess_inv st"
  shows "sess_inv (snd (session_create e name mem net st))"
proof -
  obtain r st' where c: "session_create e name mem net st = (r, st')" by fastforce
  from assms c show ?thesis
  proof (cases rule: create_cases)
    case failed
    then show ?thesis using assms c by (auto simp: sess_inv_def)
  next
    case (created s)
    then show ?thesis using assms c by (fastforce simp: sess_inv_def)
  qed
qed

lemma sess_inv_start: "sess_inv sess_start"
  by (simp add: sess_inv_def sess_start_def active_def)

lemma init_inv: "sess_inv st \<Longrightarrow> sess_inv (snd (session_init st))"
  by (auto simp: session_init_def sess_inv_def active_def log_sys_def)

lemma destroy_all_inv_empty:
  "sess_inv st \<Longrightarrow> sess_inv (session_destroy_all st) \<and> active (session_destroy_all st) = []"
  unfolding session_destroy_all_def active_def [symmetric] by (rule st.remove_snapshot) simp_all

lemma shutdown_inv: "sess_inv st \<Longrightarrow> sess_inv (session_shutdown st)"
  using destroy_all_inv_empty [of st]
  by (auto simp: session_shutdown_def sess_inv_def active_def)

inductive sess_step :: "sess_state \<Rightarrow> sess_state \<Rightarrow> bool" where
  sess_init: "sess_step st (snd (session_init st))"
| sess_create: "sess_step st (snd (session_create e name mem net st))"
| sess_destroy: "sess_step st (snd (session_destroy k st))"
| sess_destroy_all: "sess_step st (session_destroy_all st)"
| sess_shutdown: "sess_step st (session_shutdown st)"

inductive sess_reachable :: "sess_state \<Rightarrow> bool" where
  reach_start: "sess_reachable sess_start"
| reach_step: "sess_reachable st \<Longrightarrow> sess_step st st' \<Longrightarrow> sess_reachable st'"

lemma reachable_sess_inv: "sess_reachable st \<Longrightarrow> sess_inv st"
proof (induction rule: sess_reachable.induct)
  case reach_start
  show ?case by (rule sess_inv_start)
next
  case (reach_step st st')
  from reach_step(2,3) show ?case
    by (cases rule: sess_step.cases)
      (simp_all add: init_inv create_inv destroy_inv destroy_all_inv_empty shutdown_inv)
qed

lemma created_name:
  "length (sname (fst (setup_cgroup a b (new_session e name mem net i)))) < SESSION_NAME_MAX"
  by (auto simp: setup_cgroup_def new_session_def Let_def bounded_copy_length split: option.splits)

lemma reachable_names: "sess_reachable st \<Longrightarrow> \<forall>s \<in> set (active st). length (sname s) < SESSION_NAME_MAX"
proof (induction rule: sess_reachable.induct)
  case reach_start
  show ?case by (simp add: sess_start_def active_def)
next
  case (reach_step st st')
  have inv: "sess_inv st" by (rule reachable_sess_inv [OF reach_step(1)])
  from reach_step(2) show ?case
  proof (cases rule: sess_step.cases)
    case sess_init
    then show ?thesis using reach_step(3) by (auto simp: session_init_def active_def log_sys_def)
  next
    case (sess_create e name mem net)
    obtain r s' where c: "session_create e name mem net st = (r, s')" by (rule prod.exhaust)
    from inv c show ?thesis
      by (cases rule: create_cases) (use reach_step(3) sess_create c created_name in auto)
  next
    case (sess_destroy k)
    then show ?thesis using reach_step(3) destroy_active [OF inv, of k] remove_key_subset by fastforce
  next
    case sess_destroy_all
    then show ?thesis using destroy_all_inv_empty [OF inv] by simp
  next
    case sess_shutdown
    then show ?thesis
      using reach_step(3) destroy_all_inv_empty [OF inv] by (auto simp: session_shutdown_def active_def)
  qed
qed

text \<open>
  In every reachable state of the session subsystem at most \<open>SESSION_MAX_ACTIVE\<close>
  sessions are active, no two of them have the same identifier, and every identifier is
  positive and below the next one to be issued (so an identifier is never reissued between
  initialisations).
\<close>

theorem session_ids_unique:
  assumes "sess_reachable st"
  shows "session_count st \<le> SESSION_MAX_ACTIVE \<and> length (fst (session_list st)) = session_count st \<and>
    distinct (map sid (fst (session_list st))) \<and>
    (\<forall>s. s \<in> set (fst (session_list st)) \<longrightarrow> 0 < sid s \<and> sid s < next_session_id st)"
  using reachable_sess_inv [OF assms]
  by (fastforce simp: sess_inv_def session_list_def active_def)

definition create_ok :: create_env where
  "create_ok = \<lparr>ce_time = 1700000000, ce_mkdir_ok = True, ce_limit_ok = True, ce_stack_ok = True,
     ce_clone = 4242\<rparr>"

definition one_session :: sess_state where
  "one_session = snd (session_create create_ok (Some ''work'') 0 False (snd (session_init sess_start)))"

lemma one_session_reachable: "sess_reachable one_session"
  unfolding one_session_def
  by (rule reach_step [OF reach_step [OF reach_start sess_init] sess_create])

lemma create_succeeds:
  assumes "session_initialized st" "session_count st < SESSION_MAX_ACTIVE" "next_session_id st < 2 ^ 31 - 1"
    "ce_stack_ok e" "0 \<le> ce_clone e"
  shows "fst (session_create e name mem net st) = Inr (next_session_id st)"
  using assms by (simp add: session_create_def Let_def split: prod.splits)

lemma create_initialized:
  "session_initialized (snd (session_create e name mem net st)) = session_initialized st"
  by (auto simp: session_create_def Let_def log_sys_def split: prod.splits)

lemma one_session_active:
  obtains s where "fst (session_list one_session) = [s]" "sid s = 1" "spid s = 4242"
    "session_count one_session = 1" "session_initialized one_session"
proof -
  define st where "st = snd (session_init sess_start)"
  have st: "session_initialized st" "session_count st = 0" "next_session_id st = 1" "active st = []"
    by (simp_all add: st_def session_init_def sess_start_def log_sys_def active_def)
  have inv: "sess_inv st" unfolding st_def by (rule init_inv [OF sess_inv_start])
  obtain r where r: "session_create create_ok (Some ''work'') 0 False st = (r, one_session)"
    by (metis one_session_def prod.collapse st_def)
  have "fst (session_create create_ok (Some ''work'') 0 False st) = Inr 1"
    using st by (subst create_succeeds) (simp_all add: create_ok_def)
  then have "r = Inr 1" using r by simp
  have init: "session_initialized one_session"
    using r st(1) create_initialized [of create_ok "Some ''work''" 0 False st] by simp
  from inv r show thesis
  proof (cases rule: create_cases)
    case failed
    then show thesis using \<open>r = Inr 1\<close> by simp
  next
    case (created s)
    then have "fst (session_list one_session) = [s]" "sid s = 1" "spid s = 4242"
      "session_count one_session = 1"
      using st by (simp_all add: session_list_def active_def create_ok_def)
    then show thesis using init by (rule that)
  qed
qed

theorem session_ids_unique_witness:
  "\<exists>s. fst (session_list one_session) = [s] \<and> 0 < sid s \<and> sid s < next_session_id one_session"
  using session_ids_unique [OF one_session_reachable] one_session_active by (metis list.set_intros(1))

section \<open>The table as a finite map\<close>

lemma get_info_find:
  assumes "sess_inv st"
  shows "session_get_info k st =
    (case find (\<lambda>s. sid s = k) (active st) of None \<Rightarrow> Inl ENotFound | Some s \<Rightarrow> Inr s)"
proof (cases "find_key sid k (active st)")
  case None
  then show ?thesis using assms by (simp add: session_get_info_def find_session_eq find_key_find)
next
  case (Some i)
  then have "i < session_count st" using find_key_Some [OF Some] by (simp add: active_def)
  then show ?thesis
    using Some assms by (simp add: session_get_info_def find_session_eq find_key_find active_def)
qed

text \<open>
  Destroying a session removes exactly that session from what \<open>session_get_info\<close>
  finds: its identifier is unknown afterwards, every other one is looked up as before.
\<close>

theorem session_destroy_lookup:
  assumes "sess_reachable st"
  shows "session_get_info k' (snd (session_destroy k st)) =
         (if k' = k then Inl ENotFound else session_get_info k' st)"
proof -
  have inv: "sess_inv st" by (rule reachable_sess_inv [OF assms])
  then have "distinct (map sid (active st))" by (simp add: sess_inv_def)
  then show ?thesis
    using st.lookup_remove [OF inv, of k' k] inv destroy_inv [OF inv, of k]
    by (simp add: get_info_find)
qed

theorem session_destroy_lookup_witness:
  "session_get_info 1 one_session \<noteq> Inl ENotFound \<and>
   session_get_info 1 (snd (session_destroy 1 one_session)) = Inl ENotFound"
proof -
  obtain s where "fst (session_list one_session) = [s]" "sid s = 1" by (rule one_session_active)
  then have "session_get_info 1 one_session \<noteq> Inl ENotFound"
    using get_info_find [OF reachable_sess_inv [OF one_session_reachable], of 1]
    by (simp add: session_list_def active_def)
  then show ?thesis using session_destroy_lookup [OF one_session_reachable, of 1 1] by simp
qed

text \<open>
  A successful \<open>session_create\<close> returns an identifier that was not in use, under which
  \<open>session_get_info\<close> then finds an active session with the child's pid, the requested
  network setting, the requested memory limit (512 MB when it is 0) and the name cut to 63
  characters; every other session is looked up as before.
\<close>

theorem session_create_lookup:
  assumes "sess_reachable st" "session_create e (Some name) mem net st = (Inr i, st')"
  shows "session_get_info i st = Inl ENotFound \<and>
    (\<exists>s. session_get_info i st' = Inr s \<and> sid s = i \<and> sstate s = SESSION_STATE_ACTIVE \<and>
         spid s = ce_clone e \<and> has_network s = net \<and> sname s = take 63 name \<and>
         memory_limit s = (if mem = 0 then SESSION_DEFAULT_MEM else mem)) \<and>
    (\<forall>k. k \<noteq> i \<longrightarrow> session_get_info k st' = session_get_info k st)"
proof -
  have inv: "sess_inv st" by (rule reachable_sess_inv [OF assms(1)])
  have inv': "sess_inv st'" using create_inv [OF inv, of e "Some name" mem net] assms(2) by simp
  from inv assms(2) show ?thesis
  proof (cases rule: create_cases)
    case failed
    then show ?thesis by simp
  next
    case (created s)
    then have i: "i = next_session_id st" "sid s = i" by simp_all
    have s: "has_network s = net" "sname s = take 63 name"
      "memory_limit s = (if mem = 0 then SESSION_DEFAULT_MEM else mem)"
      using created(3)
      by (simp_all add: setup_cgroup_def new_session_def Let_def strncpy_buf_def word_gt_0)
    have "find (\<lambda>s. sid s = i) (active st) = None"
      using inv i by (auto simp: sess_inv_def find_None_iff)
    then show ?thesis
      using created s i inv inv' by (auto simp: get_info_find find_snoc split: option.splits)
  qed
qed

lemma one_session_next: "next_session_id one_session = 2"
  by (simp add: one_session_def session_create_def session_init_def sess_start_def log_sys_def
      create_ok_def Let_def split: prod.splits)

theorem session_create_lookup_witness:
  "\<exists>i st'. session_create create_ok (Some ''mail'') 1048576 True one_session = (Inr i, st') \<and>
     session_get_info i one_session = Inl ENotFound \<and> (\<exists>s. session_get_info i st' = Inr s)"
proof -
  obtain s where "session_count one_session = 1" "session_initialized one_session"
    by (rule one_session_active)
  then have "fst (session_create create_ok (Some ''mail'') 1048576 True one_session) =
      Inr (next_session_id one_session)"
    by (intro create_succeeds) (simp_all add: create_ok_def one_session_next)
  then obtain i st' where c: "session_create create_ok (Some ''mail'') 1048576 True one_session = (Inr i, st')"
    by (metis prod.collapse)
  then show ?thesis using session_create_lookup [OF one_session_reachable c] by blast
qed

section \<open>Tearing sessions down\<close>

lemma destroy_head:
  assumes "sess_inv st" "active st = s # ss"
  shows "klog (snd (session_destroy (sid s) st)) = klog st @ destroy_calls s"
proof -
  have "0 < session_count st" using assms(2) by (cases "session_count st") (auto simp: active_def)
  then have "sessions st ! 0 = s"
    using assms(2) by (metis active_def nth_Cons_0 nth_take)
  moreover have "find_session (sid s) st = Some 0"
    using assms by (simp add: find_session_eq)
  ultimately show ?thesis
    by (simp add: session_destroy_def Let_def log_sys_def)
qed

lemma destroy_snapshot_log:
  assumes "sess_inv st" "active st = ss"
  shows "klog (fold (\<lambda>i st. snd (session_destroy i st)) (map sid ss) st) =
         klog st @ concat (map destroy_calls ss)"
  using assms
proof (induction ss arbitrary: st)
  case Nil
  then show ?case by simp
next
  case (Cons s ss)
  let ?st = "snd (session_destroy (sid s) st)"
  have "sess_inv ?st" "active ?st = ss"
    using Cons.prems by (simp_all add: destroy_inv destroy_active)
  from Cons.IH [OF this] show ?case
    using destroy_head [OF Cons.prems] by simp
qed

text \<open>
  \<open>session_destroy_all\<close> leaves no session, and tears every session down in table order,
  each with SIGTERM, the grace period, SIGKILL, the reaping, the unmount of its RAM disk and
  the removal of its cgroup, in this order and with nothing in between.
\<close>

theorem session_destroy_all_tears_down:
  assumes "sess_reachable st"
  shows "session_list (session_destroy_all st) = ([], 0) \<and>
         klog (session_destroy_all st) = klog st @ concat (map destroy_calls (fst (session_list st)))"
proof -
  have inv: "sess_inv st" by (rule reachable_sess_inv [OF assms])
  then have "active (session_destroy_all st) = []" "sess_inv (session_destroy_all st)"
    using destroy_all_inv_empty by blast+
  then have "session_list (session_destroy_all st) = ([], 0)"
    by (auto simp: session_list_def active_def sess_inv_def)
  moreover have "klog (session_destroy_all st) = klog st @ concat (map destroy_calls (active st))"
    using destroy_snapshot_log [OF inv refl]
    by (simp add: session_destroy_all_def active_def)
  ultimately show ?thesis by (simp add: session_list_def active_def)
qed

theorem session_destroy_all_tears_down_witness:
  "session_list (session_destroy_all one_session) = ([], 0) \<and>
   SysKill 4242 9 \<in> set (klog (session_destroy_all one_session))"
proof -
  obtain s where "fst (session_list one_session) = [s]" "spid s = 4242" by (rule one_session_active)
  then show ?thesis
    using session_destroy_all_tears_down [OF one_session_reachable] by (simp add: destroy_calls_def)
qed

section \<open>Isolation\<close>

text \<open>
  The \<open>clone\<close> of a session always asks for new mount, PID and UTS namespaces, and for a
  new network namespace exactly when the caller does not allow network access.
\<close>

theorem clone_flags_isolate:
  "clone_flags net AND CLONE_NEWNS = CLONE_NEWNS \<and> clone_flags net AND CLONE_NEWPID = CLONE_NEWPID \<and>
   clone_flags net AND CLONE_NEWUTS = CLONE_NEWUTS \<and>
   (clone_flags net AND CLONE_NEWNET = CLONE_NEWNET \<longleftrightarrow> \<not> net)"
  by (cases net)
    (simp_all add: clone_flags_def CLONE_NEWNS_def CLONE_NEWPID_def CLONE_NEWUTS_def
      CLONE_NEWNET_def SIGCHLD_def)

text \<open>
  The shell a session runs, whichever of the two is found, recognises that it is inside a
  session.
\<close>

lemma session_child_environment:
  "SysExecve prog argv env \<in> set (session_child a self b c s) \<Longrightarrow> session_is_active env"
  by (auto simp: session_child_def shell_envp_def session_is_active_def split: if_splits)

end
