(* ===== verification/Refinement.thy ===== *)
theory Refinement
  imports SZ_Prelude
begin

text \<open>
  Refinement of an abstract machine by the operations of a component: \<open>run_ops\<close> runs a list of
  operations on a concrete state and collects the answers, \<open>op_trace\<close> says which answers the
  abstract machine may give to such a list. The interface \<open>refinement\<close> has the simulation law of
  a single operation; its lemma carries it to every list of operations.
\<close>

fun run_ops :: "('o \<Rightarrow> 's \<Rightarrow> 'a \<times> 's) \<Rightarrow> 'o list \<Rightarrow> 's \<Rightarrow> 'a list \<times> 's" where
  "run_ops f [] s = ([], s)"
| "run_ops f (x # xs) s =
     (case f x s of (a, s1) \<Rightarrow> (case run_ops f xs s1 of (as, s2) \<Rightarrow> (a # as, s2)))"

inductive op_trace :: "('p \<Rightarrow> 'o \<Rightarrow> 'a \<Rightarrow> 'p \<Rightarrow> bool) \<Rightarrow> 'p \<Rightarrow> 'o list \<Rightarrow> 'a list \<Rightarrow> 'p \<Rightarrow> bool"
  for step where
  trace_end: "op_trace step p [] [] p"
| trace_step: "step p x a p1 \<Longrightarrow> op_trace step p1 xs as p2 \<Longrightarrow> op_trace step p (x # xs) (a # as) p2"

inductive_simps op_trace_simps [simp]:
  "op_trace step p [] as p'" "op_trace step p (x # xs) as p'"

locale refinement =
  fixes f :: "'o \<Rightarrow> 's \<Rightarrow> 'a \<times> 's" and step :: "'p \<Rightarrow> 'o \<Rightarrow> 'a \<Rightarrow> 'p \<Rightarrow> bool"
    and rel :: "'s \<Rightarrow> 'p \<Rightarrow> bool" and ok :: "'o \<Rightarrow> bool"
  assumes simulates: "rel s p \<Longrightarrow> ok x \<Longrightarrow> f x s = (a, s') \<Longrightarrow> \<exists>p'. step p x a p' \<and> rel s' p'"
begin

lemma runs_refine:
  "rel s p \<Longrightarrow> \<forall>x \<in> set xs. ok x \<Longrightarrow> run_ops f xs s = (as, s') \<Longrightarrow>
     \<exists>p'. op_trace step p xs as p' \<and> rel s' p'"
proof (induction xs arbitrary: s p as s')
  case (Cons x xs)
  obtain a s1 where x: "f x s = (a, s1)" by (rule prod.exhaust)
  obtain bs s2 where xs: "run_ops f xs s1 = (bs, s2)" by (rule prod.exhaust)
  obtain p1 where p1: "step p x a p1" "rel s1 p1"
    using simulates [OF Cons.prems(1) _ x] Cons.prems(2) by auto
  then obtain p' where "op_trace step p1 xs bs p'" "rel s2 p'"
    using Cons.IH [OF p1(2) _ xs] Cons.prems(2) by auto
  then show ?case using Cons.prems(3) x xs p1(1) by auto
qed auto

end

end
