(* ===== verification/Session_Spec.thy ===== *)
theory Session_Spec
  imports Secure_Session Refinement
begin

text \<open>
  What the session manager of \<open>crypticengine/src/secure_session.c\<close> promises, without its array: the
  sessions in the order of their creation, the next number, and whether the manager is on.
  \<open>sess_do\<close> has the operations of the file as one function, \<open>spec_step\<close> says for each operation
  what may be answered and what it does to the sessions; the refinement theorem is about every
  sequence of operations.
\<close>

section \<open>Operations and answers\<close>

datatype sess_op =
    OpInit
  | OpCreate create_env "string option" u64 bool
  | OpDestroy int
  | OpDestroyAll
  | OpShutdown
  | OpInfo int
  | OpList

datatype sess_answer =
    SaDone "unit res"
  | SaId "int res"
  | SaInfo "session_info res"
  | SaList "session_info list"

fun sess_do :: "sess_op \<Rightarrow> sess_state \<Rightarrow> sess_answer \<times> sess_state" where
  "sess_do OpInit st = (case session_init st of (r, st') \<Rightarrow> (SaDone r, st'))"
| "sess_do (OpCreate e name mem net) st = (case session_create e name mem net st of (r, st') \<Rightarrow> (SaId r, st'))"
| "sess_do (OpDestroy k) st = (case session_destroy k st of (r, st') \<Rightarrow> (SaDone r, st'))"
| "sess_do OpDestroyAll st = (SaDone (Inr ()), session_destroy_all st)"
| "sess_do OpShutdown st = (SaDone (Inr ()), session_shutdown st)"
| "sess_do (OpInfo k) st = (SaInfo (session_get_info k st), st)"
| "sess_do OpList st = (SaList (fst (session_list st)), st)"

section \<open>The abstract machine\<close>

record sess_spec =
  sp_sessions :: "session_info list"
  sp_next :: int
  sp_on :: bool

text \<open>The session a creation makes: its number, process, name, limit and network.\<close>

definition made_by :: "create_env \<Rightarrow> string option \<Rightarrow> u64 \<Rightarrow> bool \<Rightarrow> int \<Rightarrow> session_info \<Rightarrow> bool" where
  "made_by e name mem net i s \<longleftrightarrow>
     sid s = i \<and> spid s = ce_clone e \<and> sstate s = SESSION_STATE_ACTIVE \<and> has_network s = net \<and>
     memory_limit s = (if mem = 0 then SESSION_DEFAULT_MEM else mem) \<and>
     sname s = take 63 (case name of Some n \<Rightarrow> n | None \<Rightarrow> ''session-'' @ fmt_d i)"

text \<open>
  The rules leave nothing open but the paths of a new session. A creation that fails after the
  number was taken uses it up; the numbers end with the largest \<open>int\<close>.
\<close>

inductive spec_step :: "sess_spec \<Rightarrow> sess_op \<Rightarrow> sess_answer \<Rightarrow> sess_spec \<Rightarrow> bool" where
  spec_init: "\<not> sp_on p \<Longrightarrow> spec_step p OpInit (SaDone (Inr ())) \<lparr>sp_sessions = [], sp_next = 1, sp_on = True\<rparr>"
| spec_init_again: "sp_on p \<Longrightarrow> spec_step p OpInit (SaDone (Inr ())) p"
| spec_create: "sp_on p \<Longrightarrow> length (sp_sessions p) < SESSION_MAX_ACTIVE \<Longrightarrow> sp_next p < 2 ^ 31 - 1 \<Longrightarrow>
     ce_stack_ok e \<Longrightarrow> 0 \<le> ce_clone e \<Longrightarrow> made_by e name mem net (sp_next p) s \<Longrightarrow>
     spec_step p (OpCreate e name mem net) (SaId (Inr (sp_next p)))
       (p\<lparr>sp_sessions := sp_sessions p @ [s], sp_next := sp_next p + 1\<rparr>)"
| spec_create_failed: "sp_on p \<Longrightarrow> length (sp_sessions p) < SESSION_MAX_ACTIVE \<Longrightarrow> sp_next p < 2 ^ 31 - 1 \<Longrightarrow>
     \<not> (ce_stack_ok e \<and> 0 \<le> ce_clone e) \<Longrightarrow>
     spec_step p (OpCreate e name mem net) (SaId (Inl (if ce_stack_ok e then ESys else ENoMem)))
       (p\<lparr>sp_next := sp_next p + 1\<rparr>)"
| spec_create_refused: "err = (if \<not> sp_on p then EInval else if length (sp_sessions p) \<ge> SESSION_MAX_ACTIVE then EFull else EUndefined) \<Longrightarrow>
     \<not> (sp_on p \<and> length (sp_sessions p) < SESSION_MAX_ACTIVE \<and> sp_next p < 2 ^ 31 - 1) \<Longrightarrow>
     spec_step p (OpCreate e name mem net) (SaId (Inl err)) p"
| spec_destroy: "k \<in> sid ` set (sp_sessions p) \<Longrightarrow>
     spec_step p (OpDestroy k) (SaDone (Inr ())) (p\<lparr>sp_sessions := filter (\<lambda>s. sid s \<noteq> k) (sp_sessions p)\<rparr>)"
| spec_destroy_none: "k \<notin> sid ` set (sp_sessions p) \<Longrightarrow> spec_step p (OpDestroy k) (SaDone (Inl ENotFound)) p"
| spec_destroy_all: "spec_step p OpDestroyAll (SaDone (Inr ())) (p\<lparr>sp_sessions := []\<rparr>)"
| spec_shutdown: "sp_on p \<Longrightarrow> spec_step p OpShutdown (SaDone (Inr ())) (p\<lparr>sp_sessions := [], sp_on := False\<rparr>)"
| spec_shutdown_off: "\<not> sp_on p \<Longrightarrow> spec_step p OpShutdown (SaDone (Inr ())) p"
| spec_info: "s \<in> set (sp_sessions p) \<Longrightarrow> spec_step p (OpInfo (sid s)) (SaInfo (Inr s)) p"
| spec_info_none: "k \<notin> sid ` set (sp_sessions p) \<Longrightarrow> spec_step p (OpInfo k) (SaInfo (Inl ENotFound)) p"
| spec_list: "spec_step p OpList (SaList (sp_sessions p)) p"

definition sess_abs :: "sess_state \<Rightarrow> sess_spec" where
  "sess_abs st = \<lparr>sp_sessions = active st, sp_next = next_session_id st, sp_on = session_initialized st\<rparr>"

definition sess_rel :: "sess_state \<Rightarrow> sess_spec \<Rightarrow> bool" where
  "sess_rel st p \<longleftrightarrow> sess_inv st \<and> p = sess_abs st"

section \<open>Every operation is an abstract step\<close>

lemma remove_key_filter: "distinct (map key es) \<Longrightarrow> remove_key key k es = filter (\<lambda>e. key e \<noteq> k) es"
proof (induction es)
  case (Cons e es)
  then have "key e \<notin> key ` set es" by simp
  then have "\<forall>x \<in> set es. key x \<noteq> key e" by (metis image_eqI)
  then have "filter (\<lambda>x. key x \<noteq> key e) es = es" by (rule filter_id_conv [THEN iffD2])
  with Cons show ?case by auto
qed simp

lemma length_active: "sess_inv st \<Longrightarrow> length (active st) = session_count st"
  by (simp add: sess_inv_def active_def)

lemma destroy_frame [simp]:
  "session_initialized (snd (session_destroy k st)) = session_initialized st"
  "next_session_id (snd (session_destroy k st)) = next_session_id st"
  by (auto simp: session_destroy_def Let_def log_sys_def split: option.splits)

lemma destroy_all_frame:
  "session_initialized (session_destroy_all st) = session_initialized st"
  "next_session_id (session_destroy_all st) = next_session_id st"
proof -
  have "session_initialized (fold (\<lambda>i st. snd (session_destroy i st)) ks st) = session_initialized st \<and>
      next_session_id (fold (\<lambda>i st. snd (session_destroy i st)) ks st) = next_session_id st" for ks st
    by (induction ks arbitrary: st) simp_all
  then show "session_initialized (session_destroy_all st) = session_initialized st"
    "next_session_id (session_destroy_all st) = next_session_id st"
    by (simp_all add: session_destroy_all_def)
qed

lemma abs_destroy_all: "sess_inv st \<Longrightarrow> sess_abs (session_destroy_all st) = (sess_abs st)\<lparr>sp_sessions := []\<rparr>"
  using destroy_all_inv_empty [of st] by (simp add: sess_abs_def destroy_all_frame)

lemma step_create:
  assumes "sess_inv st"
  shows "spec_step (sess_abs st) (OpCreate e name mem net) (SaId (fst (session_create e name mem net st)))
    (sess_abs (snd (session_create e name mem net st)))"
proof (cases "session_initialized st \<and> session_count st < 16 \<and> next_session_id st < 2 ^ 31 - 1")
  case False
  then show ?thesis
    using length_active [OF assms] spec_create_refused [OF refl, of "sess_abs st" e name mem net]
    by (auto simp: session_create_def sess_abs_def)
next
  case go: True
  then have p: "sp_on (sess_abs st)" "length (sp_sessions (sess_abs st)) < 16" "sp_next (sess_abs st) < 2 ^ 31 - 1"
    using length_active [OF assms] by (simp_all add: sess_abs_def)
  obtain r st' where c: "session_create e name mem net st = (r, st')" by fastforce
  have on: "session_initialized st'" using create_initialized [of e name mem net st] c go by simp
  from assms c show ?thesis
  proof (cases rule: create_cases)
    case (failed err)
    then have "\<not> (ce_stack_ok e \<and> 0 \<le> ce_clone e)" "err = (if ce_stack_ok e then ESys else ENoMem)"
      "next_session_id st' = next_session_id st + 1"
      using c go by (auto simp: session_create_def Let_def log_sys_def split: prod.splits if_splits)
    then show ?thesis
      using c failed on go spec_create_failed [OF p, of e name mem net] by (simp add: sess_abs_def)
  next
    case (created s)
    then have "ce_stack_ok e" "0 \<le> ce_clone e"
      using c go by (auto simp: session_create_def Let_def log_sys_def split: prod.splits if_splits)
    moreover have "made_by e name mem net (next_session_id st) s"
      using created(3)
      by (auto simp: made_by_def setup_cgroup_def new_session_def Let_def strncpy_buf_def snprintf_buf_def word_gt_0
          split: option.splits)
    ultimately show ?thesis
      using c created on go spec_create [OF p, of e name mem net s] by (simp add: sess_abs_def)
  qed
qed

lemma step_destroy:
  assumes "sess_inv st"
  shows "spec_step (sess_abs st) (OpDestroy k) (SaDone (fst (session_destroy k st))) (sess_abs (snd (session_destroy k st)))"
proof -
  have d: "distinct (map sid (active st))" using assms by (simp add: sess_inv_def)
  have a: "sess_abs (snd (session_destroy k st)) = (sess_abs st)\<lparr>sp_sessions := filter (\<lambda>s. sid s \<noteq> k) (active st)\<rparr>"
    by (simp add: sess_abs_def destroy_active [OF assms] remove_key_filter [OF d])
  show ?thesis
  proof (cases "find_session k st")
    case None
    then have "k \<notin> sid ` set (active st)" using assms by (simp add: find_session_eq find_key_None)
    then show ?thesis
      using None spec_destroy_none [of k "sess_abs st"] by (simp add: session_destroy_def sess_abs_def)
  next
    case (Some i)
    then have "k \<in> sid ` set (active st)" using assms find_key_None [of sid k "active st"] by (auto simp: find_session_eq)
    then have "spec_step (sess_abs st) (OpDestroy k) (SaDone (Inr ())) ((sess_abs st)\<lparr>sp_sessions := filter (\<lambda>s. sid s \<noteq> k) (active st)\<rparr>)"
      using spec_destroy [of k "sess_abs st"] by (simp add: sess_abs_def)
    moreover have "fst (session_destroy k st) = Inr ()" using Some by (simp add: session_destroy_def Let_def)
    ultimately show ?thesis by (simp add: a)
  qed
qed

lemma step_info:
  assumes "sess_inv st"
  shows "spec_step (sess_abs st) (OpInfo k) (SaInfo (session_get_info k st)) (sess_abs st)"
proof (cases "find (\<lambda>s. sid s = k) (active st)")
  case None
  then show ?thesis
    using None [unfolded find_None_iff] spec_info_none [of k "sess_abs st"]
    by (auto simp: get_info_find [OF assms] sess_abs_def)
next
  case (Some s)
  then have "s \<in> set (active st)" "sid s = k" by (auto simp: find_Some_iff)
  then show ?thesis using Some spec_info [of s "sess_abs st"] by (auto simp: get_info_find [OF assms] sess_abs_def)
qed

interpretation sess: refinement sess_do spec_step sess_rel "\<lambda>_. True"
proof unfold_locales
  fix st p x a st'
  assume "sess_rel st p" and do: "sess_do x st = (a, st')"
  then have inv: "sess_inv st" and p: "p = sess_abs st" by (simp_all add: sess_rel_def)
  have "spec_step (sess_abs st) x a (sess_abs st') \<and> sess_inv st'"
  proof (cases x)
    case OpInit
    then show ?thesis
      using do init_inv [OF inv] spec_init [of "sess_abs st"] spec_init_again [of "sess_abs st"]
      by (auto simp: session_init_def sess_abs_def active_def log_sys_def split: if_splits)
  next
    case (OpCreate e name mem net)
    then show ?thesis using do step_create [OF inv, of e name mem net] create_inv [OF inv, of e name mem net]
      by (auto split: prod.splits)
  next
    case (OpDestroy k)
    then show ?thesis using do step_destroy [OF inv, of k] destroy_inv [OF inv, of k] by (auto split: prod.splits)
  next
    case OpDestroyAll
    then show ?thesis using do spec_destroy_all destroy_all_inv_empty [OF inv] by (auto simp: abs_destroy_all [OF inv])
  next
    case OpShutdown
    then show ?thesis
      using do shutdown_inv [OF inv] spec_shutdown [of "sess_abs st"] spec_shutdown_off [of "sess_abs st"] abs_destroy_all [OF inv]
      by (auto simp: session_shutdown_def sess_abs_def destroy_all_frame split: if_splits)
  next
    case (OpInfo k)
    then show ?thesis using do step_info [OF inv, of k] inv by auto
  next
    case OpList
    then show ?thesis
      using do inv spec_list [of "sess_abs st"] by (auto simp: session_list_def sess_abs_def active_def)
  qed
  then show "\<exists>p'. spec_step p x a p' \<and> sess_rel st' p'" by (auto simp: p sess_rel_def)
qed

text \<open>
  C11: the session manager implements its specification: for every sequence of operations from
  the start of the program, each with any outcome of the system calls, the answers are those
  of the abstract machine. A creation answers the next number and adds exactly the session that
  was asked for at the end of the list, or says why not and adds nothing; a destruction removes
  exactly the session of that number, or answers that there is none; \<open>session_destroy_all\<close> and
  \<open>session_shutdown\<close> leave none; \<open>session_get_info\<close> and \<open>session_list\<close> answer from the list. The list
  has at most 16 sessions, with different numbers.
\<close>

theorem session_refinement:
  assumes "run_ops sess_do xs sess_start = (as, st')"
  shows "\<exists>p. op_trace spec_step \<lparr>sp_sessions = [], sp_next = 1, sp_on = False\<rparr> xs as p \<and>
    fst (session_list st') = sp_sessions p \<and> snd (session_list st') = length (sp_sessions p) \<and>
    distinct (map sid (sp_sessions p)) \<and> length (sp_sessions p) \<le> SESSION_MAX_ACTIVE"
proof -
  have "sess_rel sess_start \<lparr>sp_sessions = [], sp_next = 1, sp_on = False\<rparr>"
    using sess_inv_start by (simp add: sess_rel_def sess_abs_def sess_start_def active_def)
  from sess.runs_refine [OF this _ assms] obtain p where
    p: "op_trace spec_step \<lparr>sp_sessions = [], sp_next = 1, sp_on = False\<rparr> xs as p" "sess_rel st' p" by auto
  then have "sess_inv st'" "sp_sessions p = active st'" by (simp_all add: sess_rel_def sess_abs_def)
  then have "fst (session_list st') = sp_sessions p \<and> snd (session_list st') = length (sp_sessions p) \<and>
      distinct (map sid (sp_sessions p)) \<and> length (sp_sessions p) \<le> 16"
    using length_active [of st'] by (simp add: session_list_def active_def sess_inv_def)
  with p(1) show ?thesis by blast
qed

definition sess_ops0 :: "sess_op list" where
  "sess_ops0 = [OpCreate create_ok (Some ''early'') 0 False, OpInit, OpCreate create_ok (Some ''work'') 0 False,
     OpCreate (create_ok\<lparr>ce_clone := -1\<rparr>) (Some ''bad'') 0 False, OpCreate create_ok (Some ''mail'') 0 True,
     OpDestroy 1, OpDestroy 1, OpDestroyAll]"

lemma sess_run0:
  "fst (run_ops sess_do sess_ops0 sess_start) =
     [SaId (Inl EInval), SaDone (Inr ()), SaId (Inr 1), SaId (Inl ESys), SaId (Inr 3),
      SaDone (Inr ()), SaDone (Inl ENotFound), SaDone (Inr ())]"
  by (simp add: sess_ops0_def session_create_def session_init_def sess_start_def log_sys_def create_ok_def
      setup_cgroup_def new_session_def session_destroy_def find_session_def scan_slots.simps memmove_down_def
      eval_nat_numeral Let_def)

theorem session_refinement_witness:
  "\<exists>p. op_trace spec_step \<lparr>sp_sessions = [], sp_next = 1, sp_on = False\<rparr> sess_ops0
     [SaId (Inl EInval), SaDone (Inr ()), SaId (Inr 1), SaId (Inl ESys), SaId (Inr 3),
      SaDone (Inr ()), SaDone (Inl ENotFound), SaDone (Inr ())] p"
proof -
  obtain as st' where run: "run_ops sess_do sess_ops0 sess_start = (as, st')" by (rule prod.exhaust)
  from session_refinement [OF run] show ?thesis using sess_run0 run by auto
qed

end
