(* ===== verification/Crypto_Core.thy ===== *)
theory Crypto_Core
  imports SZ_Prelude
begin

text \<open>
  \<open>crypticengine/src/crypto_core.c\<close> and \<open>crypto_core.h\<close>: the wrappers through which the rest
  of the engine reaches libsodium. libsodium is not part of the sources, so it is a
  parameter: the record \<open>sodium\<close> (and \<open>gh_api\<close> for the streaming hash) has one field per
  primitive a wrapper calls, \<open>None\<close> or \<open>False\<close> standing for a non-zero return. What its
  documentation promises is stated as predicates on the record (\<open>aead_correct\<close>,
  \<open>keypair_correct\<close>, \<open>hash_sized\<close>, \<dots>), which theorems name as hypotheses. A pointer
  argument that may be \<open>NULL\<close> is an \<open>option\<close>, an output pointer a \<open>bool\<close> (is it non-null).
\<close>

section \<open>Constants of crypto_core.h\<close>

definition CRYPTIC_KDF_OPSLIMIT_NORMAL :: u64 where "CRYPTIC_KDF_OPSLIMIT_NORMAL = 3"
definition CRYPTIC_KDF_MEMLIMIT_NORMAL :: u64 where "CRYPTIC_KDF_MEMLIMIT_NORMAL = 256 * 1024 * 1024"

abbreviation (input) CRYPTIC_KEY_LEN :: nat where "CRYPTIC_KEY_LEN \<equiv> 32"
abbreviation (input) CRYPTIC_SALT_LEN :: nat where "CRYPTIC_SALT_LEN \<equiv> 16"
abbreviation (input) CRYPTIC_NONCE_LEN :: nat where "CRYPTIC_NONCE_LEN \<equiv> 24"
abbreviation (input) CRYPTIC_MAC_LEN :: nat where "CRYPTIC_MAC_LEN \<equiv> 16"
abbreviation (input) CRYPTIC_HASH_LEN :: nat where "CRYPTIC_HASH_LEN \<equiv> 32"
abbreviation (input) CRYPTIC_SIG_LEN :: nat where "CRYPTIC_SIG_LEN \<equiv> 64"
abbreviation (input) CRYPTIC_SIGN_PK_LEN :: nat where "CRYPTIC_SIGN_PK_LEN \<equiv> 32"
abbreviation (input) CRYPTIC_SIGN_SK_LEN :: nat where "CRYPTIC_SIGN_SK_LEN \<equiv> 64"

section \<open>libsodium as a parameter\<close>

record sodium =
  s_pwhash :: "nat \<Rightarrow> string \<Rightarrow> bytes \<Rightarrow> u64 \<Rightarrow> u64 \<Rightarrow> bytes option"
  s_aead_encrypt :: "bytes \<Rightarrow> bytes \<Rightarrow> bytes \<Rightarrow> bytes option"
  s_aead_decrypt :: "bytes \<Rightarrow> bytes \<Rightarrow> bytes \<Rightarrow> bytes option"
  s_sign_keypair :: "(bytes \<times> bytes) option"
  s_sign_detached :: "bytes \<Rightarrow> bytes \<Rightarrow> bytes option"
  s_sign_verify :: "bytes \<Rightarrow> bytes \<Rightarrow> bytes \<Rightarrow> bool"
  s_generichash :: "nat \<Rightarrow> bytes \<Rightarrow> bytes option"
  s_pwhash_str :: "bytes \<Rightarrow> string \<Rightarrow> string option"
  s_pwhash_str_verify :: "string \<Rightarrow> string \<Rightarrow> bool"
  s_bin2hex :: "bytes \<Rightarrow> string"
  s_hex2bin :: "nat \<Rightarrow> string \<Rightarrow> bytes option"

record 'g gh_api =
  gh_init :: "nat \<Rightarrow> 'g option"
  gh_update :: "'g \<Rightarrow> bytes \<Rightarrow> 'g option"
  gh_final :: "'g \<Rightarrow> nat \<Rightarrow> bytes option"

section \<open>The wrappers\<close>

definition crypto_derive_key ::
  "sodium \<Rightarrow> bool \<Rightarrow> string option \<Rightarrow> bytes option \<Rightarrow> u64 \<Rightarrow> u64 \<Rightarrow> bytes res" where
  "crypto_derive_key S key_p password salt opslimit memlimit =
     (case (password, salt) of
        (Some pw, Some sl) \<Rightarrow>
          if \<not> key_p then Inl EInval
          else (case s_pwhash S CRYPTIC_KEY_LEN pw sl opslimit memlimit of
                  None \<Rightarrow> Inl ENoMem
                | Some k \<Rightarrow> Inr k)
      | _ \<Rightarrow> Inl EInval)"

definition crypto_encrypt_buffer ::
  "sodium \<Rightarrow> bool \<Rightarrow> bytes option \<Rightarrow> bytes option \<Rightarrow> bytes option \<Rightarrow> bytes res" where
  "crypto_encrypt_buffer S ct_p plaintext nonce key =
     (case (plaintext, nonce, key) of
        (Some pt, Some n, Some k) \<Rightarrow>
          if \<not> ct_p then Inl EInval
          else (case s_aead_encrypt S pt n k of None \<Rightarrow> Inl ESys | Some ct \<Rightarrow> Inr ct)
      | _ \<Rightarrow> Inl EInval)"

definition crypto_decrypt_buffer ::
  "sodium \<Rightarrow> bool \<Rightarrow> bytes option \<Rightarrow> bytes option \<Rightarrow> bytes option \<Rightarrow> bytes res" where
  "crypto_decrypt_buffer S pt_p ciphertext nonce key =
     (case (ciphertext, nonce, key) of
        (Some ct, Some n, Some k) \<Rightarrow>
          if \<not> pt_p then Inl EInval
          else (case s_aead_decrypt S ct n k of None \<Rightarrow> Inl EAuth | Some pt \<Rightarrow> Inr pt)
      | _ \<Rightarrow> Inl EInval)"

definition crypto_sign_keypair :: "sodium \<Rightarrow> bool \<Rightarrow> bool \<Rightarrow> (bytes \<times> bytes) res" where
  "crypto_sign_keypair S pk_p sk_p =
     (if \<not> pk_p \<or> \<not> sk_p then Inl EInval
      else case s_sign_keypair S of None \<Rightarrow> Inl ESys | Some kp \<Rightarrow> Inr kp)"

definition crypto_sign_buffer :: "sodium \<Rightarrow> bool \<Rightarrow> bytes option \<Rightarrow> bytes option \<Rightarrow> bytes res" where
  "crypto_sign_buffer S sig_p message sk =
     (case (message, sk) of
        (Some m, Some k) \<Rightarrow>
          if \<not> sig_p then Inl EInval
          else (case s_sign_detached S m k of None \<Rightarrow> Inl ESys | Some sig \<Rightarrow> Inr sig)
      | _ \<Rightarrow> Inl EInval)"

definition crypto_verify_signature ::
  "sodium \<Rightarrow> bytes option \<Rightarrow> bytes option \<Rightarrow> bytes option \<Rightarrow> unit res" where
  "crypto_verify_signature S sig message pk =
     (case (sig, message, pk) of
        (Some s, Some m, Some k) \<Rightarrow> if s_sign_verify S s m k then Inr () else Inl EAuth
      | _ \<Rightarrow> Inl EInval)"

text \<open>
  A null data pointer is accepted only with length 0; the option stands for the pointer, so
  \<open>None\<close> comes with the length the caller passed.
\<close>

definition crypto_hash_buffer :: "sodium \<Rightarrow> bool \<Rightarrow> bytes option \<Rightarrow> nat \<Rightarrow> bytes res" where
  "crypto_hash_buffer S hash_p data data_len =
     (if \<not> hash_p \<or> (data = None \<and> data_len > 0) then Inl EInval
      else case s_generichash S CRYPTIC_HASH_LEN (case data of None \<Rightarrow> [] | Some d \<Rightarrow> take data_len d) of
             None \<Rightarrow> Inl ESys
           | Some h \<Rightarrow> Inr h)"

text \<open>The \<open>fread\<close> loop of \<open>crypto_hash_file\<close>, 8192 bytes at a time.\<close>

function hash_loop :: "'g gh_api \<Rightarrow> 'g \<Rightarrow> bytes \<Rightarrow> 'g option" where
  "hash_loop H st bs =
     (if bs = [] then Some st
      else case gh_update H st (take 8192 bs) of
             None \<Rightarrow> None
           | Some st' \<Rightarrow> hash_loop H st' (drop 8192 bs))"
  by pat_completeness auto
termination
  by (relation "measure (\<lambda>(H, st, bs). length bs)") auto

declare hash_loop.simps [simp del]

text \<open>
  \<open>fopen_ok\<close> is the outcome of opening an existing file; \<open>read_err\<close> is \<open>Some k\<close> when the
  stream fails after \<open>k\<close> bytes (\<open>fread\<close> then stops and \<open>ferror\<close> reports it).
\<close>

definition crypto_hash_file ::
  "'g gh_api \<Rightarrow> fs \<Rightarrow> bool \<Rightarrow> nat option \<Rightarrow> bool \<Rightarrow> path option \<Rightarrow> bytes res" where
  "crypto_hash_file H files fopen_ok read_err hash_p filepath =
     (case filepath of
        None \<Rightarrow> Inl EInval
      | Some p \<Rightarrow>
          if \<not> hash_p then Inl EInval
          else case (if fopen_ok then files p else None) of
                 None \<Rightarrow> Inl EOpen
               | Some content \<Rightarrow>
                   (case gh_init H CRYPTIC_HASH_LEN of
                      None \<Rightarrow> Inl ESys
                    | Some st \<Rightarrow>
                        (case hash_loop H st (case read_err of None \<Rightarrow> content | Some k \<Rightarrow> take k content) of
                           None \<Rightarrow> Inl ESys
                         | Some st' \<Rightarrow>
                             if read_err \<noteq> None then Inl EIo
                             else (case gh_final H st' CRYPTIC_HASH_LEN of
                                     None \<Rightarrow> Inl ESys
                                   | Some h \<Rightarrow> Inr h))))"

definition crypto_random_bytes :: "(nat \<Rightarrow> u8) \<Rightarrow> nat \<Rightarrow> bytes" where
  "crypto_random_bytes r len = randombytes_buf r len"

definition crypto_generate_salt :: "(nat \<Rightarrow> u8) \<Rightarrow> bytes" where
  "crypto_generate_salt r = randombytes_buf r CRYPTIC_SALT_LEN"

definition crypto_password_hash :: "sodium \<Rightarrow> bytes \<Rightarrow> bool \<Rightarrow> string option \<Rightarrow> string res" where
  "crypto_password_hash S salt out_p password =
     (case password of
        None \<Rightarrow> Inl EInval
      | Some pw \<Rightarrow>
          if \<not> out_p then Inl EInval
          else (case s_pwhash_str S salt pw of None \<Rightarrow> Inl ENoMem | Some h \<Rightarrow> Inr h))"

definition crypto_password_verify :: "sodium \<Rightarrow> string option \<Rightarrow> string option \<Rightarrow> unit res" where
  "crypto_password_verify S stored_hash password =
     (case (stored_hash, password) of
        (Some h, Some pw) \<Rightarrow> if s_pwhash_str_verify S h pw then Inr () else Inl EAuth
      | _ \<Rightarrow> Inl EInval)"

definition crypto_bin_to_hex :: "sodium \<Rightarrow> bytes \<Rightarrow> string" where
  "crypto_bin_to_hex S bin = s_bin2hex S bin"

section \<open>What libsodium documents\<close>

text \<open>
  XChaCha20-Poly1305: the ciphertext is the plaintext plus a 16-byte tag; decryption inverts
  encryption, and succeeds only on what encryption produces under the same nonce and key.
\<close>

definition aead_correct :: "sodium \<Rightarrow> bool" where
  "aead_correct S \<longleftrightarrow>
     (\<forall>p n k c. length n = CRYPTIC_NONCE_LEN \<longrightarrow> length k = CRYPTIC_KEY_LEN \<longrightarrow>
        (s_aead_encrypt S p n k = Some c \<longleftrightarrow> s_aead_decrypt S c n k = Some p)) \<and>
     (\<forall>p n k c. s_aead_encrypt S p n k = Some c \<longrightarrow> length c = length p + CRYPTIC_MAC_LEN)"

text \<open>Encryption never fails on well-sized arguments (it only computes).\<close>

definition aead_total :: "sodium \<Rightarrow> bool" where
  "aead_total S \<longleftrightarrow>
     (\<forall>p n k. length n = CRYPTIC_NONCE_LEN \<longrightarrow> length k = CRYPTIC_KEY_LEN \<longrightarrow>
        s_aead_encrypt S p n k \<noteq> None)"

definition pwhash_sized :: "sodium \<Rightarrow> bool" where
  "pwhash_sized S \<longleftrightarrow> (\<forall>n pw sl ops mem k. s_pwhash S n pw sl ops mem = Some k \<longrightarrow> length k = n)"

definition hash_sized :: "sodium \<Rightarrow> bool" where
  "hash_sized S \<longleftrightarrow> (\<forall>n d h. s_generichash S n d = Some h \<longrightarrow> length h = n)"

definition keypair_correct :: "sodium \<Rightarrow> bytes \<Rightarrow> bytes \<Rightarrow> bool" where
  "keypair_correct S pk sk \<longleftrightarrow>
     (\<forall>m sig. s_sign_detached S m sk = Some sig \<longrightarrow>
        length sig = CRYPTIC_SIG_LEN \<and> s_sign_verify S sig m pk)"

text \<open>\<open>crypto_pwhash_STRBYTES\<close> is 128, the terminating NUL included; the string is printable.\<close>

abbreviation (input) crypto_pwhash_STRBYTES :: nat where "crypto_pwhash_STRBYTES \<equiv> 128"

definition pwhash_str_correct :: "sodium \<Rightarrow> bool" where
  "pwhash_str_correct S \<longleftrightarrow>
     (\<forall>salt pw h. s_pwhash_str S salt pw = Some h \<longrightarrow>
        s_pwhash_str_verify S h pw \<and> length h < crypto_pwhash_STRBYTES \<and>
        h \<noteq> [] \<and> (\<forall>c \<in> set h. c \<noteq> CHR 0x00 \<and> c \<noteq> CHR 0x0A))"

text \<open>Hexadecimal: two lower-case digits per byte, and back.\<close>

definition hex_correct :: "sodium \<Rightarrow> bool" where
  "hex_correct S \<longleftrightarrow>
     (\<forall>h. length h = CRYPTIC_HASH_LEN \<longrightarrow>
        length (s_bin2hex S h) = 2 * CRYPTIC_HASH_LEN \<and> s_hex2bin S CRYPTIC_HASH_LEN (s_bin2hex S h) = Some h \<and>
        set (s_bin2hex S h) \<subseteq> set ''0123456789abcdef'')"

text \<open>The multi-part hash API computes the one-part hash of the concatenation of the parts.\<close>

fun gh_feed :: "'g gh_api \<Rightarrow> 'g \<Rightarrow> bytes list \<Rightarrow> 'g option" where
  "gh_feed H st [] = Some st"
| "gh_feed H st (c # cs) = (case gh_update H st c of None \<Rightarrow> None | Some st' \<Rightarrow> gh_feed H st' cs)"

definition gh_sized :: "'g gh_api \<Rightarrow> bool" where
  "gh_sized H \<longleftrightarrow> (\<forall>st n h. gh_final H st n = Some h \<longrightarrow> length h = n)"

definition gh_streams :: "sodium \<Rightarrow> 'g gh_api \<Rightarrow> bool" where
  "gh_streams S H \<longleftrightarrow>
     (\<forall>n. gh_init H n \<noteq> None) \<and>
     (\<forall>n st chunks. gh_init H n = Some st \<longrightarrow>
        (\<exists>st'. gh_feed H st chunks = Some st' \<and> gh_final H st' n = s_generichash S n (concat chunks)))"

section \<open>Facts about the wrappers\<close>

lemma derive_key_Some [simp]:
  "crypto_derive_key S True (Some pw) (Some sl) ops mem =
     (case s_pwhash S CRYPTIC_KEY_LEN pw sl ops mem of None \<Rightarrow> Inl ENoMem | Some k \<Rightarrow> Inr k)"
  by (simp add: crypto_derive_key_def)

lemma encrypt_buffer_Some [simp]:
  "crypto_encrypt_buffer S True (Some p) (Some n) (Some k) =
     (case s_aead_encrypt S p n k of None \<Rightarrow> Inl ESys | Some ct \<Rightarrow> Inr ct)"
  by (simp add: crypto_encrypt_buffer_def)

lemma decrypt_buffer_Some [simp]:
  "crypto_decrypt_buffer S True (Some c) (Some n) (Some k) =
     (case s_aead_decrypt S c n k of None \<Rightarrow> Inl EAuth | Some pt \<Rightarrow> Inr pt)"
  by (simp add: crypto_decrypt_buffer_def)

lemma verify_signature_Some [simp]:
  "crypto_verify_signature S (Some s) (Some m) (Some k) = Inr () \<longleftrightarrow> s_sign_verify S s m k"
  "crypto_verify_signature S (Some s) (Some m) (Some k) = Inl e \<longleftrightarrow> \<not> s_sign_verify S s m k \<and> e = EAuth"
  by (auto simp: crypto_verify_signature_def)

lemma sign_buffer_Some [simp]:
  "crypto_sign_buffer S True (Some m) (Some k) =
     (case s_sign_detached S m k of None \<Rightarrow> Inl ESys | Some sig \<Rightarrow> Inr sig)"
  by (simp add: crypto_sign_buffer_def)

lemma hash_buffer_Some [simp]:
  "crypto_hash_buffer S True (Some d) (length d) =
     (case s_generichash S CRYPTIC_HASH_LEN d of None \<Rightarrow> Inl ESys | Some h \<Rightarrow> Inr h)"
  by (simp add: crypto_hash_buffer_def)

lemma length_salt_nonce [simp, byte_simps]:
  "length (crypto_generate_salt r) = CRYPTIC_SALT_LEN" "length (crypto_random_bytes r n) = n"
  by (simp_all add: crypto_generate_salt_def crypto_random_bytes_def)

section \<open>Interface: sealing under a password\<close>

text \<open>
  What the file encryption, the keystore and the binary format rely on: a key derivation
  that is a function of password and salt, and an authenticated encryption with its inverse.
\<close>

locale password_sealing =
  fixes ok :: "'p \<Rightarrow> bool"
    and kdf :: "'p \<Rightarrow> string \<Rightarrow> bytes \<Rightarrow> bytes res"
    and seal :: "'p \<Rightarrow> bytes \<Rightarrow> bytes \<Rightarrow> bytes \<Rightarrow> bytes res"
    and unseal :: "'p \<Rightarrow> bytes \<Rightarrow> bytes \<Rightarrow> bytes \<Rightarrow> bytes res"
  assumes kdf_length: "ok S \<Longrightarrow> kdf S pw salt = Inr k \<Longrightarrow> length k = CRYPTIC_KEY_LEN"
    and unseal_iff: "ok S \<Longrightarrow> length n = CRYPTIC_NONCE_LEN \<Longrightarrow> length k = CRYPTIC_KEY_LEN \<Longrightarrow>
      unseal S c n k = Inr p \<longleftrightarrow> seal S p n k = Inr c"
    and seal_length: "ok S \<Longrightarrow> seal S p n k = Inr c \<Longrightarrow> length c = length p + CRYPTIC_MAC_LEN"
begin

lemma open_sealed:
  assumes "ok S" "length n = CRYPTIC_NONCE_LEN" "kdf S pw salt = Inr k" "seal S p n k = Inr c"
  shows "unseal S c n k = Inr p"
  using assms kdf_length [of S pw salt k] unseal_iff [of S n k c p] by blast

lemma seal_injective:
  assumes "ok S" "length n = CRYPTIC_NONCE_LEN" "length k = CRYPTIC_KEY_LEN"
    and "seal S p n k = Inr c" "seal S q n k = Inr c"
  shows "p = q"
proof -
  have "unseal S c n k = Inr p" "unseal S c n k = Inr q"
    using assms unseal_iff [of S n k c] by blast+
  then show ?thesis by simp
qed

lemma unsealed_length:
  assumes "ok S" "length n = CRYPTIC_NONCE_LEN" "length k = CRYPTIC_KEY_LEN" "unseal S c n k = Inr p"
  shows "length c = length p + CRYPTIC_MAC_LEN"
  using assms unseal_iff [of S n k c p] seal_length [of S p n k c] by blast

end

text \<open>The key derivation the engine uses everywhere: the NORMAL cost parameters.\<close>

abbreviation (input) derive_normal :: "sodium \<Rightarrow> string \<Rightarrow> bytes \<Rightarrow> bytes res" where
  "derive_normal S pw salt \<equiv>
     crypto_derive_key S True (Some pw) (Some salt) CRYPTIC_KDF_OPSLIMIT_NORMAL CRYPTIC_KDF_MEMLIMIT_NORMAL"

interpretation cc: password_sealing
  "\<lambda>S. aead_correct S \<and> pwhash_sized S"
  derive_normal
  "\<lambda>S p n k. crypto_encrypt_buffer S True (Some p) (Some n) (Some k)"
  "\<lambda>S c n k. crypto_decrypt_buffer S True (Some c) (Some n) (Some k)"
proof (unfold_locales, goal_cases)
  case (1 S pw salt k)
  then show ?case by (auto simp: pwhash_sized_def split: option.splits)
next
  case (2 S n k c p)
  then have "s_aead_encrypt S p n k = Some c \<longleftrightarrow> s_aead_decrypt S c n k = Some p"
    unfolding aead_correct_def by blast
  then show ?case by (auto split: option.splits)
next
  case (3 S p n k c)
  then have "s_aead_encrypt S p n k = Some c" by (simp split: option.splits)
  with 3 show ?case unfolding aead_correct_def by blast
qed

section \<open>Streaming and one-shot hashing agree\<close>

fun chunks_of :: "nat \<Rightarrow> bytes \<Rightarrow> bytes list" where
  "chunks_of n bs = (if bs = [] \<or> n = 0 then [] else take n bs # chunks_of n (drop n bs))"

declare chunks_of.simps [simp del]

lemma concat_chunks_of: "0 < n \<Longrightarrow> concat (chunks_of n bs) = bs"
proof (induction n bs rule: chunks_of.induct)
  case (1 n bs)
  then show ?case by (subst chunks_of.simps) auto
qed

lemma hash_loop_feed: "hash_loop H st bs = gh_feed H st (chunks_of 8192 bs)"
proof (induction H st bs rule: hash_loop.induct)
  case (1 H st bs)
  show ?case
  proof (cases "bs = []")
    case True
    then show ?thesis by (simp add: hash_loop.simps chunks_of.simps)
  next
    case False
    then show ?thesis
      using "1.IH"
      by (subst hash_loop.simps, subst chunks_of.simps) (auto split: option.splits)
  qed
qed


section \<open>The laws can hold\<close>

text \<open>
  A concrete instance of the parameters, without any secrecy, that satisfies every law above;
  the examples of the development evaluate on it.
\<close>

definition pad_to :: "nat \<Rightarrow> bytes \<Rightarrow> bytes" where
  "pad_to n d = take n (d @ replicate n 0)"

lemma length_pad_to [simp]: "length (pad_to n d) = n"
  by (simp add: pad_to_def)

definition hex_digits :: string where "hex_digits = ''0123456789abcdef''"

definition hex_of :: "bytes \<Rightarrow> string" where
  "hex_of b = concat (map (\<lambda>x. [hex_digits ! (unat x div 16), hex_digits ! (unat x mod 16)]) b)"

definition hex_val :: "char \<Rightarrow> nat" where
  "hex_val c = length (takeWhile (\<lambda>d. d \<noteq> c) hex_digits)"

fun unhex :: "string \<Rightarrow> bytes" where
  "unhex (a # b # cs) = word_of_nat (16 * hex_val a + hex_val b) # unhex cs"
| "unhex _ = []"

lemma hex_val_digit: "n < 16 \<Longrightarrow> hex_val (hex_digits ! n) = n"
proof -
  have "\<forall>n \<in> set [0..<16]. hex_val (hex_digits ! n) = n"
    by (simp add: upt_rec hex_val_def hex_digits_def)
  then show "n < 16 \<Longrightarrow> hex_val (hex_digits ! n) = n" by simp
qed

lemma unhex_hex_of: "unhex (hex_of b) = b"
proof (induction b)
  case (Cons x b)
  have "unat x < 256" using unsigned_less [where 'a = nat, of x] by simp
  then have "unat x div 16 < 16" by (simp add: less_mult_imp_div_less)
  with Cons show ?case by (simp add: hex_of_def hex_val_digit)
qed (simp add: hex_of_def)

lemma hex_of_chars: "set (hex_of b) \<subseteq> set hex_digits"
proof -
  have "unat x div 16 < 16" for x :: u8
    using unsigned_less [where 'a = nat, of x] by (simp add: less_mult_imp_div_less)
  moreover have "length hex_digits = 16" by (simp add: hex_digits_def)
  ultimately show ?thesis by (auto simp: hex_of_def)
qed

lemma length_hex_of: "length (hex_of b) = 2 * length b"
  by (induction b) (auto simp: hex_of_def)

definition sodium_example :: sodium where
  "sodium_example = \<lparr>
     s_pwhash = (\<lambda>n pw sl ops mem. Some (pad_to n sl)),
     s_aead_encrypt = (\<lambda>p n k. Some (p @ replicate 16 0)),
     s_aead_decrypt = (\<lambda>c n k. if 16 \<le> length c \<and> drop (length c - 16) c = replicate 16 0
                               then Some (take (length c - 16) c) else None),
     s_sign_keypair = Some (replicate 32 1, replicate 64 1),
     s_sign_detached = (\<lambda>m sk. Some (pad_to 64 m)),
     s_sign_verify = (\<lambda>sig m pk. sig = pad_to 64 m),
     s_generichash = (\<lambda>n d. Some (pad_to n d)),
     s_pwhash_str = (\<lambda>salt pw. if length pw < 100 \<and> CHR 0x00 \<notin> set pw \<and> CHR 0x0A \<notin> set pw
                                 then Some (''$argon2id$'' @ pw) else None),
     s_pwhash_str_verify = (\<lambda>h pw. h = ''$argon2id$'' @ pw),
     s_bin2hex = hex_of,
     s_hex2bin = (\<lambda>n h. if length (unhex h) \<le> n then Some (unhex h) else None)\<rparr>"

lemma sodium_example_ops:
  "s_pwhash sodium_example n pw sl ops mem = Some (pad_to n sl)"
  "s_aead_encrypt sodium_example p nc k = Some (p @ replicate 16 0)"
  "s_sign_detached sodium_example msg sk = Some (pad_to 64 msg)"
  "s_sign_verify sodium_example sig msg pk \<longleftrightarrow> sig = pad_to 64 msg"
  "s_generichash sodium_example n p = Some (pad_to n p)"
  by (simp_all add: sodium_example_def)

definition gh_example :: "bytes gh_api" where
  "gh_example = \<lparr>gh_init = (\<lambda>n. Some []), gh_update = (\<lambda>st c. Some (st @ c)),
     gh_final = (\<lambda>st n. Some (pad_to n st))\<rparr>"

lemma sodium_example_laws:
  "aead_correct sodium_example" "aead_total sodium_example" "pwhash_sized sodium_example"
  "hash_sized sodium_example" "keypair_correct sodium_example pk sk"
  "pwhash_str_correct sodium_example"
proof -
  have "(p @ replicate 16 0 = c) =
    ((if 16 \<le> length c \<and> drop (length c - 16) c = replicate 16 0
      then Some (take (length c - 16) c) else None) = Some p)" for p c :: bytes
    by (auto, metis append_take_drop_id)
  then show "aead_correct sodium_example"
    by (auto simp: aead_correct_def sodium_example_def)
qed (auto simp: aead_total_def pwhash_sized_def hash_sized_def keypair_correct_def
      pwhash_str_correct_def sodium_example_def)

lemma sodium_example_hex: "hex_correct sodium_example"
  using hex_of_chars
  by (auto simp: hex_correct_def sodium_example_def unhex_hex_of length_hex_of hex_digits_def)

lemma gh_example_sized: "gh_sized gh_example"
  by (simp add: gh_sized_def gh_example_def)

lemma gh_example_feed: "gh_feed gh_example st cs = Some (st @ concat cs)"
  by (induction cs arbitrary: st) (simp_all add: gh_example_def)

lemma gh_example_streams: "gh_streams sodium_example gh_example"
  unfolding gh_streams_def gh_example_feed
  by (simp add: gh_example_def sodium_example_def)

lemma hash_file_example:
  "files p = Some content \<Longrightarrow>
   crypto_hash_file gh_example files True None True (Some p) = Inr (pad_to CRYPTIC_HASH_LEN content)"
proof -
  assume f: "files p = Some content"
  have i: "gh_init gh_example n = Some []" and e: "gh_final gh_example st n = Some (pad_to n st)" for st n
    by (simp_all add: gh_example_def)
  have l: "hash_loop gh_example [] content = Some content"
    by (simp add: hash_loop_feed gh_example_feed concat_chunks_of)
  show ?thesis by (simp add: crypto_hash_file_def f i e l)
qed


end
