(* ===== verification/Secure_Memory.thy ===== *)
theory Secure_Memory
  imports SZ_Prelude
begin

text \<open>
  \<open>crypticengine/src/secure_memory.c\<close>: the guarded heap and its allocation tracker. The state
  \<open>mem_state\<close> has the file's static variables (\<open>alloc_list\<close>, \<open>alloc_count\<close>,
  \<open>alloc_total_bytes\<close>, \<open>initialized\<close>; the two counters are \<open>size_t\<close>, hence 64-bit words) and
  the live guarded regions of libsodium's heap, each with its content. The outcomes of
  \<open>sodium_malloc\<close>, \<open>malloc\<close> and \<open>sodium_init\<close> are arguments. \<open>heap_fault\<close> records that
  \<open>sodium_free\<close> was called on an address that is not a live region, where libsodium aborts.
  Here an operation is one step, as it is for a single thread; \<open>Memory_Threads\<close> splits the
  operations at the lock and interleaves them.
\<close>

section \<open>State\<close>

record alloc_node =
  node_ptr :: nat
  node_size :: u64

record mem_state =
  alloc_list :: "alloc_node list"
  alloc_count :: u64
  alloc_total_bytes :: u64
  initialized :: bool
  regions :: "nat \<rightharpoonup> bytes"
  heap_fault :: bool

definition mem_start :: mem_state where
  "mem_start = \<lparr>alloc_list = [], alloc_count = 0, alloc_total_bytes = 0, initialized = False,
     regions = Map.empty, heap_fault = False\<rparr>"

section \<open>Operations\<close>

definition tracker_add :: "bool \<Rightarrow> nat \<Rightarrow> u64 \<Rightarrow> mem_state \<Rightarrow> mem_state" where
  "tracker_add node_ok ptr sz m =
     (if \<not> node_ok then m
      else m\<lparr>alloc_list := \<lparr>node_ptr = ptr, node_size = sz\<rparr> # alloc_list m,
             alloc_count := alloc_count m + 1,
             alloc_total_bytes := alloc_total_bytes m + sz\<rparr>)"

text \<open>The pointer-to-pointer walk of \<open>tracker_remove\<close>: \<open>None\<close> when it reaches the end.\<close>

fun tracker_unlink :: "nat \<Rightarrow> alloc_node list \<Rightarrow> alloc_node list option" where
  "tracker_unlink ptr [] = None"
| "tracker_unlink ptr (n # ns) =
     (if node_ptr n = ptr then Some ns else map_option ((#) n) (tracker_unlink ptr ns))"

definition tracker_remove :: "nat \<Rightarrow> u64 \<Rightarrow> mem_state \<Rightarrow> mem_state" where
  "tracker_remove ptr sz m =
     (case tracker_unlink ptr (alloc_list m) of
        None \<Rightarrow> m
      | Some ns \<Rightarrow> m\<lparr>alloc_list := ns,
                     alloc_count := alloc_count m - 1,
                     alloc_total_bytes := alloc_total_bytes m - sz\<rparr>)"

definition sodium_free :: "nat \<Rightarrow> mem_state \<Rightarrow> mem_state" where
  "sodium_free ptr m =
     (if regions m ptr = None then m\<lparr>heap_fault := True\<rparr>
      else m\<lparr>regions := (regions m)(ptr := None)\<rparr>)"

definition secure_memory_init :: "bool \<Rightarrow> mem_state \<Rightarrow> unit res \<times> mem_state" where
  "secure_memory_init sodium_init_ok m =
     (if initialized m then (Inr (), m)
      else if \<not> sodium_init_ok then (Inl ESys, m)
      else (Inr (), m\<lparr>initialized := True\<rparr>))"

text \<open>
  \<open>sm\<close> is what \<open>sodium_malloc\<close> returns: no memory, or an address and the byte the region is
  filled with.
\<close>

definition secure_alloc ::
  "(nat \<times> u8) option \<Rightarrow> bool \<Rightarrow> u64 \<Rightarrow> mem_state \<Rightarrow> nat option \<times> mem_state" where
  "secure_alloc sm node_ok sz m =
     (if \<not> initialized m \<or> sz = 0 then (None, m)
      else case sm of
             None \<Rightarrow> (None, m)
           | Some (ptr, fill) \<Rightarrow>
               (Some ptr,
                tracker_add node_ok ptr sz
                  (m\<lparr>regions := (regions m)(ptr \<mapsto> replicate (unat sz) fill)\<rparr>)))"

definition secure_free :: "nat option \<Rightarrow> u64 \<Rightarrow> mem_state \<Rightarrow> mem_state" where
  "secure_free ptr sz m =
     (case ptr of
        None \<Rightarrow> m
      | Some p \<Rightarrow> sodium_free p (tracker_remove p sz m))"

text \<open>Overwrites the first \<open>sz\<close> bytes of a buffer with zeros.\<close>

definition secure_wipe :: "bytes option \<Rightarrow> nat \<Rightarrow> bytes option" where
  "secure_wipe buf sz =
     (case buf of
        None \<Rightarrow> None
      | Some b \<Rightarrow> if sz = 0 then Some b else Some (replicate (min sz (length b)) 0 @ drop sz b))"

definition secure_emergency_wipe :: "mem_state \<Rightarrow> mem_state" where
  "secure_emergency_wipe m =
     (fold (\<lambda>n. sodium_free (node_ptr n)) (alloc_list m) m)
       \<lparr>alloc_list := [], alloc_count := 0, alloc_total_bytes := 0\<rparr>"

definition secure_memory_shutdown :: "mem_state \<Rightarrow> mem_state" where
  "secure_memory_shutdown m =
     (if \<not> initialized m then m else (secure_emergency_wipe m)\<lparr>initialized := False\<rparr>)"

definition secure_memory_stats :: "mem_state \<Rightarrow> u64 \<times> u64" where
  "secure_memory_stats m = (alloc_count m, alloc_total_bytes m)"

definition secure_memory_protect_readonly :: "bool \<Rightarrow> nat option \<Rightarrow> unit res" where
  "secure_memory_protect_readonly mprotect_ok ptr =
     (if ptr = None then Inl EInval else if mprotect_ok then Inr () else Inl ESys)"

definition secure_memory_protect_readwrite :: "bool \<Rightarrow> nat option \<Rightarrow> unit res" where
  "secure_memory_protect_readwrite mprotect_ok ptr =
     (if ptr = None then Inl EInval else if mprotect_ok then Inr () else Inl ESys)"

section \<open>The tracker's invariant\<close>

definition tracked :: "mem_state \<Rightarrow> nat list" where
  "tracked m = map node_ptr (alloc_list m)"

definition mem_inv :: "mem_state \<Rightarrow> bool" where
  "mem_inv m \<longleftrightarrow>
     alloc_count m = word_of_nat (length (alloc_list m)) \<and>
     alloc_total_bytes m = sum_list (map node_size (alloc_list m)) \<and>
     distinct (tracked m) \<and> (\<forall>p \<in> set (tracked m). regions m p \<noteq> None) \<and>
     \<not> heap_fault m"

definition fresh :: "(nat \<times> u8) option \<Rightarrow> mem_state \<Rightarrow> bool" where
  "fresh sm m \<longleftrightarrow> (case sm of None \<Rightarrow> True | Some (p, _) \<Rightarrow> regions m p = None)"

named_theorems mem_defs \<open>definitions of the secure-memory operations\<close>

lemmas mem_op_defs [mem_defs] =
  tracker_add_def tracker_remove_def sodium_free_def secure_memory_init_def secure_alloc_def
  secure_free_def secure_emergency_wipe_def secure_memory_shutdown_def

lemma unlink_notin: "ptr \<notin> node_ptr ` set ns \<Longrightarrow> tracker_unlink ptr ns = None"
  by (induction ns) auto

lemma unlink_in:
  "n \<in> set ns \<Longrightarrow> distinct (map node_ptr ns) \<Longrightarrow>
     \<exists>as bs. ns = as @ n # bs \<and> tracker_unlink (node_ptr n) ns = Some (as @ bs)"
proof (induction ns)
  case Nil
  then show ?case by simp
next
  case (Cons a ns)
  show ?case
  proof (cases "n = a")
    case True
    then have "a # ns = [] @ n # ns \<and> tracker_unlink (node_ptr n) (a # ns) = Some ([] @ ns)"
      by simp
    then show ?thesis by blast
  next
    case False
    then obtain as bs where "ns = as @ n # bs" "tracker_unlink (node_ptr n) ns = Some (as @ bs)"
      using Cons by auto
    moreover have "node_ptr a \<noteq> node_ptr n"
      using Cons.prems False by force
    ultimately have "a # ns = (a # as) @ n # bs \<and>
        tracker_unlink (node_ptr n) (a # ns) = Some ((a # as) @ bs)"
      by simp
    then show ?thesis by blast
  qed
qed

text \<open>Freeing a list of distinct live regions removes exactly those regions.\<close>

lemma fold_sodium_free:
  assumes "distinct ps" "\<forall>p \<in> set ps. regions m p \<noteq> None"
  shows "fold sodium_free ps m = m\<lparr>regions := regions m |` (- set ps)\<rparr>"
  using assms
proof (induction ps arbitrary: m)
  case Nil
  then show ?case by simp
next
  case (Cons p ps)
  let ?m = "m\<lparr>regions := (regions m)(p := None)\<rparr>"
  have "fold sodium_free ps ?m = ?m\<lparr>regions := regions ?m |` (- set ps)\<rparr>"
    by (rule Cons.IH) (use Cons.prems in auto)
  moreover have "regions ?m |` (- set ps) = regions m |` (- set (p # ps))"
    by (auto simp: restrict_map_def fun_eq_iff)
  moreover have "sodium_free p m = ?m"
    using Cons.prems by (auto simp: sodium_free_def)
  ultimately show ?case by simp
qed

lemma emergency_wipe_eq:
  assumes "mem_inv m"
  shows "secure_emergency_wipe m =
    m\<lparr>alloc_list := [], alloc_count := 0, alloc_total_bytes := 0,
      regions := regions m |` (- set (tracked m))\<rparr>"
proof -
  have "fold (\<lambda>n. sodium_free (node_ptr n)) (alloc_list m) m = fold sodium_free (tracked m) m"
    by (simp add: tracked_def fold_map comp_def)
  also have "\<dots> = m\<lparr>regions := regions m |` (- set (tracked m))\<rparr>"
    using assms by (intro fold_sodium_free) (auto simp: mem_inv_def)
  finally show ?thesis
    by (simp add: secure_emergency_wipe_def)
qed

section \<open>Every operation keeps the invariant\<close>

lemma mem_inv_start: "mem_inv mem_start"
  by (simp add: mem_inv_def mem_start_def tracked_def)

lemma mem_inv_init: "mem_inv m \<Longrightarrow> mem_inv (snd (secure_memory_init b m))"
  by (auto simp: secure_memory_init_def mem_inv_def tracked_def)

lemma mem_inv_alloc:
  assumes "mem_inv m" "fresh sm m"
  shows "mem_inv (snd (secure_alloc sm node_ok sz m))"
proof (cases "\<not> initialized m \<or> sz = 0 \<or> sm = None")
  case True
  then show ?thesis using assms(1) by (auto simp: secure_alloc_def)
next
  case False
  then obtain p fill where sm: "sm = Some (p, fill)" by auto
  with assms have "p \<notin> set (tracked m)" by (auto simp: mem_inv_def fresh_def)
  then show ?thesis
    using False assms(1)
    by (auto simp: sm secure_alloc_def tracker_add_def mem_inv_def tracked_def)
qed

lemma mem_inv_free:
  assumes "mem_inv m" "n \<in> set (alloc_list m)"
  shows "mem_inv (secure_free (Some (node_ptr n)) (node_size n) m)"
proof -
  from assms obtain as bs where l: "alloc_list m = as @ n # bs"
    "tracker_unlink (node_ptr n) (alloc_list m) = Some (as @ bs)"
    using unlink_in [of n "alloc_list m"] by (auto simp: mem_inv_def tracked_def)
  then have "regions m (node_ptr n) \<noteq> None"
    using assms(1) by (auto simp: mem_inv_def tracked_def)
  then show ?thesis
    using assms(1) l
    by (auto simp: secure_free_def tracker_remove_def sodium_free_def mem_inv_def tracked_def image_iff)
qed

lemma mem_inv_free_null: "mem_inv m \<Longrightarrow> mem_inv (secure_free None sz m)"
  by (simp add: secure_free_def)

lemma mem_inv_wipe: "mem_inv m \<Longrightarrow> mem_inv (secure_emergency_wipe m)"
  by (simp add: emergency_wipe_eq mem_inv_def tracked_def)

lemma mem_inv_shutdown: "mem_inv m \<Longrightarrow> mem_inv (secure_memory_shutdown m)"
  using mem_inv_wipe [of m] by (auto simp: secure_memory_shutdown_def mem_inv_def tracked_def)

text \<open>
  The histories of the subsystem: \<open>sodium_malloc\<close> returns addresses that are not in use, and
  a caller frees what it holds, with the size it asked for, as \<open>secure_memory.h\<close> demands.
\<close>

inductive mem_step :: "mem_state \<Rightarrow> mem_state \<Rightarrow> bool" where
  step_init: "mem_step m (snd (secure_memory_init b m))"
| step_alloc: "fresh sm m \<Longrightarrow> mem_step m (snd (secure_alloc sm node_ok sz m))"
| step_free: "n \<in> set (alloc_list m) \<Longrightarrow>
     mem_step m (secure_free (Some (node_ptr n)) (node_size n) m)"
| step_free_null: "mem_step m (secure_free None sz m)"
| step_wipe: "mem_step m (secure_emergency_wipe m)"
| step_shutdown: "mem_step m (secure_memory_shutdown m)"

lemma mem_step_inv: "mem_step m m' \<Longrightarrow> mem_inv m \<Longrightarrow> mem_inv m'"
  by (induction rule: mem_step.induct)
    (simp_all add: mem_inv_init mem_inv_alloc mem_inv_free mem_inv_free_null
      mem_inv_wipe mem_inv_shutdown)

text \<open>
  C20: in every state that a history of the secure-memory API reaches, the statistics are
  exact (\<open>alloc_count\<close> and \<open>alloc_total_bytes\<close> are the length and the sum of the tracker
  list, modulo the width of \<open>size_t\<close>), every tracked address is a live region tracked once,
  and no invalid \<open>sodium_free\<close> has happened.
\<close>

theorem reachable_mem_inv:
  assumes "mem_step\<^sup>*\<^sup>* mem_start m"
  shows "secure_memory_stats m =
      (word_of_nat (length (alloc_list m)), sum_list (map node_size (alloc_list m))) \<and>
    distinct (tracked m) \<and> set (tracked m) \<subseteq> dom (regions m) \<and> \<not> heap_fault m"
proof -
  from assms have "mem_inv m"
    by (induction rule: rtranclp_induct) (auto intro: mem_inv_start mem_step_inv)
  then show ?thesis
    by (auto simp: mem_inv_def secure_memory_stats_def)
qed

theorem reachable_mem_inv_witness:
  "mem_step\<^sup>*\<^sup>* mem_start (snd (secure_memory_init True mem_start)) \<and>
   secure_memory_stats (snd (secure_memory_init True mem_start)) = (0, 0)"
proof -
  have r: "mem_step\<^sup>*\<^sup>* mem_start (snd (secure_memory_init True mem_start))"
    by (rule r_into_rtranclp, rule step_init)
  moreover have "alloc_list (snd (secure_memory_init True mem_start)) = []"
    by (simp add: secure_memory_init_def mem_start_def)
  ultimately show ?thesis
    using reachable_mem_inv [OF r] by simp
qed

section \<open>Interface: scratch buffers\<close>

text \<open>
  How the rest of the engine uses the secure heap: it takes a buffer, uses it and gives it
  back on every path. The law of the interface is that this leaves no trace.
\<close>

locale scratch_memory =
  fixes alloc :: "'o \<Rightarrow> 'z \<Rightarrow> 's \<Rightarrow> nat option \<times> 's"
    and free :: "nat \<Rightarrow> 'z \<Rightarrow> 's \<Rightarrow> 's"
    and inv :: "'s \<Rightarrow> bool"
    and fair :: "'o \<Rightarrow> 's \<Rightarrow> bool"
  assumes alloc_inv: "inv s \<Longrightarrow> fair out s \<Longrightarrow> alloc out z s = (r, s') \<Longrightarrow> inv s'"
    and alloc_failed: "alloc out z s = (None, s') \<Longrightarrow> s' = s"
    and free_alloc: "inv s \<Longrightarrow> fair out s \<Longrightarrow> alloc out z s = (Some p, s') \<Longrightarrow> free p z s' = s"
begin

lemma borrow:
  assumes "inv s" "fair out s" "alloc out z s = (r, s')"
  shows "(case r of None \<Rightarrow> s' | Some p \<Rightarrow> free p z s') = s"
  using assms by (cases r) (auto dest: alloc_failed free_alloc)

lemma borrow_nested:
  assumes "inv s" "fair o1 s" "alloc o1 z1 s = (Some p, s1)"
    and "fair o2 s1" "alloc o2 z2 s1 = (Some q, s2)"
  shows "free p z1 (free q z2 s2) = s"
  using assms alloc_inv [of s o1 z1 "Some p" s1] free_alloc [of s1 o2 z2 q s2]
    free_alloc [of s o1 z1 p s1] by simp

end

lemma free_after_alloc:
  assumes "mem_inv m" "fresh sm m" "secure_alloc sm node_ok sz m = (Some p, m')"
  shows "secure_free (Some p) sz m' = m"
proof -
  from assms(3) obtain fill where sm: "sm = Some (p, fill)"
    and m': "m' = tracker_add node_ok p sz
      (m\<lparr>regions := (regions m)(p \<mapsto> replicate (unat sz) fill)\<rparr>)"
    by (auto simp: secure_alloc_def split: if_splits option.splits)
  have dead: "regions m p = None" using assms(2) by (simp add: sm fresh_def)
  then have "p \<notin> node_ptr ` set (alloc_list m)"
    using assms(1) by (auto simp: mem_inv_def tracked_def)
  then have untracked: "tracker_unlink p (alloc_list m) = None" by (rule unlink_notin)
  have "(regions m)(p := None) = regions m"
    using dead by (simp add: fun_upd_idem_iff)
  with untracked show ?thesis
    by (simp add: m' secure_free_def tracker_remove_def tracker_add_def sodium_free_def)
qed

text \<open>
  The buffer below the top of the stack can be given back first: what remains is as if only
  the second buffer had been taken.
\<close>

lemma free_below:
  assumes "mem_inv m" "fresh sm1 m" "secure_alloc sm1 n1 z1 m = (Some p, m1)"
    and "fresh sm2 m1" "secure_alloc sm2 n2 z2 m1 = (Some q, m2)"
  shows "secure_free (Some p) z1 m2 = snd (secure_alloc sm2 n2 z2 m)"
proof -
  from assms(3) obtain f1 where sm1: "sm1 = Some (p, f1)" and z1: "initialized m" "z1 \<noteq> 0"
    and m1: "m1 = tracker_add n1 p z1 (m\<lparr>regions := (regions m)(p \<mapsto> replicate (unat z1) f1)\<rparr>)"
    by (auto simp: secure_alloc_def split: if_splits option.splits)
  from assms(5) obtain f2 where sm2: "sm2 = Some (q, f2)" and z2: "z2 \<noteq> 0"
    and m2: "m2 = tracker_add n2 q z2 (m1\<lparr>regions := (regions m1)(q \<mapsto> replicate (unat z2) f2)\<rparr>)"
    by (auto simp: secure_alloc_def split: if_splits option.splits)
  have dead: "regions m p = None" using assms(2) by (simp add: sm1 fresh_def)
  then have "p \<notin> node_ptr ` set (alloc_list m)"
    using assms(1) by (auto simp: mem_inv_def tracked_def)
  then have un: "tracker_unlink p (alloc_list m) = None" by (rule unlink_notin)
  have "q \<noteq> p" using assms(4) by (auto simp: sm2 fresh_def m1 tracker_add_def split: if_splits)
  moreover have "((regions m)(p \<mapsto> x, q \<mapsto> y))(p := None) = (regions m)(q \<mapsto> y)" for x y
    using dead calculation by (auto simp: fun_eq_iff)
  moreover have "a + x + y - x = a + y" for a x y :: u64 by simp
  ultimately show ?thesis
    using un z1 z2
    by (cases n1; cases n2; simp add: m2 m1 sm2 secure_alloc_def secure_free_def
        tracker_remove_def tracker_add_def sodium_free_def)
qed

interpretation sm: scratch_memory
  "\<lambda>(sm, node_ok). secure_alloc sm node_ok" "\<lambda>p. secure_free (Some p)"
  mem_inv "\<lambda>(sm, node_ok). fresh sm"
proof (unfold_locales, goal_cases)
  case (1 s out z r s')
  then show ?case using mem_inv_alloc [of s "fst out" "snd out" z] by (auto split: prod.splits)
next
  case (2 out z s s')
  then show ?case by (auto simp: secure_alloc_def split: prod.splits if_splits option.splits)
next
  case (3 s out z p s')
  then show ?case by (auto intro: free_after_alloc split: prod.splits)
qed

section \<open>Emergency wipe\<close>

text \<open>
  An emergency wipe destroys every tracked secure allocation and nothing else, without
  an invalid free, and resets the statistics to zero.
\<close>

theorem emergency_wipe_destroys_tracked:
  assumes "mem_inv m"
  shows "(\<forall>p. regions (secure_emergency_wipe m) p =
            (if p \<in> set (tracked m) then None else regions m p)) \<and>
         secure_memory_stats (secure_emergency_wipe m) = (0, 0) \<and>
         \<not> heap_fault (secure_emergency_wipe m)"
  using assms
  by (auto simp: emergency_wipe_eq secure_memory_stats_def mem_inv_def restrict_map_def)

definition mem_example :: mem_state where
  "mem_example = snd (secure_alloc (Some (4096, 0xdb)) True 32 (snd (secure_memory_init True mem_start)))"

lemma mem_example_inv: "mem_inv mem_example"
  unfolding mem_example_def
  by (rule mem_inv_alloc [OF mem_inv_init [OF mem_inv_start]])
    (simp add: fresh_def secure_memory_init_def mem_start_def)

theorem emergency_wipe_destroys_tracked_witness:
  "regions mem_example 4096 = Some (replicate 32 0xdb) \<and>
   regions (secure_emergency_wipe mem_example) 4096 = None"
proof -
  have "4096 \<in> set (tracked mem_example)" "regions mem_example 4096 = Some (replicate 32 0xdb)"
    by (simp_all add: mem_example_def secure_alloc_def secure_memory_init_def mem_start_def
        tracker_add_def tracked_def)
  then show ?thesis
    using emergency_wipe_destroys_tracked [OF mem_example_inv] by simp
qed

text \<open>
  \<open>tracker_add\<close> gives up silently when the \<open>malloc\<close> of its node fails, so the caller
  gets a secure buffer that an emergency wipe does not reach.
\<close>

theorem untracked_alloc_survives_wipe:
  assumes "mem_inv m" "initialized m" "sz \<noteq> 0" "regions m p = None"
  shows "\<exists>m'. secure_alloc (Some (p, fill)) False sz m = (Some p, m') \<and>
              regions (secure_emergency_wipe m') p = Some (replicate (unat sz) fill)"
proof -
  let ?m = "m\<lparr>regions := (regions m)(p \<mapsto> replicate (unat sz) fill)\<rparr>"
  have "secure_alloc (Some (p, fill)) False sz m = (Some p, ?m)"
    using assms(2,3) by (simp add: secure_alloc_def tracker_add_def)
  moreover have "mem_inv ?m"
    using mem_inv_alloc [OF assms(1), of "Some (p, fill)" False sz] calculation assms(4)
    by (simp add: fresh_def)
  moreover have "p \<notin> set (tracked ?m)"
    using assms(1,4) by (auto simp: mem_inv_def tracked_def)
  ultimately show ?thesis
    by (simp add: emergency_wipe_eq)
qed

theorem untracked_alloc_survives_wipe_witness:
  "\<exists>m'. secure_alloc (Some (8192, 0xdb)) False 32 mem_example = (Some 8192, m') \<and>
        regions (secure_emergency_wipe m') 8192 = Some (replicate 32 0xdb)"
proof -
  have "initialized mem_example" "regions mem_example 8192 = None"
    by (simp_all add: mem_example_def secure_alloc_def secure_memory_init_def mem_start_def
        tracker_add_def)
  then show ?thesis
    using untracked_alloc_survives_wipe [OF mem_example_inv, of 32 8192 "0xdb"] by simp
qed

text \<open>The state after a successful initialisation, which the examples of the clients start from.\<close>

definition mem0 :: mem_state where
  "mem0 = snd (secure_memory_init True mem_start)"

lemma mem0_facts [simp]: "mem_inv mem0" "initialized mem0" "regions mem0 p = None"
  by (simp_all add: mem0_def mem_inv_init mem_inv_start)
    (simp_all add: secure_memory_init_def mem_start_def)

end
