(* ===== verification/Key_Storage.thy ===== *)
theory Key_Storage
  imports Crypto_Core Secure_Memory C_Strings
begin

text \<open>
  \<open>crypticengine/src/key_storage.c\<close>: the master key and the keyring file. The state is the
  file system (the two files \<open>KEYSTORE_MASTER_PATH\<close> and \<open>KEYSTORE_PATH\<close>, as bytes) and the
  secure memory. The entries of the keyring are the on-disk records of \<open>keystore_store\<close>; the
  reading loops of \<open>keystore_retrieve\<close> and \<open>keystore_list\<close> are recursive functions on what is
  left of the file. Outcomes of allocation, opening and time are arguments.
\<close>

section \<open>Data\<close>

abbreviation (input) KEYSTORE_NAME_MAX :: nat where "KEYSTORE_NAME_MAX \<equiv> 64"
abbreviation (input) KEYSTORE_MAX_KEYS :: nat where "KEYSTORE_MAX_KEYS \<equiv> 128"

definition KEYSTORE_PATH :: path where "KEYSTORE_PATH = ''/etc/securez/keystore.db''"
definition KEYSTORE_MASTER_PATH :: path where "KEYSTORE_MASTER_PATH = ''/etc/securez/master.key''"

lemma keystore_paths_differ [simp]: "KEYSTORE_PATH \<noteq> KEYSTORE_MASTER_PATH"
  "KEYSTORE_MASTER_PATH \<noteq> KEYSTORE_PATH"
  by (simp_all add: KEYSTORE_PATH_def KEYSTORE_MASTER_PATH_def)

record ks_entry =
  e_name :: bytes
  e_type :: u32
  e_created :: u64
  e_salt :: bytes
  e_nonce :: bytes
  e_data :: bytes

record key_info =
  ki_name :: string
  ki_type :: u32
  ki_key_len :: nat
  ki_created_at :: u64
  ki_last_used :: u64
  ki_locked :: int

text \<open>
  The bytes \<open>keystore_store\<close> writes: the name length is truncated to 16 bits and that many
  bytes of the name follow; the length of the encrypted key is truncated to 32 bits.
\<close>

definition put_entry :: "ks_entry \<Rightarrow> bytes" where
  "put_entry e =
     (let name_len = (word_of_nat (length (e_name e)) :: u16)
      in put_u16 name_len @ take (unat name_len) (e_name e) @ put_u32 (e_type e) @
         put_u64 (e_created e) @ put_u32 (word_of_nat (length (e_data e))) @
         e_salt e @ e_nonce e @ e_data e)"

section \<open>Reading the keyring\<close>

text \<open>
  The reads of one iteration up to the nonce: the end of the file (or a short read) ends the
  loop, an over-long name aborts it.
\<close>

datatype ks_head = HeadEnd | HeadBad | Head bytes u32 u64 u32 bytes bytes bytes

definition read_head :: "bytes \<Rightarrow> ks_head" where
  "read_head bs =
     (case fread_all 2 bs of None \<Rightarrow> HeadEnd | Some (nl, bs1) \<Rightarrow>
      let n = unat (val_u16 nl) in
      if n \<ge> KEYSTORE_NAME_MAX then HeadBad
      else case fread_all n bs1 of None \<Rightarrow> HeadEnd | Some (name, bs2) \<Rightarrow>
        (case fread_all 4 bs2 of None \<Rightarrow> HeadEnd | Some (ty, bs3) \<Rightarrow>
        (case fread_all 8 bs3 of None \<Rightarrow> HeadEnd | Some (ts, bs4) \<Rightarrow>
        (case fread_all 4 bs4 of None \<Rightarrow> HeadEnd | Some (el, bs5) \<Rightarrow>
        (case fread_all CRYPTIC_SALT_LEN bs5 of None \<Rightarrow> HeadEnd | Some (salt, bs6) \<Rightarrow>
        (case fread_all CRYPTIC_NONCE_LEN bs6 of None \<Rightarrow> HeadEnd | Some (nonce, bs7) \<Rightarrow>
           Head name (val_u32 ty) (val_u64 ts) (val_u32 el) salt nonce bs7))))))"

lemma read_head_shorter:
  "read_head bs = Head name ty ts el salt nonce rest \<Longrightarrow> length rest < length bs"
  by (auto simp: read_head_def Let_def split: option.splits if_splits prod.splits
      dest!: fread_all_shorter)

text \<open>
  The scan of \<open>keystore_retrieve\<close> up to the entry with the name asked for: its salt, nonce
  and ciphertext length, and the stream behind them. \<open>fseek\<close> may move beyond the end.
\<close>

datatype ks_scan = ScanFound bytes bytes u32 bytes | ScanMissing | ScanAbort

function scan_for :: "string \<Rightarrow> bytes \<Rightarrow> ks_scan" where
  "scan_for name bs =
     (case read_head bs of
        HeadEnd \<Rightarrow> ScanMissing
      | HeadBad \<Rightarrow> ScanAbort
      | Head nm ty ts el salt nonce rest \<Rightarrow>
          if cstr (of_bytes nm) = name then ScanFound salt nonce el rest
          else scan_for name (drop (unat el) rest))"
  by pat_completeness auto
termination
  by (relation "measure (\<lambda>(name, bs). length bs)") (auto dest!: read_head_shorter simp: less_imp_diff_less)

declare scan_for.simps [simp del]

text \<open>
  The scan of \<open>keystore_list\<close>, \<open>room\<close> entries at most. It does not read salt and nonce but
  skips them with the ciphertext, in 32-bit arithmetic.
\<close>

definition list_head :: "bytes \<Rightarrow> (key_info \<times> bytes) option" where
  "list_head bs =
     (case fread_all 2 bs of None \<Rightarrow> None | Some (nl, bs1) \<Rightarrow>
      let n = unat (val_u16 nl) in
      if n \<ge> KEYSTORE_NAME_MAX then None
      else case fread_all n bs1 of None \<Rightarrow> None | Some (name, bs2) \<Rightarrow>
        (case fread_all 4 bs2 of None \<Rightarrow> None | Some (ty, bs3) \<Rightarrow>
        (case fread_all 8 bs3 of None \<Rightarrow> None | Some (ts, bs4) \<Rightarrow>
        (case fread_all 4 bs4 of None \<Rightarrow> None | Some (el, bs5) \<Rightarrow>
           Some (\<lparr>ki_name = cstr (of_bytes name), ki_type = val_u32 ty, ki_key_len = unat (val_u32 el),
                  ki_created_at = val_u64 ts, ki_last_used = 0, ki_locked = 0\<rparr>,
                 drop (unat (16 + 24 + val_u32 el)) bs5)))))"

fun list_from :: "nat \<Rightarrow> bytes \<Rightarrow> key_info list" where
  "list_from 0 bs = []"
| "list_from (Suc room) bs =
     (case list_head bs of None \<Rightarrow> [] | Some (k, rest) \<Rightarrow> k # list_from room rest)"

section \<open>The master key\<close>

text \<open>\<open>keystore_ready\<close>, and the directories \<open>ensure_dir\<close> creates when they do not exist.\<close>

definition ensure_dir :: "(path \<Rightarrow> bool) \<Rightarrow> path \<Rightarrow> path list" where
  "ensure_dir dir_exists p = (if dir_exists p then [] else [p])"

definition keystore_init :: "(path \<Rightarrow> bool) \<Rightarrow> bool \<Rightarrow> unit res \<times> bool \<times> path list" where
  "keystore_init dir_exists keystore_ready =
     (if keystore_ready then (Inr (), True, [])
      else (Inr (), True, ensure_dir dir_exists ''/etc/securez'' @ ensure_dir dir_exists ''/var/lib/securez''))"

definition keystore_shutdown :: "bool \<Rightarrow> bool" where
  "keystore_shutdown keystore_ready = False"

text \<open>
  The results of \<open>fprintf\<close> and \<open>fclose\<close> are ignored: \<open>torn\<close> says how much of the line reaches the
  file when not all of it does.
\<close>

definition keystore_master_setup ::
  "sodium \<Rightarrow> bytes \<Rightarrow> bool \<Rightarrow> nat option \<Rightarrow> string option \<Rightarrow> fs \<Rightarrow> unit res \<times> fs" where
  "keystore_master_setup S salt fopen_ok torn password files =
     (case password of
        None \<Rightarrow> (Inl EInval, files)
      | Some pw \<Rightarrow>
          if length pw < 16 then (Inl ETooSmall, files)
          else if files KEYSTORE_MASTER_PATH \<noteq> None then (Inl EExists, files)
          else case s_pwhash_str S salt pw of
                 None \<Rightarrow> (Inl ENoMem, files)
               | Some hash_str \<Rightarrow>
                   if \<not> fopen_ok then (Inl EOpen, files)
                   else (Inr (), files(KEYSTORE_MASTER_PATH \<mapsto> flushed torn (to_bytes (hash_str @ [CHR 0x0A])))))"

definition keystore_master_verify :: "sodium \<Rightarrow> bool \<Rightarrow> string option \<Rightarrow> fs \<Rightarrow> unit res" where
  "keystore_master_verify S fopen_ok password files =
     (case password of
        None \<Rightarrow> Inl EInval
      | Some pw \<Rightarrow>
          (case (if fopen_ok then files KEYSTORE_MASTER_PATH else None) of
             None \<Rightarrow> Inl EOpen
           | Some content \<Rightarrow>
               (case fgets crypto_pwhash_STRBYTES (of_bytes content) of
                  None \<Rightarrow> Inl EIo
                | Some (line, _) \<Rightarrow>
                    if s_pwhash_str_verify S (strip_newline (cstr line)) pw then Inr ()
                    else Inl EAuth)))"

text \<open>When the old file cannot be removed, \<open>keystore_master_setup\<close> finds it and refuses.\<close>

definition keystore_master_change ::
  "sodium \<Rightarrow> bytes \<Rightarrow> bool \<Rightarrow> bool \<Rightarrow> bool \<Rightarrow> nat option \<Rightarrow> string option \<Rightarrow> string option \<Rightarrow> fs \<Rightarrow>
   unit res \<times> fs" where
  "keystore_master_change S salt ropen_ok unlink_ok wopen_ok torn old_password new_password files =
     (case (old_password, new_password) of
        (Some old_pw, Some new_pw) \<Rightarrow>
          (case keystore_master_verify S ropen_ok (Some old_pw) files of
             Inl e \<Rightarrow> (Inl e, files)
           | Inr _ \<Rightarrow>
               if length new_pw < 16 then (Inl ETooSmall, files)
               else keystore_master_setup S salt wopen_ok torn (Some new_pw)
                      (if unlink_ok then files(KEYSTORE_MASTER_PATH := None) else files))
      | _ \<Rightarrow> (Inl EInval, files))"

section \<open>Storing, retrieving, listing\<close>

record store_env =
  se_verify_open :: bool
  se_salt :: "nat \<Rightarrow> u8"
  se_nonce :: "nat \<Rightarrow> u8"
  se_key_mem :: "(nat \<times> u8) option"
  se_key_node :: bool
  se_malloc_ok :: bool
  se_append_ok :: bool
  se_create_ok :: bool
  se_time :: u64
  se_torn :: "nat option"

text \<open>
  When the file cannot be opened for appending it is created anew, which truncates it. The
  results of \<open>fwrite\<close> and \<open>fclose\<close> are not looked at: \<open>se_torn\<close> says how many bytes of the record
  reach the file when not all of them do (a full disk, a crash).
\<close>

definition written :: "store_env \<Rightarrow> bytes \<Rightarrow> bytes" where
  "written v bs = flushed (se_torn v) bs"

definition keystore_store ::
  "sodium \<Rightarrow> store_env \<Rightarrow> string option \<Rightarrow> u32 \<Rightarrow> bytes option \<Rightarrow> string option \<Rightarrow> fs \<times> mem_state \<Rightarrow>
   unit res \<times> fs \<times> mem_state" where
  "keystore_store S v name_p ty key_data master_pw w =
     (case (name_p, key_data, master_pw) of
        (Some name, Some key, Some pw) \<Rightarrow>
          if key = [] then (Inl EInval, w)
          else (case keystore_master_verify S (se_verify_open v) (Some pw) (fst w) of
            Inl e \<Rightarrow> (Inl e, w)
          | Inr _ \<Rightarrow>
            let salt = crypto_generate_salt (se_salt v) in
            (case secure_alloc (se_key_mem v) (se_key_node v) 32 (snd w) of
               (None, m1) \<Rightarrow> (Inl ENoMem, fst w, m1)
             | (Some wrap_key, m1) \<Rightarrow>
               (case derive_normal S pw salt of
                  Inl e \<Rightarrow> (Inl e, fst w, secure_free (Some wrap_key) 32 m1)
                | Inr k \<Rightarrow>
                  let nonce = crypto_random_bytes (se_nonce v) CRYPTIC_NONCE_LEN in
                  if \<not> se_malloc_ok v then (Inl ENoMem, fst w, secure_free (Some wrap_key) 32 m1)
                  else (case crypto_encrypt_buffer S True (Some key) (Some nonce) (Some k) of
                     Inl e \<Rightarrow> (Inl e, fst w, secure_free (Some wrap_key) 32 m1)
                   | Inr ct \<Rightarrow>
                     let m2 = secure_free (Some wrap_key) 32 m1;
                         old = (if se_append_ok v
                                then (case fst w KEYSTORE_PATH of None \<Rightarrow> [] | Some c \<Rightarrow> c) else []);
                         entry = \<lparr>e_name = to_bytes name, e_type = ty, e_created = se_time v,
                                  e_salt = salt, e_nonce = nonce, e_data = ct\<rparr>
                     in if \<not> se_append_ok v \<and> \<not> se_create_ok v then (Inl EOpen, fst w, m2)
                        else (Inr (), (fst w)(KEYSTORE_PATH \<mapsto> old @ written v (put_entry entry)), m2)))))
      | _ \<Rightarrow> (Inl EInval, w))"

record retrieve_env =
  re_verify_open :: bool
  re_open_ok :: bool
  re_malloc_ok :: bool
  re_wrap_mem :: "(nat \<times> u8) option"
  re_wrap_node :: bool
  re_data_mem :: "(nat \<times> u8) option"
  re_data_node :: bool

text \<open>
  A successful retrieval returns the address of the buffer and the key; \<open>*key_len\<close> is the
  length of the key, the buffer is as long as the ciphertext.
\<close>

definition write_region :: "nat \<Rightarrow> bytes \<Rightarrow> mem_state \<Rightarrow> mem_state" where
  "write_region p d m =
     (case regions m p of
        None \<Rightarrow> m\<lparr>heap_fault := True\<rparr>
      | Some old \<Rightarrow> m\<lparr>regions := (regions m)(p \<mapsto> d @ drop (length d) old)\<rparr>)"

definition keystore_retrieve ::
  "sodium \<Rightarrow> retrieve_env \<Rightarrow> string option \<Rightarrow> bool \<Rightarrow> string option \<Rightarrow> fs \<times> mem_state \<Rightarrow>
   (nat \<times> bytes) res \<times> mem_state" where
  "keystore_retrieve S v name_p out_p master_pw w =
     (case (name_p, master_pw) of
        (Some name, Some pw) \<Rightarrow>
          if \<not> out_p then (Inl EInval, snd w)
          else (case keystore_master_verify S (re_verify_open v) (Some pw) (fst w) of
            Inl e \<Rightarrow> (Inl e, snd w)
          | Inr _ \<Rightarrow>
            (case (if re_open_ok v then fst w KEYSTORE_PATH else None) of
               None \<Rightarrow> (Inl EOpen, snd w)
             | Some content \<Rightarrow>
               (case scan_for name content of
                  ScanMissing \<Rightarrow> (Inl ENotFound, snd w)
                | ScanAbort \<Rightarrow> (Inl EFormat, snd w)
                | ScanFound salt nonce enc_len rest \<Rightarrow>
                  if \<not> re_malloc_ok v then (Inl ENoMem, snd w)
                  else (case fread_all (unat enc_len) rest of
                    None \<Rightarrow> (Inl EIo, snd w)
                  | Some (encrypted, _) \<Rightarrow>
                    (case secure_alloc (re_wrap_mem v) (re_wrap_node v) 32 (snd w) of
                       (None, m1) \<Rightarrow> (Inl ENoMem, m1)
                     | (Some wrap_key, m1) \<Rightarrow>
                       (case derive_normal S pw salt of
                          Inl e \<Rightarrow> (Inl e, secure_free (Some wrap_key) 32 m1)
                        | Inr k \<Rightarrow>
                          (case secure_alloc (re_data_mem v) (re_data_node v) (ucast enc_len) m1 of
                             (None, m2) \<Rightarrow> (Inl ENoMem, secure_free (Some wrap_key) 32 m2)
                           | (Some data, m2) \<Rightarrow>
                             (case crypto_decrypt_buffer S True (Some encrypted) (Some nonce) (Some k) of
                                Inl e \<Rightarrow> (Inl e, secure_free (Some data) (ucast enc_len)
                                                   (secure_free (Some wrap_key) 32 m2))
                              | Inr key \<Rightarrow>
                                (Inr (data, key),
                                 secure_free (Some wrap_key) 32 (write_region data key m2))))))))))
      | _ \<Rightarrow> (Inl EInval, snd w))"

definition keystore_delete :: "string \<Rightarrow> string \<Rightarrow> fs \<Rightarrow> unit res \<times> fs" where
  "keystore_delete name master_pw files = (Inl EUnsupported, files)"

definition keystore_list :: "bool \<Rightarrow> bool \<Rightarrow> fs \<Rightarrow> key_info list res" where
  "keystore_list out_p fopen_ok files =
     (if \<not> out_p then Inl EInval
      else case (if fopen_ok then files KEYSTORE_PATH else None) of
             None \<Rightarrow> Inr []
           | Some content \<Rightarrow> Inr (list_from KEYSTORE_MAX_KEYS content))"

text \<open>
  The emergency wipe. Could the two files be opened, was there a buffer, how much of the random
  bytes reached the disk, could the files be removed: the results of \<open>fwrite\<close>, \<open>fclose\<close> and \<open>unlink\<close>
  are not looked at, and the operation reports success in any case. A keyring file of length 0
  is left alone. Beside the files, what was written over the old content.
\<close>

record wipe_env =
  wp_random1 :: "nat \<Rightarrow> u8"
  wp_open1 :: bool
  wp_malloc :: bool
  wp_torn1 :: "nat option"
  wp_unlink1 :: bool
  wp_random2 :: "nat \<Rightarrow> u8"
  wp_open2 :: bool
  wp_torn2 :: "nat option"
  wp_unlink2 :: bool

definition overwrite_front :: "bytes \<Rightarrow> bytes \<Rightarrow> bytes" where
  "overwrite_front d c = d @ drop (length d) c"

definition keystore_emergency_wipe :: "wipe_env \<Rightarrow> fs \<Rightarrow> unit res \<times> (path \<times> bytes) list \<times> fs" where
  "keystore_emergency_wipe v files =
     (let (w1, files1) =
            (case files KEYSTORE_PATH of
               None \<Rightarrow> ([], files)
             | Some c \<Rightarrow>
                 if length c > 0
                 then let d = (if wp_open1 v \<and> wp_malloc v
                               then flushed (wp_torn1 v) (randombytes_buf (wp_random1 v) (length c)) else [])
                      in ([(KEYSTORE_PATH, d)],
                          files(KEYSTORE_PATH := if wp_unlink1 v then None else Some (overwrite_front d c)))
                 else ([], files));
          (w2, files2) =
            (case files1 KEYSTORE_MASTER_PATH of
               None \<Rightarrow> ([], files1)
             | Some c \<Rightarrow>
                 let d = (if wp_open2 v then flushed (wp_torn2 v) (randombytes_buf (wp_random2 v) 256) else [])
                 in ([(KEYSTORE_MASTER_PATH, d)],
                     files1(KEYSTORE_MASTER_PATH := if wp_unlink2 v then None else Some (overwrite_front d c))))
      in (Inr (), w1 @ w2, files2))"

section \<open>The keyring as a list of entries\<close>

definition wf_entry :: "ks_entry \<Rightarrow> bool" where
  "wf_entry e \<longleftrightarrow>
     length (e_name e) < KEYSTORE_NAME_MAX \<and> length (e_salt e) = CRYPTIC_SALT_LEN \<and>
     length (e_nonce e) = CRYPTIC_NONCE_LEN \<and> length (e_data e) < 2 ^ 32"

definition entry_name :: "ks_entry \<Rightarrow> string" where
  "entry_name e = cstr (of_bytes (e_name e))"

definition ks_get_entry :: "bytes \<Rightarrow> (ks_entry \<times> bytes) option" where
  "ks_get_entry bs =
     (case read_head bs of
        Head nm ty ts el salt nonce rest \<Rightarrow>
          map_option (\<lambda>(d, r). (\<lparr>e_name = nm, e_type = ty, e_created = ts, e_salt = salt,
            e_nonce = nonce, e_data = d\<rparr>, r)) (fread_all (unat el) rest)
      | _ \<Rightarrow> None)"

lemma read_head_put:
  assumes "wf_entry e"
  shows "read_head (put_entry e @ rest) =
    Head (e_name e) (e_type e) (e_created e) (word_of_nat (length (e_data e)))
      (e_salt e) (e_nonce e) (e_data e @ rest)"
  using assms
  by (simp add: wf_entry_def put_entry_def read_head_def Let_def unat_word_of_nat_16)

interpretation ks: codec put_entry ks_get_entry wf_entry
proof
  fix e rest
  assume "wf_entry e"
  then show "ks_get_entry (put_entry e @ rest) = Some (e, rest)"
    by (simp add: ks_get_entry_def read_head_put) (simp add: wf_entry_def unat_word_of_nat_32)
qed

definition keyring :: "ks_entry list \<Rightarrow> bytes" where
  "keyring es = concat (map put_entry es)"

lemma keyring_simps [simp]:
  "keyring [] = []" "keyring (e # es) = put_entry e @ keyring es"
  "keyring (es @ fs) = keyring es @ keyring fs"
  by (simp_all add: keyring_def)

text \<open>A keyring file determines its entries (two readings of equal length agree).\<close>

lemma keyring_inj:
  assumes "\<forall>e \<in> set es. wf_entry e" "\<forall>e \<in> set fs. wf_entry e" "length es = length fs"
    and "keyring es = keyring fs"
  shows "es = fs"
  using ks.stream_determines_records [of es fs "[]" "[]"] assms by (simp add: keyring_def)

lemma scan_hit:
  "wf_entry e \<Longrightarrow> entry_name e = name \<Longrightarrow>
   scan_for name (put_entry e @ rest) =
     ScanFound (e_salt e) (e_nonce e) (word_of_nat (length (e_data e))) (e_data e @ rest)"
  by (subst scan_for.simps) (simp add: read_head_put entry_name_def)

lemma scan_skip:
  "\<forall>e \<in> set es. wf_entry e \<Longrightarrow> name \<notin> entry_name ` set es \<Longrightarrow>
   scan_for name (keyring es @ rest) = scan_for name rest"
proof (induction es)
  case (Cons e es)
  then have e: "wf_entry e" "cstr (of_bytes (e_name e)) \<noteq> name" by (auto simp: entry_name_def)
  then have "scan_for name (put_entry e @ keyring es @ rest) = scan_for name (keyring es @ rest)"
    by (subst scan_for.simps) (simp add: read_head_put unat_word_of_nat_32 wf_entry_def)
  with Cons show ?case by simp
qed simp

lemma scan_nil: "scan_for name [] = ScanMissing"
  by (subst scan_for.simps) (simp add: read_head_def fread_all_def)

lemma scan_overlong:
  assumes "KEYSTORE_NAME_MAX \<le> length (e_name e)" "length (e_name e) < 65536"
  shows "scan_for name (put_entry e @ rest) = ScanAbort"
  using assms
  by (subst scan_for.simps) (simp add: put_entry_def read_head_def unat_word_of_nat_16)

text \<open>The scan finds the first entry of that name; what it leaves unread does not matter.\<close>

lemma scan_first:
  assumes "\<forall>e \<in> set es. wf_entry e" "name \<in> entry_name ` set es"
  obtains e rest where "e \<in> set es"
    "\<And>tail. scan_for name (keyring es @ tail) =
       ScanFound (e_salt e) (e_nonce e) (word_of_nat (length (e_data e))) (e_data e @ rest @ tail)"
proof -
  from assms(2) obtain e0 where "e0 \<in> set es" "entry_name e0 = name" by auto
  then obtain as e bs where es: "es = as @ e # bs" "entry_name e = name"
    "\<forall>x \<in> set as. entry_name x \<noteq> name"
    using split_list_first_prop [of es "\<lambda>x. entry_name x = name"] by blast
  show thesis
  proof
    show "e \<in> set es" by (simp add: es(1))
    show "scan_for name (keyring es @ tail) = ScanFound (e_salt e) (e_nonce e)
       (word_of_nat (length (e_data e))) (e_data e @ keyring bs @ tail)" for tail
    proof -
      have "name \<notin> entry_name ` set as" using es(3) by auto
      then show ?thesis
        using scan_skip [of as name "put_entry e @ keyring bs @ tail"] es assms(1)
        by (simp add: scan_hit)
    qed
  qed
qed

section \<open>Storing, then retrieving\<close>

text \<open>What a successful \<open>keystore_store\<close> has done.\<close>

lemma keystore_store_ok:
  assumes "keystore_store S v (Some name) ty (Some key) (Some pw) (files, m) = (Inr (), files', m')"
  obtains k ct where
    "keystore_master_verify S (se_verify_open v) (Some pw) files = Inr ()"
    "derive_normal S pw (crypto_generate_salt (se_salt v)) = Inr k"
    "crypto_encrypt_buffer S True (Some key) (Some (crypto_random_bytes (se_nonce v) 24)) (Some k) = Inr ct"
    "files' = files(KEYSTORE_PATH \<mapsto>
       (if se_append_ok v then (case files KEYSTORE_PATH of None \<Rightarrow> [] | Some c \<Rightarrow> c) else []) @
       written v (put_entry \<lparr>e_name = to_bytes name, e_type = ty, e_created = se_time v,
         e_salt = crypto_generate_salt (se_salt v), e_nonce = crypto_random_bytes (se_nonce v) 24,
         e_data = ct\<rparr>))"
  using assms
  by (auto simp: keystore_store_def Let_def simp del: derive_key_Some encrypt_buffer_Some
      split: if_splits sum.splits option.splits prod.splits)

lemma keystore_store_entry:
  assumes "keystore_store S v (Some name) ty (Some key) (Some pw) (files, m) = (Inr (), files', m')"
  obtains e where "e_name e = to_bytes name" "length (e_salt e) = CRYPTIC_SALT_LEN"
    "length (e_nonce e) = CRYPTIC_NONCE_LEN"
    "aead_correct S \<Longrightarrow> pwhash_sized S \<Longrightarrow> length (e_data e) = length key + CRYPTIC_MAC_LEN"
    "files' = files(KEYSTORE_PATH \<mapsto>
       (if se_append_ok v then (case files KEYSTORE_PATH of None \<Rightarrow> [] | Some c \<Rightarrow> c) else []) @
       written v (put_entry e))"
proof -
  from assms obtain k ct where
    ct: "crypto_encrypt_buffer S True (Some key) (Some (crypto_random_bytes (se_nonce v) 24)) (Some k) = Inr ct"
    and files': "files' = files(KEYSTORE_PATH \<mapsto>
       (if se_append_ok v then (case files KEYSTORE_PATH of None \<Rightarrow> [] | Some c \<Rightarrow> c) else []) @
       written v (put_entry \<lparr>e_name = to_bytes name, e_type = ty, e_created = se_time v,
         e_salt = crypto_generate_salt (se_salt v), e_nonce = crypto_random_bytes (se_nonce v) 24,
         e_data = ct\<rparr>))"
    by (elim keystore_store_ok)
  show thesis
    by (rule that [OF _ _ _ _ files']) (use ct cc.seal_length [of S key _ k ct] in auto)
qed

text \<open>
  The key a retrieval returns depends on the files only through the verification of the
  password and the scan.
\<close>

lemma keystore_retrieve_cong:
  assumes "f KEYSTORE_MASTER_PATH = g KEYSTORE_MASTER_PATH"
    "f KEYSTORE_PATH = Some c" "g KEYSTORE_PATH = Some d"
    "scan_for name c = ScanFound salt nonce el (x @ y)" "scan_for name d = ScanFound salt nonce el (x @ z)"
    "unat el = length x"
  shows "keystore_retrieve S v (Some name) out (Some pw) (f, m) =
         keystore_retrieve S v (Some name) out (Some pw) (g, m)"
proof -
  have "keystore_master_verify S b (Some pw) f = keystore_master_verify S b (Some pw) g" for b
    using assms(1) by (simp add: keystore_master_verify_def)
  then show ?thesis
    using assms(2-)
    by (cases "keystore_master_verify S (re_verify_open v) (Some pw) g"; cases "re_open_ok v")
      (simp_all add: keystore_retrieve_def)
qed

lemma keystore_retrieve_missing:
  assumes "f KEYSTORE_PATH = Some c" "scan_for name c \<in> {ScanMissing, ScanAbort}"
  shows "keystore_retrieve S v (Some name) out (Some pw) (f, m) =
    (if \<not> out then (Inl EInval, m)
     else case keystore_master_verify S (re_verify_open v) (Some pw) f of
       Inl e \<Rightarrow> (Inl e, m)
     | Inr _ \<Rightarrow> (Inl (if \<not> re_open_ok v then EOpen
                       else if scan_for name c = ScanMissing then ENotFound else EFormat), m))"
  using assms by (auto simp: keystore_retrieve_def split: sum.splits)

lemma keystore_verify_frame:
  "keystore_master_verify S b pw (files(KEYSTORE_PATH := x)) = keystore_master_verify S b pw files"
  by (cases pw) (simp_all add: keystore_master_verify_def)

text \<open>A key that is in the keyring is found there, whatever follows the keyring in the file.\<close>

lemma retrieve_in_ring:
  assumes ring: "files KEYSTORE_PATH = Some (keyring es)" "\<forall>e \<in> set es. wf_entry e"
    and "n \<in> entry_name ` set es"
  shows "keystore_retrieve S u (Some n) out (Some pw) (files(KEYSTORE_PATH \<mapsto> keyring es @ tail), m) =
         keystore_retrieve S u (Some n) out (Some pw) (files, m)"
proof -
  obtain x rest where x: "x \<in> set es" "\<And>tail. scan_for n (keyring es @ tail) =
     ScanFound (e_salt x) (e_nonce x) (word_of_nat (length (e_data x))) (e_data x @ rest @ tail)"
    using scan_first [OF ring(2) assms(3)] by metis
  have "unat (word_of_nat (length (e_data x)) :: u32) = length (e_data x)"
    using ring(2) x(1) by (simp add: wf_entry_def unat_word_of_nat_32)
  then show ?thesis
    using x(2) [of "[]"] x(2) [of tail] ring(1)
    by (intro keystore_retrieve_cong [where y = "rest @ tail" and z = rest]) simp_all
qed

text \<open>
  A key stored under a name that the keyring does not have yet is retrieved unchanged with
  the same master password, whatever entries are there already.
\<close>

theorem keystore_store_retrieve:
  assumes laws: "aead_correct S" "pwhash_sized S"
    and ring: "files KEYSTORE_PATH = Some (keyring es)" "\<forall>e \<in> set es. wf_entry e"
    and name: "name \<notin> entry_name ` set es" "length name < KEYSTORE_NAME_MAX" "CHR 0x00 \<notin> set name"
    and key: "length key + CRYPTIC_MAC_LEN < 2 ^ 32"
    and store: "keystore_store S v (Some name) ty (Some key) (Some pw) (files, m) = (Inr (), files', m')"
    and append: "se_append_ok v" "se_torn v = None"
    and env: "re_verify_open u" "re_open_ok u" "re_malloc_ok u" "initialized m2"
      "re_wrap_mem u \<noteq> None" "re_data_mem u = Some (p, fill)"
  shows "fst (keystore_retrieve S u (Some name) True (Some pw) (files', m2)) = Inr (p, key)"
proof -
  from store obtain k ct where
    verify: "keystore_master_verify S (se_verify_open v) (Some pw) files = Inr ()"
    and k: "derive_normal S pw (crypto_generate_salt (se_salt v)) = Inr k"
    and ct: "crypto_encrypt_buffer S True (Some key) (Some (crypto_random_bytes (se_nonce v) 24)) (Some k) = Inr ct"
    and files': "files' = files(KEYSTORE_PATH \<mapsto> keyring es @
       put_entry \<lparr>e_name = to_bytes name, e_type = ty, e_created = se_time v,
         e_salt = crypto_generate_salt (se_salt v), e_nonce = crypto_random_bytes (se_nonce v) 24,
         e_data = ct\<rparr>)"
    using ring(1) append by (elim keystore_store_ok) (simp only: written_def flushed_simps if_True option.case)
  have len: "length ct = length key + 16"
    using cc.seal_length [of S key _ k ct] laws ct by blast
  have pt: "crypto_decrypt_buffer S True (Some ct) (Some (crypto_random_bytes (se_nonce v) 24)) (Some k) = Inr key"
    by (rule cc.open_sealed [OF _ _ k ct]) (simp_all add: laws)
  have scan: "scan_for name (keyring es @
       put_entry \<lparr>e_name = to_bytes name, e_type = ty, e_created = se_time v,
         e_salt = crypto_generate_salt (se_salt v), e_nonce = crypto_random_bytes (se_nonce v) 24,
         e_data = ct\<rparr> @ []) = ScanFound (crypto_generate_salt (se_salt v))
         (crypto_random_bytes (se_nonce v) 24) (word_of_nat (length ct)) (ct @ [])"
    by (subst scan_skip [OF ring(2) name(1)], subst scan_hit)
      (use name key len in \<open>simp_all add: wf_entry_def entry_name_def\<close>)
  have "keystore_master_verify S True (Some pw) files' = Inr ()"
    using verify by (auto simp: keystore_master_verify_def files' split: if_splits option.splits)
  moreover have el: "unat (word_of_nat (length ct) :: u32) = length ct"
    by (rule unat_word_of_nat_32) (use key len in simp)
  moreover have "(ucast (word_of_nat (length ct) :: u32) :: u64) \<noteq> 0"
    by (metis el len unat_ucast_32_64 unsigned_0 add_is_0 zero_neq_numeral)
  ultimately show ?thesis
    using env k pt scan
    by (auto simp: keystore_retrieve_def files' secure_alloc_def tracker_add_def fread_all_def
        simp del: derive_key_Some decrypt_buffer_Some split: option.splits)
qed

text \<open>
  The keyring is a first-wins dictionary. Storing a well-named key changes the result of
  no retrieval of another name, and of no retrieval of its own name when the keyring has an
  entry of that name already: the older key stays the one that is returned.
\<close>

theorem keystore_store_first_wins:
  assumes ring: "files KEYSTORE_PATH = Some (keyring es)" "\<forall>e \<in> set es. wf_entry e"
    and laws: "aead_correct S" "pwhash_sized S" "length key + CRYPTIC_MAC_LEN < 2 ^ 32"
    and name: "length name < KEYSTORE_NAME_MAX" "CHR 0x00 \<notin> set name"
    and store: "keystore_store S v (Some name) ty (Some key) (Some pw) (files, m) = (Inr (), files', m')"
    and append: "se_append_ok v" "se_torn v = None"
    and other: "n \<noteq> name \<or> n \<in> entry_name ` set es"
  shows "keystore_retrieve S u (Some n) out (Some pw2) (files', m2) =
         keystore_retrieve S u (Some n) out (Some pw2) (files, m2)"
proof -
  from store obtain e where named: "e_name e = to_bytes name"
    and e: "entry_name e = name" "wf_entry e"
    and files': "files' = files(KEYSTORE_PATH \<mapsto> keyring es @ put_entry e)"
    by (elim keystore_store_entry)
      (use laws name append ring(1) in \<open>auto simp: wf_entry_def entry_name_def written_def\<close>)
  show ?thesis
  proof (cases "n \<in> entry_name ` set es")
    case True
    then show ?thesis using retrieve_in_ring [of files es n, OF ring] by (simp add: files')
  next
    case False
    with other e have "n \<noteq> entry_name e" by auto
    with False have "scan_for n (keyring (es @ [e]) @ []) = scan_for n []"
      by (intro scan_skip) (use ring(2) e in auto)
    moreover have "scan_for n (keyring es @ []) = scan_for n []"
      using False ring(2) by (intro scan_skip) auto
    ultimately have "scan_for n (keyring es @ put_entry e) = ScanMissing"
      "scan_for n (keyring es) = ScanMissing"
      by (simp_all add: scan_nil)
    then show ?thesis
      using keystore_retrieve_missing [of files "keyring es" n] ring(1)
        keystore_retrieve_missing [of files' "keyring es @ put_entry e" n]
      by (simp add: files' keystore_verify_frame)
  qed
qed

text \<open>Reading a record that was cut short: the end of the file, or too few bytes of the key.\<close>

lemma fread_all_take:
  "fread_all k (take n bs) =
     (if k \<le> n then map_option (\<lambda>(x, r). (x, take (n - k) r)) (fread_all k bs) else None)"
  by (auto simp: fread_all_def take_drop min_def)

lemma read_head_take:
  assumes "read_head bs = Head nm ty ts el salt nonce rest"
  shows "read_head (take n bs) = HeadEnd \<or>
    (\<exists>j. read_head (take n bs) = Head nm ty ts el salt nonce (take j rest) \<and> j + (length bs - length rest) = n)"
proof -
  from assms obtain nl b1 b2 tb b3 tsb b4 elb b5 b6 where f:
    "fread_all 2 bs = Some (nl, b1)" "unat (val_u16 nl) < KEYSTORE_NAME_MAX"
    "fread_all (unat (val_u16 nl)) b1 = Some (nm, b2)" "fread_all 4 b2 = Some (tb, b3)"
    "fread_all 8 b3 = Some (tsb, b4)" "fread_all 4 b4 = Some (elb, b5)"
    "fread_all CRYPTIC_SALT_LEN b5 = Some (salt, b6)" "fread_all CRYPTIC_NONCE_LEN b6 = Some (nonce, rest)"
    "ty = val_u32 tb" "ts = val_u64 tsb" "el = val_u32 elb"
    by (auto simp: read_head_def Let_def split: option.splits if_splits prod.splits)
  have "length bs = 58 + unat (val_u16 nl) + length rest"
    using f(1,3-8) [THEN fread_all_shorter] by linarith
  moreover have "read_head (take n bs) = (if 58 + unat (val_u16 nl) \<le> n
      then Head nm ty ts el salt nonce (take (n - (58 + unat (val_u16 nl))) rest) else HeadEnd)"
    using f by (auto simp: read_head_def Let_def fread_all_take)
  ultimately show ?thesis by auto
qed

lemma scan_torn:
  assumes "wf_entry e" "n < length (put_entry e)"
  shows "scan_for name (take n (put_entry e)) = ScanMissing \<or>
    (\<exists>salt nonce el rest. scan_for name (take n (put_entry e)) = ScanFound salt nonce el rest \<and>
       length rest < unat el)"
proof -
  have h: "read_head (put_entry e) = Head (e_name e) (e_type e) (e_created e)
      (word_of_nat (length (e_data e))) (e_salt e) (e_nonce e) (e_data e)"
    using read_head_put [OF assms(1), of "[]"] by simp
  have el: "unat (word_of_nat (length (e_data e)) :: u32) = length (e_data e)"
    using assms(1) by (simp add: wf_entry_def unat_word_of_nat_32)
  from read_head_take [OF h, of n] show ?thesis
  proof (elim disjE exE conjE)
    assume "read_head (take n (put_entry e)) = HeadEnd"
    then show ?thesis by (subst (1 2) scan_for.simps) simp
  next
    fix j assume j: "read_head (take n (put_entry e)) = Head (e_name e) (e_type e) (e_created e)
        (word_of_nat (length (e_data e))) (e_salt e) (e_nonce e) (take j (e_data e))"
      "j + (length (put_entry e) - length (e_data e)) = n"
    have short: "j < length (e_data e)"
      using j(2) assms(2) read_head_shorter [OF h] by linarith
    show ?thesis
    proof (cases "cstr (of_bytes (e_name e)) = name")
      case True
      then have "scan_for name (take n (put_entry e)) = ScanFound (e_salt e) (e_nonce e)
          (word_of_nat (length (e_data e))) (take j (e_data e))"
        using j(1) by (subst scan_for.simps) simp
      then show ?thesis using short el by simp
    next
      case False
      then have "scan_for name (take n (put_entry e)) = scan_for name []"
        using j(1) el by (subst scan_for.simps) simp
      then show ?thesis by (simp add: scan_nil)
    qed
  qed
qed

text \<open>A store whose calls before the writing work answers 0, whatever reaches the disk.\<close>

lemma keystore_store_answers:
  assumes "aead_total S" "pwhash_sized S" "key \<noteq> []"
    and "keystore_master_verify S (se_verify_open v) (Some pw) files = Inr ()"
    and "derive_normal S pw (crypto_generate_salt (se_salt v)) = Inr k"
    and "se_key_mem v \<noteq> None" "se_malloc_ok v" "se_append_ok v" "initialized m"
  shows "fst (keystore_store S v (Some name) ty (Some key) (Some pw) (files, m)) = Inr ()"
proof -
  obtain a b where a: "se_key_mem v = Some (a, b)" using assms(6) by auto
  have "length k = 32" using assms(2,5) by (auto simp: pwhash_sized_def split: option.splits)
  then obtain ct where "s_aead_encrypt S key (crypto_random_bytes (se_nonce v) 24) k = Some ct"
    using assms(1) by (force simp: aead_total_def)
  then have
    "crypto_encrypt_buffer S True (Some key) (Some (crypto_random_bytes (se_nonce v) 24)) (Some k) = Inr ct"
    by simp
  then show ?thesis
    using assms a
    by (simp add: keystore_store_def secure_alloc_def Let_def del: derive_key_Some encrypt_buffer_Some)
qed

text \<open>
  C26: a record that only partly reaches the disk. When everything before the writing works,
  \<open>keystore_store\<close> reports success all the same. Every key that was in the keyring before is
  retrieved as before, so a crash while storing damages no older key; but the new key is lost:
  it can not be retrieved with any password.
\<close>

theorem keystore_torn_store:
  assumes ring: "files KEYSTORE_PATH = Some (keyring es)" "\<forall>e \<in> set es. wf_entry e"
    and laws: "aead_correct S" "aead_total S" "pwhash_sized S" "length key + CRYPTIC_MAC_LEN < 2 ^ 32"
    and name: "length name < KEYSTORE_NAME_MAX" "CHR 0x00 \<notin> set name" "name \<notin> entry_name ` set es"
    and before: "key \<noteq> []" "keystore_master_verify S (se_verify_open v) (Some pw) files = Inr ()"
      "derive_normal S pw (crypto_generate_salt (se_salt v)) = Inr k0"
      "se_key_mem v \<noteq> None" "se_malloc_ok v" "initialized m"
    and torn: "se_append_ok v" "se_torn v = Some n" "n < 74 + length name + length key"
    and store: "keystore_store S v (Some name) ty (Some key) (Some pw) (files, m) = (r, files', m')"
  shows "rc r = 0 \<and>
    (\<forall>k \<in> entry_name ` set es. keystore_retrieve S u (Some k) out (Some pw2) (files', m2) =
       keystore_retrieve S u (Some k) out (Some pw2) (files, m2)) \<and>
    rc (fst (keystore_retrieve S u (Some name) out (Some pw2) (files', m2))) = -1"
proof -
  have r: "r = Inr ()"
    using keystore_store_answers [OF laws(2,3) before(1-5) torn(1) before(6)] store by (metis fst_conv)
  with store have "keystore_store S v (Some name) ty (Some key) (Some pw) (files, m) = (Inr (), files', m')"
    by simp
  then obtain e where e: "e_name e = to_bytes name" "wf_entry e" "length (e_data e) = length key + 16"
    and files': "files' = files(KEYSTORE_PATH \<mapsto> keyring es @ take n (put_entry e))"
    by (elim keystore_store_entry)
      (use laws name torn ring(1) in \<open>auto simp: wf_entry_def written_def\<close>)
  have "length (put_entry e) = 74 + length name + length key"
    using e by (simp add: put_entry_def wf_entry_def unat_word_of_nat_16 byte_simps)
  then have "n < length (put_entry e)" using torn(3) by simp
  note cut = scan_torn [OF e(2) this, of name]
  have scan: "scan_for name (keyring es @ take n (put_entry e)) = scan_for name (take n (put_entry e))"
    by (rule scan_skip [OF ring(2) name(3)])
  have "rc (fst (keystore_retrieve S u (Some name) out (Some pw2) (files', m2))) = -1"
    using cut scan
    by (auto simp: keystore_retrieve_def files' fread_all_def split: sum.splits)
  moreover have "keystore_retrieve S u (Some k) out (Some pw2) (files', m2) =
      keystore_retrieve S u (Some k) out (Some pw2) (files, m2)" if "k \<in> entry_name ` set es" for k
    unfolding files' by (rule retrieve_in_ring [of files es k, OF ring that])
  ultimately show ?thesis using r by simp
qed

text \<open>
  \<open>keystore_store\<close> accepts a name of 64 to 65535 characters, and the entry it writes makes
  every key that is stored behind it unreachable: from then on a retrieval of any name that
  is not in front of it fails, whatever is appended to the keyring.
\<close>

theorem keystore_overlong_name_blocks:
  assumes ring: "files KEYSTORE_PATH = Some (keyring es)" "\<forall>e \<in> set es. wf_entry e"
    and name: "KEYSTORE_NAME_MAX \<le> length name" "length name < 65536"
    and store: "keystore_store S v (Some name) ty (Some key) (Some pw) (files, m) = (Inr (), files', m')"
    and append: "se_append_ok v" "se_torn v = None"
    and missing: "n \<notin> entry_name ` set es"
  shows "\<exists>c. files' KEYSTORE_PATH = Some c \<and>
    (\<forall>later. rc (fst (keystore_retrieve S u (Some n) out (Some pw2)
                  (files'(KEYSTORE_PATH \<mapsto> c @ later), m2))) = -1)"
proof -
  from store obtain e where e: "e_name e = to_bytes name"
    and files': "files' = files(KEYSTORE_PATH \<mapsto> keyring es @ put_entry e)"
    by (elim keystore_store_entry) (use append ring(1) in \<open>auto simp: written_def\<close>)
  have "scan_for n (keyring es @ put_entry e @ later) = ScanAbort" for later
    using scan_skip [OF ring(2) missing] scan_overlong [of e n later] name e by simp
  then have "rc (fst (keystore_retrieve S u (Some n) out (Some pw2)
      (files'(KEYSTORE_PATH \<mapsto> (keyring es @ put_entry e) @ later), m2))) = -1" for later
    by (subst keystore_retrieve_missing [of _ "(keyring es @ put_entry e) @ later"])
      (simp_all split: sum.splits)
  then show ?thesis by (auto simp: files')
qed

section \<open>Listing\<close>

definition entry_info :: "ks_entry \<Rightarrow> key_info" where
  "entry_info e = \<lparr>ki_name = entry_name e, ki_type = e_type e, ki_key_len = length (e_data e),
     ki_created_at = e_created e, ki_last_used = 0, ki_locked = 0\<rparr>"

lemma list_head_put:
  assumes "wf_entry e" "length (e_data e) + 40 < 2 ^ 32"
  shows "list_head (put_entry e @ rest) = Some (entry_info e, rest)"
proof -
  have "(16 + 24 + word_of_nat (length (e_data e)) :: u32) = word_of_nat (40 + length (e_data e))"
    by simp
  then have "unat (16 + 24 + word_of_nat (length (e_data e)) :: u32) = 40 + length (e_data e)"
    using assms(2) by (simp only: unat_word_of_nat_32)
  with assms(1) show ?thesis
    by (simp add: put_entry_def list_head_def Let_def wf_entry_def entry_info_def entry_name_def
        unat_word_of_nat_16 unat_word_of_nat_32)
qed

lemma list_from_keyring:
  "\<forall>e \<in> set es. wf_entry e \<and> length (e_data e) + 40 < 2 ^ 32 \<Longrightarrow>
   list_from room (keyring es @ tail) = map entry_info (take room es) @ list_from (room - length es) tail"
proof (induction es arbitrary: room)
  case (Cons e es)
  then show ?case by (cases room) (simp_all add: list_head_put)
qed simp

lemma list_from_nil [simp]: "list_from room [] = []"
  by (cases room) (simp_all add: list_head_def fread_all_def)

text \<open>
  \<open>keystore_list\<close> reports the entries of the keyring in the order they were stored, at most
  128 of them, each with its name, type, creation time and the length of its ciphertext.
\<close>

theorem keystore_list_keyring:
  assumes "files KEYSTORE_PATH = Some (keyring es)"
    and "\<forall>e \<in> set es. wf_entry e \<and> length (e_data e) + 40 < 2 ^ 32"
  shows "keystore_list True True files = Inr (map entry_info (take KEYSTORE_MAX_KEYS es))"
  using assms list_from_keyring [of es KEYSTORE_MAX_KEYS "[]"] by (simp add: keystore_list_def)

section \<open>The master key\<close>

lemma master_line:
  assumes "length h < 128" "h \<noteq> []" "\<forall>c \<in> set h. c \<noteq> CHR 0x00 \<and> c \<noteq> CHR 0x0A"
  shows "\<exists>rest line. fgets 128 (h @ [CHR 0x0A]) = Some (line, rest) \<and> strip_newline (cstr line) = h"
proof -
  have c: "CHR 0x0A \<notin> set h" "CHR 0x00 \<notin> set h" using assms(3) by blast+
  consider "length h = 127" | "length h < 127" using assms(1) by linarith
  then obtain line rest where split: "line_split 127 (h @ [CHR 0x0A]) = (line, rest)"
    and line: "line = h \<or> line = h @ [CHR 0x0A]"
  proof cases
    case 1
    then show thesis using that [OF line_split_prefix [OF c(1) 1]] by blast
  next
    case 2
    then show thesis using that [OF line_split_line [OF c(1) 2]] by blast
  qed
  have "fgets 128 (h @ [CHR 0x0A]) = Some (line, rest)"
    using split by (simp add: fgets_def)
  moreover have "strip_newline (cstr line) = h"
    using line c by (auto simp: strip_newline_id strip_newline_line)
  ultimately show ?thesis by blast
qed

lemma master_setup_ok:
  assumes "keystore_master_setup S salt ok torn (Some pw) files = (Inr (), files')"
  obtains h where "s_pwhash_str S salt pw = Some h"
    "files' = files(KEYSTORE_MASTER_PATH \<mapsto> flushed torn (to_bytes (h @ [CHR 0x0A])))"
    "16 \<le> length pw" "files KEYSTORE_MASTER_PATH = None"
  using assms by (auto simp: keystore_master_setup_def split: if_splits option.splits)

lemma master_setup_verifies:
  assumes "pwhash_str_correct S" "keystore_master_setup S salt ok None (Some pw) files = (Inr (), files')"
  shows "keystore_master_verify S True (Some pw) files' = Inr ()"
proof -
  from assms(2) obtain h where h: "s_pwhash_str S salt pw = Some h"
    and files': "files' = files(KEYSTORE_MASTER_PATH \<mapsto> to_bytes (h @ [CHR 0x0A]))"
    by (elim master_setup_ok) simp
  with assms(1) have "s_pwhash_str_verify S h pw" "length h < 128" "h \<noteq> []"
    "\<forall>c \<in> set h. c \<noteq> CHR 0x00 \<and> c \<noteq> CHR 0x0A"
    unfolding pwhash_str_correct_def by blast+
  with master_line [of h] obtain line rest where
    line: "fgets 128 (h @ [CHR 0x0A]) = Some (line, rest)" "strip_newline (cstr line) = h"
    by blast
  have "of_bytes (to_bytes (h @ [CHR 0x0A])) = h @ [CHR 0x0A]" by (rule of_bytes_to_bytes)
  then show ?thesis
    using line \<open>s_pwhash_str_verify S h pw\<close>
    by (simp add: keystore_master_verify_def files' del: to_bytes_append)
qed

text \<open>
  A successful change of the master key needs the old password, makes the new one verify
  (if the line reached the disk) and leaves every other file as it is: the keyring is not
  re-encrypted. When hashing the new password fails, the old master key is gone already and
  none is left; when the old file could not be removed, the old key stays.
\<close>

theorem keystore_master_change_effect:
  assumes "pwhash_str_correct S"
    and "keystore_master_change S salt True unl ok None (Some old_pw) (Some new_pw) files = (r, files')"
  shows "(r = Inr () \<longrightarrow> unl \<and> keystore_master_verify S True (Some old_pw) files = Inr () \<and>
            keystore_master_verify S True (Some new_pw) files' = Inr () \<and> 16 \<le> length new_pw \<and>
            (\<forall>p. p \<noteq> KEYSTORE_MASTER_PATH \<longrightarrow> files' p = files p)) \<and>
         (keystore_master_verify S True (Some old_pw) files = Inr () \<and> 16 \<le> length new_pw \<and>
          s_pwhash_str S salt new_pw = None \<and> unl \<longrightarrow>
            r = Inl ENoMem \<and> files' KEYSTORE_MASTER_PATH = None) \<and>
         (\<not> unl \<longrightarrow> files' = files)"
proof -
  have set_file: "files KEYSTORE_MASTER_PATH \<noteq> None"
    if "keystore_master_verify S True (Some old_pw) files = Inr u" for u
    using that by (auto simp: keystore_master_verify_def split: option.splits)
  have "unl \<and> keystore_master_verify S True (Some old_pw) files = Inr () \<and>
      keystore_master_verify S True (Some new_pw) files' = Inr () \<and> 16 \<le> length new_pw \<and>
      (\<forall>p. p \<noteq> KEYSTORE_MASTER_PATH \<longrightarrow> files' p = files p)" if "r = Inr ()"
  proof -
    from assms(2) that have v: "keystore_master_verify S True (Some old_pw) files = Inr ()"
      and unl: unl
      and fresh_setup: "keystore_master_setup S salt ok None (Some new_pw) (files(KEYSTORE_MASTER_PATH := None)) =
        (Inr (), files')"
      by (auto simp: keystore_master_change_def dest: set_file split: sum.splits if_splits)
        (auto simp: keystore_master_setup_def dest: set_file split: if_splits option.splits)
    from fresh_setup obtain h where "16 \<le> length new_pw"
      "files' = files(KEYSTORE_MASTER_PATH \<mapsto> to_bytes (h @ [CHR 0x0A]))"
      by (elim master_setup_ok) simp
    with v unl master_setup_verifies [OF assms(1) fresh_setup] show ?thesis by simp
  qed
  moreover have "r = Inl ENoMem \<and> files' KEYSTORE_MASTER_PATH = None"
    if "keystore_master_verify S True (Some old_pw) files = Inr () \<and> 16 \<le> length new_pw \<and>
      s_pwhash_str S salt new_pw = None \<and> unl"
    using assms(2) that by (auto simp: keystore_master_change_def keystore_master_setup_def)
  moreover have "files' = files" if "\<not> unl"
  proof (cases "keystore_master_verify S True (Some old_pw) files")
    case (Inr u)
    then show ?thesis
      using assms(2) that set_file [OF Inr]
      by (simp add: keystore_master_change_def keystore_master_setup_def split: if_splits)
  qed (use assms(2) in \<open>simp add: keystore_master_change_def\<close>)
  ultimately show ?thesis by blast
qed

section \<open>Secure memory\<close>

lemma write_region_free:
  "p \<noteq> q \<Longrightarrow> secure_free (Some p) z (write_region q d m) = write_region q d (secure_free (Some p) z m)"
  by (cases "regions m q"; cases "regions m p"; cases "tracker_unlink p (alloc_list m)")
    (auto simp add: write_region_def secure_free_def tracker_remove_def sodium_free_def fun_upd_twist)

lemma fresh_below:
  "fresh sm2 (snd (secure_alloc sm1 n1 z1 m)) \<Longrightarrow> fresh sm1 m \<Longrightarrow> fresh sm2 m"
  by (auto simp: fresh_def secure_alloc_def tracker_add_def split: option.splits if_splits)

lemma fresh_distinct:
  "secure_alloc sm1 n1 z1 m = (Some p, m1) \<Longrightarrow> fresh sm2 m1 \<Longrightarrow>
   secure_alloc sm2 n2 z2 m1 = (Some q, m2) \<Longrightarrow> p \<noteq> q"
  by (auto simp: fresh_def secure_alloc_def tracker_add_def split: option.splits if_splits)

text \<open>
  \<open>keystore_store\<close> gives the wrapping key back on every path, errors included, and
  \<open>keystore_retrieve\<close> does too; the only allocation that outlives a retrieval is the buffer of
  a key it returns.
\<close>

theorem keystore_secure_memory_balance:
  assumes "mem_inv m" "fresh (se_key_mem v) m" "fresh (re_wrap_mem u) m"
    and "fresh (re_data_mem u) (snd (secure_alloc (re_wrap_mem u) (re_wrap_node u) 32 m))"
  shows "snd (snd (keystore_store S v name ty key pw (files, m))) = m \<and>
    (case keystore_retrieve S u rname out rpw (files, m) of
       (Inl _, m') \<Rightarrow> m' = m
     | (Inr (p, k), m') \<Rightarrow> \<exists>el. m' = write_region p k
           (snd (secure_alloc (re_data_mem u) (re_data_node u) (ucast (el :: u32)) m)))"
proof
  show "snd (snd (keystore_store S v name ty key pw (files, m))) = m"
    using assms sm.alloc_failed [of "(se_key_mem v, se_key_node v)" 32 m]
      free_after_alloc [of m "se_key_mem v" "se_key_node v" 32]
    by (auto simp: keystore_store_def Let_def simp del: derive_key_Some encrypt_buffer_Some
        split: option.splits prod.splits if_splits sum.splits)
next
  let ?wrap = "secure_alloc (re_wrap_mem u) (re_wrap_node u) 32 m"
  have wrap_back: "secure_free (Some w) 32 m1 = m" if "?wrap = (Some w, m1)" for w m1
    using free_after_alloc assms that by blast
  have wrap_failed: "m1 = m" if "?wrap = (None, m1)" for m1
    using sm.alloc_failed [of "(re_wrap_mem u, re_wrap_node u)" 32 m] that by simp
  have data_failed: "m2 = m1" if "secure_alloc (re_data_mem u) (re_data_node u) z m1 = (None, m2)" for z m1 m2
    using sm.alloc_failed [of "(re_data_mem u, re_data_node u)" z m1] that by simp
  have below: "secure_free (Some w) 32 m2 = snd (secure_alloc (re_data_mem u) (re_data_node u) z m)"
    and neq: "w \<noteq> d"
    and both: "secure_free (Some d) z (secure_free (Some w) 32 m2) = m"
    if "?wrap = (Some w, m1)" "secure_alloc (re_data_mem u) (re_data_node u) z m1 = (Some d, m2)" for w m1 d m2 z
  proof -
    have f: "fresh (re_data_mem u) m1" using assms(4) that(1) by simp
    show eq: "secure_free (Some w) 32 m2 = snd (secure_alloc (re_data_mem u) (re_data_node u) z m)"
      by (rule free_below [OF assms(1,3) that(1) f that(2)])
    show "w \<noteq> d" by (rule fresh_distinct [OF that(1) f that(2)])
    have "fst (secure_alloc (re_data_mem u) (re_data_node u) z m) = Some d"
      using that by (auto simp: secure_alloc_def tracker_add_def split: if_splits option.splits)
    then show "secure_free (Some d) z (secure_free (Some w) 32 m2) = m"
      using free_after_alloc [OF assms(1) fresh_below [OF assms(4,3)], of "re_data_node u" z d]
      by (simp add: eq prod_eq_iff)
  qed
  have success: "\<exists>el. secure_free (Some w) 32 (write_region d k m2) =
      write_region d k (snd (secure_alloc (re_data_mem u) (re_data_node u) (ucast (el :: u32)) m))"
    if "?wrap = (Some w, m1)"
      "secure_alloc (re_data_mem u) (re_data_node u) (ucast (z :: u32)) m1 = (Some d, m2)" for w m1 d m2 z k
    using below [OF that] neq [OF that] by (auto simp: write_region_free)
  show "case keystore_retrieve S u rname out rpw (files, m) of
       (Inl _, m') \<Rightarrow> m' = m
     | (Inr (p, k), m') \<Rightarrow> \<exists>el. m' = write_region p k
           (snd (secure_alloc (re_data_mem u) (re_data_node u) (ucast (el :: u32)) m))"
    unfolding keystore_retrieve_def
    by (auto dest: wrap_back wrap_failed data_failed both success
        simp del: derive_key_Some decrypt_buffer_Some
        split: option.splits prod.splits if_splits sum.splits ks_scan.splits)
qed

section \<open>Examples\<close>

definition master_pw0 :: string where
  "master_pw0 = ''correct horse battery''"

definition files0 :: fs where
  "files0 = [KEYSTORE_PATH \<mapsto> [], KEYSTORE_MASTER_PATH \<mapsto> to_bytes ((''$argon2id$'' @ master_pw0) @ [CHR 0x0A])]"

definition store_env0 :: store_env where
  "store_env0 = \<lparr>se_verify_open = True, se_salt = (\<lambda>i. 7), se_nonce = (\<lambda>i. 9),
     se_key_mem = Some (4096, 0xdb), se_key_node = True, se_malloc_ok = True,
     se_append_ok = True, se_create_ok = True, se_time = 1700000000, se_torn = None\<rparr>"

definition retrieve_env0 :: retrieve_env where
  "retrieve_env0 = \<lparr>re_verify_open = True, re_open_ok = True, re_malloc_ok = True,
     re_wrap_mem = Some (4096, 0xdb), re_wrap_node = True,
     re_data_mem = Some (8192, 0xdb), re_data_node = True\<rparr>"

lemma files0_ring: "files0 KEYSTORE_PATH = Some (keyring [])"
  by (simp add: files0_def)

lemma verify0: "keystore_master_verify sodium_example True (Some master_pw0) files0 = Inr ()"
proof -
  let ?f = "[KEYSTORE_PATH \<mapsto> []]"
  have "keystore_master_setup sodium_example [] True None (Some master_pw0) ?f = (Inr (), files0)"
    by (simp add: keystore_master_setup_def sodium_example_def files0_def master_pw0_def)
  then show ?thesis
    by (rule master_setup_verifies [OF sodium_example_laws(6)])
qed

lemma store0: "fst (keystore_store sodium_example store_env0 (Some name) ty (Some [1, 2, 3]) (Some master_pw0) (files0, mem0)) = Inr ()"
  by (simp add: keystore_store_def verify0 store_env0_def secure_alloc_def Let_def)
    (simp add: sodium_example_def)

abbreviation (input) store_files0 :: "string \<Rightarrow> fs" where
  "store_files0 name \<equiv> fst (snd (keystore_store sodium_example store_env0 (Some name) 0
     (Some [1, 2, 3]) (Some master_pw0) (files0, mem0)))"

lemma store0_eq:
  "keystore_store sodium_example store_env0 (Some name) 0 (Some [1, 2, 3]) (Some master_pw0) (files0, mem0) =
   (Inr (), store_files0 name,
    snd (snd (keystore_store sodium_example store_env0 (Some name) 0 (Some [1, 2, 3]) (Some master_pw0) (files0, mem0))))"
  using store0 by (simp add: prod_eq_iff)

theorem keystore_store_retrieve_witness:
  "fst (keystore_retrieve sodium_example retrieve_env0 (Some ''disk'') True (Some master_pw0)
     (store_files0 ''disk'', mem0)) = Inr (8192, [1, 2, 3])"
  by (rule keystore_store_retrieve [OF sodium_example_laws(1,3) files0_ring _ _ _ _ _ store0_eq])
    (simp_all add: store_env0_def retrieve_env0_def)

theorem keystore_store_first_wins_witness:
  "keystore_retrieve sodium_example retrieve_env0 (Some ''mail'') True (Some master_pw0)
     (store_files0 ''disk'', mem0) =
   keystore_retrieve sodium_example retrieve_env0 (Some ''mail'') True (Some master_pw0) (files0, mem0)"
  by (rule keystore_store_first_wins [OF files0_ring _ sodium_example_laws(1,3) _ _ _ store0_eq])
    (simp_all add: store_env0_def)

theorem keystore_torn_store_witness:
  "\<exists>files' m'. keystore_store sodium_example (store_env0\<lparr>se_torn := Some 70\<rparr>) (Some ''disk'') 0
       (Some [1, 2, 3]) (Some master_pw0) (files0, mem0) = (Inr (), files', m') \<and>
     rc (fst (keystore_retrieve sodium_example retrieve_env0 (Some ''disk'') True (Some master_pw0) (files', mem0))) = -1"
proof -
  let ?s = "keystore_store sodium_example (store_env0\<lparr>se_torn := Some 70\<rparr>) (Some ''disk'') 0
    (Some [1, 2, 3]) (Some master_pw0) (files0, mem0)"
  have "fst ?s = Inr ()"
    by (simp add: keystore_store_def verify0 store_env0_def secure_alloc_def Let_def)
      (simp add: sodium_example_def)
  then obtain files' m' where s: "?s = (Inr (), files', m')" by (metis prod.collapse)
  have "rc (fst (keystore_retrieve sodium_example retrieve_env0 (Some ''disk'') True (Some master_pw0) (files', mem0))) = -1"
    using keystore_torn_store [of files0 "[]", OF files0_ring _ sodium_example_laws(1-3) _ _ _ _ _ _ _ _ _ mem0_facts(2) _ _ _ s,
        of "pad_to 32 (replicate 16 7)" 70 retrieve_env0 True master_pw0 mem0] verify0
    by (simp add: store_env0_def sodium_example_ops crypto_generate_salt_def randombytes_buf_def map_replicate_const)
  with s show ?thesis by blast
qed

theorem keystore_overlong_name_blocks_witness:
  "\<exists>c. store_files0 (replicate 64 CHR ''k'') KEYSTORE_PATH = Some c \<and>
    (\<forall>later. rc (fst (keystore_retrieve sodium_example retrieve_env0 (Some ''disk'') True (Some master_pw0)
       ((store_files0 (replicate 64 CHR ''k''))(KEYSTORE_PATH \<mapsto> c @ later), mem0))) = -1)"
  by (rule keystore_overlong_name_blocks [OF files0_ring _ _ _ store0_eq])
    (simp_all add: store_env0_def)

definition entry0 :: ks_entry where
  "entry0 = \<lparr>e_name = to_bytes ''disk'', e_type = 1, e_created = 5, e_salt = replicate 16 7,
     e_nonce = replicate 24 9, e_data = replicate 19 0\<rparr>"

theorem keystore_list_keyring_witness:
  "keystore_list True True (files0(KEYSTORE_PATH \<mapsto> keyring [entry0, entry0])) =
   Inr [entry_info entry0, entry_info entry0]"
  by (subst keystore_list_keyring [where es = "[entry0, entry0]"])
    (simp_all add: wf_entry_def entry0_def)

theorem keystore_master_change_effect_witness:
  "keystore_master_verify sodium_example True (Some ''another long passphrase'')
     (snd (keystore_master_change sodium_example [] True True True None (Some master_pw0)
        (Some ''another long passphrase'') files0)) = Inr ()"
proof -
  let ?c = "keystore_master_change sodium_example [] True True True None (Some master_pw0)
        (Some ''another long passphrase'') files0"
  have "fst ?c = Inr ()"
    by (simp add: keystore_master_change_def verify0 keystore_master_setup_def)
      (simp add: sodium_example_def)
  then show ?thesis
    using keystore_master_change_effect [OF sodium_example_laws(6), of "[]" True True master_pw0
        "''another long passphrase''" files0 "fst ?c" "snd ?c"] by (simp add: prod_eq_iff)
qed

theorem keystore_secure_memory_balance_witness:
  "snd (snd (keystore_store sodium_example store_env0 (Some ''disk'') 0 (Some [1, 2, 3]) None (files0, mem0))) = mem0 \<and>
   snd (keystore_retrieve sodium_example retrieve_env0 (Some ''disk'') True (Some master_pw0) (files0, mem0)) = mem0"
proof -
  have "fst (keystore_retrieve sodium_example retrieve_env0 (Some ''disk'') True (Some master_pw0) (files0, mem0)) = Inl ENotFound"
    using files0_ring scan_nil [of "''disk''"]
    by (subst keystore_retrieve_missing [of _ "[]"]) (simp_all add: verify0 retrieve_env0_def)
  then show ?thesis
    using keystore_secure_memory_balance [of mem0 store_env0 retrieve_env0 sodium_example
      "Some ''disk''" 0 "Some [1, 2, 3]" None files0 "Some ''disk''" True "Some master_pw0"]
    by (auto simp: fresh_def store_env0_def retrieve_env0_def secure_alloc_def tracker_add_def
        split: prod.splits)
qed

end
