(* ===== verification/Nxe_Format.thy ===== *)
theory Nxe_Format
  imports Crypto_Core Secure_Memory C_Strings
begin

text \<open>
  The \<open>.nxe\<close> executables: \<open>crypticengine/include/nxe_format.h\<close> (the packed 256-byte header),
  \<open>crypticengine/src/nxe_builder.c\<close> (\<open>nxe_build\<close> and the command line tool) and
  \<open>crypticengine/src/nxe_loader.c\<close> (load and execute, verify, inspect). The state is the file
  system and the secure memory; the outcomes of system calls are the fields of an
  environment record. Executing is a value: \<open>nxe_exec\<close> has the image that was written to the
  memory file, and the arguments and environment given to \<open>execve\<close>. A read outside the loaded
  file gives \<open>EUndefined\<close>.
\<close>

unbundle bit_operations_syntax

section \<open>The header\<close>

definition NXE_MAGIC :: bytes where "NXE_MAGIC = [0x4e, 0x58, 0x45, 0x01]"
definition NXE_VERSION_1_0 :: u32 where "NXE_VERSION_1_0 = 0x00010000"
definition NXE_FLAG_ENCRYPTED :: u32 where "NXE_FLAG_ENCRYPTED = 0x1"
definition NXE_FLAG_SIGNED :: u32 where "NXE_FLAG_SIGNED = 0x2"
definition NXE_FLAG_RAM_ONLY :: u32 where "NXE_FLAG_RAM_ONLY = 0x4"
definition NXE_FLAG_SANDBOXED :: u32 where "NXE_FLAG_SANDBOXED = 0x8"
definition NXE_PERM_ALL :: u32 where "NXE_PERM_ALL = 0xFFFFFFFF"

abbreviation (input) NXE_HEADER_LEN :: nat where "NXE_HEADER_LEN \<equiv> 256"

record nxe_header =
  h_magic :: bytes
  h_version :: u32
  h_flags :: u32
  h_signature :: bytes
  h_pubkey :: bytes
  h_payload_hash :: bytes
  h_permissions :: u32
  h_payload_offset :: u32
  h_payload_size :: u32
  h_nonce :: bytes
  h_salt :: bytes
  h_reserved :: bytes

definition put_header :: "nxe_header \<Rightarrow> bytes" where
  "put_header h =
     h_magic h @ put_u32 (h_version h) @ put_u32 (h_flags h) @ h_signature h @ h_pubkey h @
     h_payload_hash h @ put_u32 (h_permissions h) @ put_u32 (h_payload_offset h) @
     put_u32 (h_payload_size h) @ h_nonce h @ h_salt h @ h_reserved h"

text \<open>The \<open>memcpy\<close> of the first 256 bytes of a file over the packed struct.\<close>

definition get_header :: "bytes \<Rightarrow> nxe_header" where
  "get_header d =
     \<lparr>h_magic = take 4 d, h_version = val_u32 (take 4 (drop 4 d)),
      h_flags = val_u32 (take 4 (drop 8 d)), h_signature = take 64 (drop 12 d),
      h_pubkey = take 32 (drop 76 d), h_payload_hash = take 32 (drop 108 d),
      h_permissions = val_u32 (take 4 (drop 140 d)),
      h_payload_offset = val_u32 (take 4 (drop 144 d)),
      h_payload_size = val_u32 (take 4 (drop 148 d)),
      h_nonce = take 24 (drop 152 d), h_salt = take 16 (drop 176 d), h_reserved = take 64 (drop 192 d)\<rparr>"

definition validate_header :: "nxe_header \<Rightarrow> bool" where
  "validate_header h \<longleftrightarrow>
     h_magic h = NXE_MAGIC \<and> h_version h = NXE_VERSION_1_0 \<and>
     h_payload_offset h = word_of_nat NXE_HEADER_LEN"

definition flag_set :: "u32 \<Rightarrow> u32 \<Rightarrow> bool" where
  "flag_set flags f \<longleftrightarrow> flags AND f \<noteq> 0"

section \<open>The loader\<close>

record load_env =
  le_open_ok :: bool
  le_file_malloc :: bool
  le_read_ok :: bool
  le_key_mem :: "(nat \<times> u8) option"
  le_key_node :: bool
  le_elf_malloc :: bool
  le_memfd :: "int option"
  le_write_ok :: bool
  le_exec_ok :: bool
  le_environ :: "string list"

record nxe_exec =
  x_path :: path
  x_image :: bytes
  x_argv :: "string list"
  x_envp :: "string list"

definition NXE_MAX_FILE :: nat where "NXE_MAX_FILE = 100 * 2 ^ 20"

definition read_full_file :: "load_env \<Rightarrow> path \<Rightarrow> fs \<Rightarrow> bytes res" where
  "read_full_file v p files =
     (case (if le_open_ok v then files p else None) of
        None \<Rightarrow> Inl EOpen
      | Some d \<Rightarrow>
          if length d > NXE_MAX_FILE then Inl ETooBig
          else if \<not> le_file_malloc v then Inl ENoMem
          else if \<not> le_read_ok v then Inl EIo
          else Inr d)"

text \<open>
  Steps 1 and 2 of \<open>nxe_load_and_exec\<close>, which read the payload: verify the signature if the
  flag is set, then decrypt or copy. \<open>payload = None\<close> is a payload that leaves the buffer.
\<close>

definition nxe_check_signature :: "sodium \<Rightarrow> nxe_header \<Rightarrow> bytes option \<Rightarrow> unit res" where
  "nxe_check_signature S h payload =
     (if flag_set (h_flags h) NXE_FLAG_SIGNED
      then case payload of
             None \<Rightarrow> Inl EUndefined
           | Some pl \<Rightarrow> crypto_verify_signature S (Some (h_signature h)) (Some pl) (Some (h_pubkey h))
      else Inr ())"

definition nxe_unwrap ::
  "sodium \<Rightarrow> load_env \<Rightarrow> nxe_header \<Rightarrow> bytes option \<Rightarrow> string option \<Rightarrow> mem_state \<Rightarrow>
   bytes res \<times> mem_state" where
  "nxe_unwrap S v h payload password m =
     (if flag_set (h_flags h) NXE_FLAG_ENCRYPTED
      then (case password of
              None \<Rightarrow> (Inl EAuth, m)
            | Some pw \<Rightarrow>
                (case secure_alloc (le_key_mem v) (le_key_node v) 32 m of
                   (None, m1) \<Rightarrow> (Inl ENoMem, m1)
                 | (Some key, m1) \<Rightarrow>
                     (case derive_normal S pw (h_salt h) of
                        Inl e \<Rightarrow> (Inl e, secure_free (Some key) 32 m1)
                      | Inr k \<Rightarrow>
                          if \<not> le_elf_malloc v then (Inl ENoMem, secure_free (Some key) 32 m1)
                          else (case payload of
                                  None \<Rightarrow> (Inl EUndefined, m1)
                                | Some pl \<Rightarrow>
                                    (case crypto_decrypt_buffer S True (Some pl) (Some (h_nonce h)) (Some k) of
                                       Inl e \<Rightarrow> (Inl e, secure_free (Some key) 32 m1)
                                     | Inr elf \<Rightarrow> (Inr elf, secure_free (Some key) 32 m1))))))
      else if \<not> le_elf_malloc v then (Inl ENoMem, m)
      else (case payload of None \<Rightarrow> (Inl EUndefined, m) | Some pl \<Rightarrow> (Inr pl, m)))"

text \<open>Steps 3 to 5: the hash, the memory file and \<open>execve\<close>.\<close>

definition nxe_execute ::
  "sodium \<Rightarrow> load_env \<Rightarrow> nxe_header \<Rightarrow> bytes \<Rightarrow> string list \<Rightarrow> string list option \<Rightarrow> nxe_exec res" where
  "nxe_execute S v h elf argv envp =
     (case crypto_hash_buffer S True (Some elf) (length elf) of
        Inl e \<Rightarrow> Inl e
      | Inr actual_hash \<Rightarrow>
          if actual_hash \<noteq> h_payload_hash h then Inl EFormat
          else case le_memfd v of
                 None \<Rightarrow> Inl ESys
               | Some memfd \<Rightarrow>
                   if \<not> le_write_ok v then Inl EIo
                   else if \<not> le_exec_ok v then Inl ESys
                   else Inr \<lparr>x_path = snprintf_buf 64 (''/proc/self/fd/'' @ fmt_d memfd), x_image = elf,
                             x_argv = argv,
                             x_envp = (case envp of None \<Rightarrow> le_environ v | Some e \<Rightarrow> e)\<rparr>)"

text \<open>
  The bounds check of the loader adds two \<open>uint32_t\<close>, so the sum is a 32-bit word; the result
  is then compared as a \<open>size_t\<close>.
\<close>

definition payload_in_file :: "nxe_header \<Rightarrow> nat \<Rightarrow> bool" where
  "payload_in_file h file_len \<longleftrightarrow> \<not> (unat (h_payload_offset h + h_payload_size h) > file_len)"

definition nxe_load_and_exec ::
  "sodium \<Rightarrow> load_env \<Rightarrow> path \<Rightarrow> string option \<Rightarrow> string list \<Rightarrow> string list option \<Rightarrow>
   fs \<times> mem_state \<Rightarrow> nxe_exec res \<times> mem_state" where
  "nxe_load_and_exec S v p password argv envp w =
     (case read_full_file v p (fst w) of
        Inl e \<Rightarrow> (Inl e, snd w)
      | Inr file_data \<Rightarrow>
          if length file_data < NXE_HEADER_LEN then (Inl ETooSmall, snd w)
          else let hdr = get_header file_data in
               if \<not> validate_header hdr then (Inl EFormat, snd w)
               else if \<not> payload_in_file hdr (length file_data) then (Inl EFormat, snd w)
               else let payload = slice (unat (h_payload_offset hdr)) (unat (h_payload_size hdr)) file_data in
                    (case nxe_check_signature S hdr payload of
                       Inl e \<Rightarrow> (Inl e, snd w)
                     | Inr _ \<Rightarrow>
                         (case nxe_unwrap S v hdr payload password (snd w) of
                            (Inl e, m) \<Rightarrow> (Inl e, m)
                          | (Inr elf, m) \<Rightarrow> (nxe_execute S v hdr elf argv envp, m))))"

definition nxe_verify :: "sodium \<Rightarrow> load_env \<Rightarrow> path \<Rightarrow> fs \<Rightarrow> unit res" where
  "nxe_verify S v p files =
     (case read_full_file v p files of
        Inl e \<Rightarrow> Inl e
      | Inr file_data \<Rightarrow>
          if length file_data < NXE_HEADER_LEN then Inl EInval
          else let hdr = get_header file_data in
               if \<not> validate_header hdr then Inl EFormat
               else nxe_check_signature S hdr
                      (slice (unat (h_payload_offset hdr)) (unat (h_payload_size hdr)) file_data))"

text \<open>\<open>nxe_inspect\<close> fills \<open>info\<close> before it validates it.\<close>

definition nxe_inspect :: "bool \<Rightarrow> path \<Rightarrow> fs \<Rightarrow> unit res \<times> nxe_header option" where
  "nxe_inspect fopen_ok p files =
     (case (if fopen_ok then files p else None) of
        None \<Rightarrow> (Inl EOpen, None)
      | Some d \<Rightarrow>
          (case fread_all NXE_HEADER_LEN d of
             None \<Rightarrow> (Inl EIo, None)
           | Some (hd_bytes, _) \<Rightarrow>
               (if validate_header (get_header hd_bytes) then Inr () else Inl EFormat,
                Some (get_header hd_bytes))))"

section \<open>The builder\<close>

record build_env =
  be_open_in :: bool
  be_malloc_elf :: bool
  be_read_ok :: bool
  be_salt :: "nat \<Rightarrow> u8"
  be_nonce :: "nat \<Rightarrow> u8"
  be_key_mem :: "(nat \<times> u8) option"
  be_key_node :: bool
  be_malloc_payload :: bool
  be_open_out :: bool
  be_write_ok :: bool

definition empty_header :: nxe_header where
  "empty_header = \<lparr>h_magic = replicate 4 0, h_version = 0, h_flags = 0, h_signature = replicate 64 0,
     h_pubkey = replicate 32 0, h_payload_hash = replicate 32 0, h_permissions = 0,
     h_payload_offset = 0, h_payload_size = 0, h_nonce = replicate 24 0, h_salt = replicate 16 0,
     h_reserved = replicate 64 0\<rparr>"

text \<open>The payload, the flags, salt and nonce that go with it.\<close>

definition nxe_wrap ::
  "sodium \<Rightarrow> build_env \<Rightarrow> bytes \<Rightarrow> string option \<Rightarrow> nxe_header \<Rightarrow> mem_state \<Rightarrow>
   (nxe_header \<times> bytes) res \<times> mem_state" where
  "nxe_wrap S v elf password hdr m =
     (case password of
        Some pw \<Rightarrow>
          let hdr1 = hdr\<lparr>h_flags := h_flags hdr OR NXE_FLAG_ENCRYPTED,
                         h_salt := crypto_generate_salt (be_salt v),
                         h_nonce := crypto_random_bytes (be_nonce v) CRYPTIC_NONCE_LEN\<rparr> in
          (case secure_alloc (be_key_mem v) (be_key_node v) 32 m of
             (None, m1) \<Rightarrow> (Inl ENoMem, m1)
           | (Some key, m1) \<Rightarrow>
               (case derive_normal S pw (h_salt hdr1) of
                  Inl e \<Rightarrow> (Inl e, secure_free (Some key) 32 m1)
                | Inr k \<Rightarrow>
                    if \<not> be_malloc_payload v then (Inl ENoMem, secure_free (Some key) 32 m1)
                    else (case crypto_encrypt_buffer S True (Some elf) (Some (h_nonce hdr1)) (Some k) of
                            Inl e \<Rightarrow> (Inl e, secure_free (Some key) 32 m1)
                          | Inr ct \<Rightarrow> (Inr (hdr1, ct), secure_free (Some key) 32 m1))))
      | None \<Rightarrow> if \<not> be_malloc_payload v then (Inl ENoMem, m) else (Inr (hdr, elf), m))"

definition nxe_sign ::
  "sodium \<Rightarrow> bytes option \<Rightarrow> bytes option \<Rightarrow> bytes \<Rightarrow> nxe_header \<Rightarrow> nxe_header res" where
  "nxe_sign S sk pk payload hdr =
     (case (sk, pk) of
        (Some sk', Some pk') \<Rightarrow>
          (case crypto_sign_buffer S True (Some payload) (Some sk') of
             Inl e \<Rightarrow> Inl e
           | Inr sig \<Rightarrow> Inr (hdr\<lparr>h_flags := h_flags hdr OR NXE_FLAG_SIGNED,
                                  h_pubkey := take CRYPTIC_SIGN_PK_LEN pk', h_signature := sig\<rparr>))
      | _ \<Rightarrow> Inr hdr)"

definition nxe_build ::
  "sodium \<Rightarrow> build_env \<Rightarrow> path option \<Rightarrow> path option \<Rightarrow> string option \<Rightarrow> bytes option \<Rightarrow> bytes option \<Rightarrow>
   u32 \<Rightarrow> u32 \<Rightarrow> fs \<times> mem_state \<Rightarrow> unit res \<times> fs \<times> mem_state" where
  "nxe_build S v elf_path nxe_path password sk pk permissions flags w =
     (case (elf_path, nxe_path) of
        (Some ep, Some np) \<Rightarrow>
          (case (if be_open_in v then fst w ep else None) of
             None \<Rightarrow> (Inl EOpen, w)
           | Some elf \<Rightarrow>
               if length elf = 0 \<or> length elf > NXE_MAX_FILE then (Inl ETooBig, w)
               else if \<not> be_malloc_elf v then (Inl ENoMem, w)
               else if \<not> be_read_ok v then (Inl EIo, w)
               else
                 (case crypto_hash_buffer S True (Some elf) (length elf) of
                    Inl e \<Rightarrow> (Inl e, w)
                  | Inr h \<Rightarrow>
                      let hdr = empty_header\<lparr>h_magic := NXE_MAGIC, h_version := NXE_VERSION_1_0,
                                  h_flags := flags OR NXE_FLAG_RAM_ONLY, h_permissions := permissions,
                                  h_payload_offset := word_of_nat NXE_HEADER_LEN, h_payload_hash := h\<rparr> in
                      (case nxe_wrap S v elf password hdr (snd w) of
                         (Inl e, m) \<Rightarrow> (Inl e, fst w, m)
                       | (Inr (hdr1, payload), m) \<Rightarrow>
                           let hdr2 = hdr1\<lparr>h_payload_size := word_of_nat (length payload)\<rparr> in
                           (case nxe_sign S sk pk payload hdr2 of
                              Inl e \<Rightarrow> (Inl e, fst w, m)
                            | Inr hdr3 \<Rightarrow>
                                if \<not> be_open_out v then (Inl EOpen, fst w, m)
                                else if \<not> be_write_ok v then (Inl EIo, (fst w)(np := None), m)
                                else (Inr (), (fst w)(np \<mapsto> put_header hdr3 @ payload), m)))))
      | _ \<Rightarrow> (Inl EInval, w))"

section \<open>The command line tool\<close>

text \<open>
  What \<open>getopt_long\<close> hands to the \<open>switch\<close>, one value per option; \<open>OptBad\<close> is any other
  character.
\<close>

datatype nxe_opt = OptI string | OptO string | OptP | OptS string | OptPerms string | OptSandbox | OptH | OptBad

record nxe_args =
  a_input :: "string option"
  a_output :: "string option"
  a_keyfile :: "string option"
  a_do_encrypt :: bool
  a_do_sandbox :: bool
  a_perms :: u32

definition nxe_args0 :: nxe_args where
  "nxe_args0 = \<lparr>a_input = None, a_output = None, a_keyfile = None, a_do_encrypt = False,
     a_do_sandbox = False, a_perms = NXE_PERM_ALL\<rparr>"

text \<open>The option loop: \<open>Inl\<close> is the exit status of an option that ends the program.\<close>

fun nxe_options :: "(string \<Rightarrow> u64) \<Rightarrow> nxe_opt list \<Rightarrow> nxe_args \<Rightarrow> int + nxe_args" where
  "nxe_options strtoul [] a = Inr a"
| "nxe_options strtoul (OptI s # os) a = nxe_options strtoul os (a\<lparr>a_input := Some s\<rparr>)"
| "nxe_options strtoul (OptO s # os) a = nxe_options strtoul os (a\<lparr>a_output := Some s\<rparr>)"
| "nxe_options strtoul (OptP # os) a = nxe_options strtoul os (a\<lparr>a_do_encrypt := True\<rparr>)"
| "nxe_options strtoul (OptS s # os) a = nxe_options strtoul os (a\<lparr>a_keyfile := Some s\<rparr>)"
| "nxe_options strtoul (OptPerms s # os) a = nxe_options strtoul os (a\<lparr>a_perms := ucast (strtoul s)\<rparr>)"
| "nxe_options strtoul (OptSandbox # os) a = nxe_options strtoul os (a\<lparr>a_do_sandbox := True\<rparr>)"
| "nxe_options strtoul (OptH # os) a = Inl 0"
| "nxe_options strtoul (OptBad # os) a = Inl 1"

text \<open>
  \<open>getpass\<close> returns a pointer to its static buffer, so the second prompt overwrites what the
  first one returned: \<open>password\<close> and \<open>confirm\<close> are the same string when they are compared.
  \<open>None\<close> is a \<open>NULL\<close> from \<open>getpass\<close>; comparing with it is undefined.
\<close>

definition nxe_password :: "string option \<Rightarrow> string option \<Rightarrow> int + string" where
  "nxe_password pw1 pw2 =
     (case pw1 of
        None \<Rightarrow> Inl 1
      | Some p \<Rightarrow>
          if length p = 0 then Inl 1
          else case pw2 of
                 None \<Rightarrow> Inl (-1)
               | Some static_buf \<Rightarrow>
                   let password = static_buf; confirm = static_buf
                   in if password \<noteq> confirm then Inl 1 else Inr password)"

definition nxe_keyfile :: "bool \<Rightarrow> fs \<Rightarrow> string \<Rightarrow> int + (bytes \<times> bytes)" where
  "nxe_keyfile fopen_ok files keyfile =
     (case (if fopen_ok then files keyfile else None) of
        None \<Rightarrow> Inl 1
      | Some d \<Rightarrow>
          (case fread_all CRYPTIC_SIGN_SK_LEN d of
             None \<Rightarrow> Inl 1
           | Some (sk, d1) \<Rightarrow>
               (case fread_all CRYPTIC_SIGN_PK_LEN d1 of None \<Rightarrow> Inl 1 | Some (pk, _) \<Rightarrow> Inr (sk, pk))))"

definition nxe_build_main ::
  "sodium \<Rightarrow> build_env \<Rightarrow> (string \<Rightarrow> u64) \<Rightarrow> nxe_opt list \<Rightarrow> bool \<Rightarrow> string option \<Rightarrow> string option \<Rightarrow> bool \<Rightarrow>
   fs \<times> mem_state \<Rightarrow> int \<times> fs \<times> mem_state" where
  "nxe_build_main S v strtoul opts sodium_init_ok pw1 pw2 key_open w =
     (case nxe_options strtoul opts nxe_args0 of
        Inl c \<Rightarrow> (c, w)
      | Inr a \<Rightarrow>
          if a_input a = None \<or> a_output a = None then (1, w)
          else if \<not> sodium_init_ok then (1, w)
          else (case (if a_do_encrypt a then map_sum id Some (nxe_password pw1 pw2) else Inr None) of
                  Inl c \<Rightarrow> (c, w)
                | Inr password \<Rightarrow>
                    (case (case a_keyfile a of None \<Rightarrow> Inr None
                           | Some kf \<Rightarrow> map_sum id Some (nxe_keyfile key_open (fst w) kf)) of
                       Inl c \<Rightarrow> (c, w)
                     | Inr keys \<Rightarrow>
                         (case nxe_build S v (a_input a) (a_output a) password
                                 (map_option fst keys) (map_option snd keys) (a_perms a)
                                 (if a_do_sandbox a then NXE_FLAG_SANDBOXED else 0) w of
                            (r, w') \<Rightarrow> (if rc r = 0 then 0 else 1, w')))))"

section \<open>Header codec\<close>

definition wf_header :: "nxe_header \<Rightarrow> bool" where
  "wf_header h \<longleftrightarrow>
     length (h_magic h) = 4 \<and> length (h_signature h) = 64 \<and> length (h_pubkey h) = 32 \<and>
     length (h_payload_hash h) = 32 \<and> length (h_nonce h) = 24 \<and> length (h_salt h) = 16 \<and>
     length (h_reserved h) = 64"

lemma length_put_header [simp, byte_simps]: "wf_header h \<Longrightarrow> length (put_header h) = NXE_HEADER_LEN"
  by (simp add: put_header_def wf_header_def)

lemma get_put_header: "wf_header h \<Longrightarrow> get_header (put_header h @ rest) = h"
  by (simp add: put_header_def get_header_def wf_header_def)

lemma slice_header:
  "wf_header h \<Longrightarrow>
   slice NXE_HEADER_LEN n (put_header h @ pl) = (if n \<le> length pl then Some (take n pl) else None)"
  by (simp add: slice_def)

lemma get_header_prefix: "256 \<le> length d \<Longrightarrow> get_header (take 256 d) = get_header d"
  by (simp add: get_header_def take_drop min_def)

interpretation nxe: codec put_header
  "\<lambda>d. if length d < NXE_HEADER_LEN then None else Some (get_header d, drop NXE_HEADER_LEN d)" wf_header
  by unfold_locales (simp add: get_put_header)

lemma flag_set_or: "flag_set (a OR b) f \<longleftrightarrow> flag_set a f \<or> flag_set b f"
  by (simp add: flag_set_def bit.conj_disj_distrib2 or_eq_0_iff)

lemma flag_consts [simp]:
  "flag_set NXE_FLAG_SIGNED NXE_FLAG_SIGNED" "flag_set NXE_FLAG_ENCRYPTED NXE_FLAG_ENCRYPTED"
  "\<not> flag_set NXE_FLAG_RAM_ONLY NXE_FLAG_SIGNED" "\<not> flag_set NXE_FLAG_RAM_ONLY NXE_FLAG_ENCRYPTED"
  "\<not> flag_set NXE_FLAG_SIGNED NXE_FLAG_ENCRYPTED" "\<not> flag_set NXE_FLAG_ENCRYPTED NXE_FLAG_SIGNED"
  "\<not> flag_set NXE_FLAG_SANDBOXED NXE_FLAG_ENCRYPTED" "\<not> flag_set NXE_FLAG_SANDBOXED NXE_FLAG_SIGNED"
  "\<not> flag_set 0 f"
  by (simp_all add: flag_set_def NXE_FLAG_SIGNED_def NXE_FLAG_ENCRYPTED_def NXE_FLAG_RAM_ONLY_def
      NXE_FLAG_SANDBOXED_def)

section \<open>Building, then loading\<close>

lemma nxe_wrap_ok:
  assumes "nxe_wrap S v elf password hdr m = (Inr (hdr1, payload), m')" "wf_header hdr"
    and "aead_correct S" "pwhash_sized S"
  obtains "password = None" "hdr1 = hdr" "payload = elf"
  | pw k salt nonce where "password = Some pw" "wf_header hdr1" "length payload = length elf + CRYPTIC_MAC_LEN"
    "hdr1 = hdr\<lparr>h_flags := h_flags hdr OR NXE_FLAG_ENCRYPTED, h_salt := salt, h_nonce := nonce\<rparr>"
    "derive_normal S pw salt = Inr k"
    "crypto_decrypt_buffer S True (Some payload) (Some nonce) (Some k) = Inr elf"
proof (cases password)
  case None
  with assms(1) that(1) show thesis by (auto simp: nxe_wrap_def split: if_splits)
next
  case (Some pw)
  let ?salt = "crypto_generate_salt (be_salt v)" and ?nonce = "crypto_random_bytes (be_nonce v) 24"
  from assms(1) Some obtain k where k: "derive_normal S pw ?salt = Inr k"
    and hdr1: "hdr1 = hdr\<lparr>h_flags := h_flags hdr OR NXE_FLAG_ENCRYPTED, h_salt := ?salt, h_nonce := ?nonce\<rparr>"
    and ct: "crypto_encrypt_buffer S True (Some elf) (Some ?nonce) (Some k) = Inr payload"
    by (auto simp: nxe_wrap_def Let_def simp del: derive_key_Some encrypt_buffer_Some
        split: if_splits sum.splits option.splits prod.splits)
  show thesis
  proof (rule that(2) [OF Some _ _ hdr1 k])
    show "wf_header hdr1" using assms(2) by (simp add: hdr1 wf_header_def)
    show "length payload = length elf + CRYPTIC_MAC_LEN"
      using cc.seal_length [of S elf _ k payload] ct assms(3,4) by blast
    show "crypto_decrypt_buffer S True (Some payload) (Some ?nonce) (Some k) = Inr elf"
      by (rule cc.open_sealed [OF _ _ k ct]) (simp_all add: assms)
  qed
qed

lemma nxe_sign_ok:
  assumes "nxe_sign S sk pk payload hdr = Inr hdr'" "\<not> flag_set (h_flags hdr) NXE_FLAG_SIGNED"
    and "\<And>sk' pk'. sk = Some sk' \<Longrightarrow> pk = Some pk' \<Longrightarrow> keypair_correct S pk' sk' \<and> length pk' = 32"
    and "wf_header hdr"
  shows "wf_header hdr' \<and> nxe_check_signature S hdr' (Some payload) = Inr () \<and>
    (\<exists>f sg pkb. hdr' = hdr\<lparr>h_flags := f, h_pubkey := pkb, h_signature := sg\<rparr> \<and>
       flag_set f NXE_FLAG_ENCRYPTED = flag_set (h_flags hdr) NXE_FLAG_ENCRYPTED)"
proof (cases "sk = None \<or> pk = None")
  case True
  then have "hdr' = hdr" using assms(1) by (auto simp: nxe_sign_def split: option.splits)
  moreover have "\<exists>f sg pkb. hdr = hdr\<lparr>h_flags := f, h_pubkey := pkb, h_signature := sg\<rparr> \<and>
       flag_set f NXE_FLAG_ENCRYPTED = flag_set (h_flags hdr) NXE_FLAG_ENCRYPTED"
    by (rule exI [of _ "h_flags hdr"], rule exI [of _ "h_signature hdr"], rule exI [of _ "h_pubkey hdr"]) simp
  ultimately show ?thesis
    using assms(2,4) by (simp add: nxe_check_signature_def)
next
  case False
  then obtain sk' pk' where keys: "sk = Some sk'" "pk = Some pk'" by auto
  with assms(1) obtain sg where sg: "s_sign_detached S payload sk' = Some sg"
    and hdr': "hdr' = hdr\<lparr>h_flags := h_flags hdr OR NXE_FLAG_SIGNED, h_pubkey := take 32 pk', h_signature := sg\<rparr>"
    by (auto simp: nxe_sign_def split: option.splits sum.splits)
  have "length sg = 64 \<and> s_sign_verify S sg payload pk'" "length pk' = 32"
    using assms(3) [OF keys] sg by (auto simp: keypair_correct_def)
  moreover have "\<exists>f sg' pkb. hdr' = hdr\<lparr>h_flags := f, h_pubkey := pkb, h_signature := sg'\<rparr> \<and>
       flag_set f NXE_FLAG_ENCRYPTED = flag_set (h_flags hdr) NXE_FLAG_ENCRYPTED"
    by (rule exI [of _ "h_flags hdr OR NXE_FLAG_SIGNED"], rule exI [of _ sg], rule exI [of _ "take 32 pk'"])
      (simp add: hdr' flag_set_or)
  ultimately show ?thesis
    using assms(4) by (simp add: hdr' nxe_check_signature_def flag_set_or wf_header_def)
qed

text \<open>What a successful build has written.\<close>

lemma nxe_build_ok:
  assumes laws: "aead_correct S" "pwhash_sized S" "hash_sized S"
    and keys: "\<And>sk' pk'. sk = Some sk' \<Longrightarrow> pk = Some pk' \<Longrightarrow> keypair_correct S pk' sk' \<and> length pk' = 32"
    and flags: "\<not> flag_set flags NXE_FLAG_ENCRYPTED" "\<not> flag_set flags NXE_FLAG_SIGNED"
    and elf: "files ep = Some elf"
    and build: "nxe_build S v (Some ep) (Some np) password sk pk permissions flags (files, m) = (Inr (), files', m')"
  obtains hdr payload where "files' = files(np \<mapsto> put_header hdr @ payload)" "wf_header hdr"
    "validate_header hdr" "unat (h_payload_size hdr) = length payload"
    "unat (h_payload_offset hdr + h_payload_size hdr) = 256 + length payload"
    "h_permissions hdr = permissions"
    "nxe_check_signature S hdr (Some payload) = Inr ()"
    "flag_set (h_flags hdr) NXE_FLAG_ENCRYPTED \<longleftrightarrow> password \<noteq> None"
    "length payload = length elf + (if password = None then 0 else CRYPTIC_MAC_LEN)"
    "s_generichash S 32 elf = Some (h_payload_hash hdr)"
    "password = None \<longrightarrow> payload = elf"
    "\<forall>pw. password = Some pw \<longrightarrow> (\<exists>k. derive_normal S pw (h_salt hdr) = Inr k \<and>
       crypto_decrypt_buffer S True (Some payload) (Some (h_nonce hdr)) (Some k) = Inr elf)"
proof -
  define hdr0 where "hdr0 h = empty_header\<lparr>h_magic := NXE_MAGIC, h_version := NXE_VERSION_1_0,
    h_flags := flags OR NXE_FLAG_RAM_ONLY, h_permissions := permissions,
    h_payload_offset := word_of_nat 256, h_payload_hash := h\<rparr>" for h
  from build elf obtain h hdr1 payload hdr3 where
    len: "length elf \<le> NXE_MAX_FILE"
    and h: "s_generichash S 32 elf = Some h"
    and wrap: "nxe_wrap S v elf password (hdr0 h) m = (Inr (hdr1, payload), m')"
    and sign: "nxe_sign S sk pk payload (hdr1\<lparr>h_payload_size := word_of_nat (length payload)\<rparr>) = Inr hdr3"
    and files': "files' = files(np \<mapsto> put_header hdr3 @ payload)"
    by (auto simp: nxe_build_def hdr0_def Let_def split: if_splits sum.splits option.splits prod.splits)
  have wf0: "wf_header (hdr0 h)"
    using laws(3) h by (auto simp: hdr0_def wf_header_def hash_sized_def empty_header_def NXE_MAGIC_def)
  have plen: "length payload = length elf + (if password = None then 0 else 16)"
    and wf1: "wf_header hdr1"
    and enc: "flag_set (h_flags hdr1) NXE_FLAG_ENCRYPTED \<longleftrightarrow> password \<noteq> None"
    and uns: "\<not> flag_set (h_flags hdr1) NXE_FLAG_SIGNED"
    and same: "h_payload_hash hdr1 = h" "h_permissions hdr1 = permissions" "h_payload_offset hdr1 = 256"
      "h_magic hdr1 = NXE_MAGIC" "h_version hdr1 = NXE_VERSION_1_0"
    and plain: "password = None \<Longrightarrow> payload = elf"
    and cipher: "\<And>pw. password = Some pw \<Longrightarrow> \<exists>k. derive_normal S pw (h_salt hdr1) = Inr k \<and>
       crypto_decrypt_buffer S True (Some payload) (Some (h_nonce hdr1)) (Some k) = Inr elf"
    by (rule nxe_wrap_ok [OF wrap wf0 laws(1,2)];
        use flags wf0 in \<open>auto simp: hdr0_def flag_set_or simp del: derive_key_Some decrypt_buffer_Some\<close>)+
  obtain f sg pkb where hdr3: "hdr3 = hdr1\<lparr>h_payload_size := word_of_nat (length payload), h_flags := f, h_pubkey := pkb, h_signature := sg\<rparr>"
    and fl: "flag_set f NXE_FLAG_ENCRYPTED = flag_set (h_flags hdr1) NXE_FLAG_ENCRYPTED"
    and good: "wf_header hdr3" "nxe_check_signature S hdr3 (Some payload) = Inr ()"
    using nxe_sign_ok [OF sign] uns keys wf1 by (auto simp: wf_header_def)
  have "256 + length payload < 2 ^ 32" using len plen by (simp add: NXE_MAX_FILE_def split: if_splits)
  then have "unat (word_of_nat (length payload) :: u32) = length payload"
    "unat (word_of_nat (256 + length payload) :: u32) = 256 + length payload"
    by (intro unat_word_of_nat_32; linarith)+
  then show thesis
    by (intro that [of hdr3 payload] files' good)
      (simp_all add: hdr3 validate_header_def same fl enc plen h plain cipher del: derive_key_Some decrypt_buffer_Some)
qed

lemma nxe_load_built:
  assumes laws: "aead_correct S" "pwhash_sized S" "hash_sized S"
    and keys: "\<And>sk' pk'. sk = Some sk' \<Longrightarrow> pk = Some pk' \<Longrightarrow> keypair_correct S pk' sk' \<and> length pk' = 32"
    and flags: "\<not> flag_set flags NXE_FLAG_ENCRYPTED" "\<not> flag_set flags NXE_FLAG_SIGNED"
    and elf: "files ep = Some elf"
    and build: "nxe_build S v (Some ep) (Some np) password sk pk permissions flags (files, m) = (Inr (), files', m')"
    and env: "le_open_ok u" "le_file_malloc u" "le_read_ok u" "le_elf_malloc u" "le_memfd u = Some fd"
      "le_write_ok u" "le_exec_ok u" "initialized m2" "le_key_mem u \<noteq> None"
  shows "fst (nxe_load_and_exec S u np password argv (Some envp) (files', m2)) =
    (if NXE_HEADER_LEN + length elf + (if password = None then 0 else CRYPTIC_MAC_LEN) \<le> NXE_MAX_FILE
     then Inr \<lparr>x_path = snprintf_buf 64 (''/proc/self/fd/'' @ fmt_d fd), x_image = elf,
               x_argv = argv, x_envp = envp\<rparr>
     else Inl ETooBig)"
proof -
  obtain hdr payload where
    files': "files' = files(np \<mapsto> put_header hdr @ payload)" and wf: "wf_header hdr"
    and valid: "validate_header hdr" and psz: "unat (h_payload_size hdr) = length payload"
    and sum: "unat (h_payload_offset hdr + h_payload_size hdr) = 256 + length payload"
    and perms: "h_permissions hdr = permissions"
    and sig: "nxe_check_signature S hdr (Some payload) = Inr ()"
    and enc: "flag_set (h_flags hdr) NXE_FLAG_ENCRYPTED \<longleftrightarrow> password \<noteq> None"
    and len: "length payload = length elf + (if password = None then 0 else CRYPTIC_MAC_LEN)"
    and hash: "s_generichash S 32 elf = Some (h_payload_hash hdr)"
    and plain: "password = None \<longrightarrow> payload = elf"
    and cipher: "\<forall>pw. password = Some pw \<longrightarrow> (\<exists>k. derive_normal S pw (h_salt hdr) = Inr k \<and>
       crypto_decrypt_buffer S True (Some payload) (Some (h_nonce hdr)) (Some k) = Inr elf)"
    by (rule nxe_build_ok [OF laws keys flags elf build])
  have off: "unat (h_payload_offset hdr) = 256" using valid by (simp add: validate_header_def)
  have sl: "slice (unat (h_payload_offset hdr)) (unat (h_payload_size hdr)) (put_header hdr @ payload) = Some payload"
    using wf psz off by simp
  have unwrap: "fst (nxe_unwrap S u hdr (Some payload) password m2) = Inr elf"
  proof (cases password)
    case None
    then show ?thesis using enc plain env by (simp add: nxe_unwrap_def)
  next
    case (Some pw)
    with cipher env enc show ?thesis
      by (auto simp: nxe_unwrap_def secure_alloc_def simp del: derive_key_Some decrypt_buffer_Some
          split: prod.splits)
  qed
  have exec: "nxe_execute S u hdr elf argv (Some envp) =
      Inr \<lparr>x_path = snprintf_buf 64 (''/proc/self/fd/'' @ fmt_d fd), x_image = elf, x_argv = argv, x_envp = envp\<rparr>"
    using hash env by (simp add: nxe_execute_def)
  show ?thesis
    using env wf valid sum sig unwrap exec len
    by (auto simp: nxe_load_and_exec_def read_full_file_def files' get_put_header sl
        payload_in_file_def Let_def split: prod.splits)
qed


section \<open>What is executed\<close>

text \<open>The checks a load passes before it unwraps the payload.\<close>

lemma read_full_file_ok:
  "read_full_file v p files = Inr d \<Longrightarrow> files p = Some d \<and> length d \<le> NXE_MAX_FILE"
  by (auto simp: read_full_file_def split: option.splits if_splits)

lemma slice_payload:
  "slice 256 n d = Some pl \<Longrightarrow> 256 + n \<le> length d \<and> pl = take n (drop 256 d)"
  by (auto simp: slice_def split: if_splits)

lemma nxe_unwrap_ok:
  assumes "nxe_unwrap S v h payload password m = (Inr elf, m')"
  shows "\<exists>pl. payload = Some pl \<and>
    (if flag_set (h_flags h) NXE_FLAG_ENCRYPTED
     then \<exists>pw k. password = Some pw \<and>
       s_pwhash S 32 pw (h_salt h) CRYPTIC_KDF_OPSLIMIT_NORMAL CRYPTIC_KDF_MEMLIMIT_NORMAL = Some k \<and>
       s_aead_decrypt S pl (h_nonce h) k = Some elf
     else elf = pl)"
  using assms by (auto simp: nxe_unwrap_def split: if_splits option.splits sum.splits prod.splits)

lemma nxe_unwrap_cong:
  assumes "flag_set (h_flags h) NXE_FLAG_ENCRYPTED = flag_set (h_flags h') NXE_FLAG_ENCRYPTED"
    "h_salt h = h_salt h'" "h_nonce h = h_nonce h'"
  shows "nxe_unwrap S v h = nxe_unwrap S v h'"
  by (intro ext) (unfold nxe_unwrap_def assms, rule refl)

lemma nxe_execute_cong:
  assumes "h_payload_hash h = h_payload_hash h'"
  shows "nxe_execute S v h = nxe_execute S v h'"
  by (intro ext) (unfold nxe_execute_def assms, rule refl)

lemma nxe_execute_ok:
  "nxe_execute S v h elf argv envp = Inr x \<Longrightarrow>
   x_image x = elf \<and> x_argv x = argv \<and> s_generichash S 32 elf = Some (h_payload_hash h)"
  by (auto simp: nxe_execute_def split: if_splits option.splits sum.splits)

text \<open>
  C7: whatever file is loaded, an image is executed only if the file has a valid header, the
  payload lies inside the file, the header's hash is the hash of the image, a payload that is
  flagged as signed verifies under the header's public key, and the image is the payload, or
  what the payload decrypts to under the key of the given password when it is flagged as
  encrypted.
\<close>

theorem nxe_exec_sound:
  assumes "nxe_load_and_exec S v p password argv envp (files, m) = (Inr x, m')"
  shows "\<exists>d h pl. files p = Some d \<and> length d \<le> NXE_MAX_FILE \<and> h = get_header d \<and> validate_header h \<and>
    NXE_HEADER_LEN + unat (h_payload_size h) \<le> length d \<and>
    pl = take (unat (h_payload_size h)) (drop NXE_HEADER_LEN d) \<and>
    s_generichash S 32 (x_image x) = Some (h_payload_hash h) \<and> x_argv x = argv \<and>
    (flag_set (h_flags h) NXE_FLAG_SIGNED \<longrightarrow> s_sign_verify S (h_signature h) pl (h_pubkey h)) \<and>
    (if flag_set (h_flags h) NXE_FLAG_ENCRYPTED
     then \<exists>pw k. password = Some pw \<and>
       s_pwhash S 32 pw (h_salt h) CRYPTIC_KDF_OPSLIMIT_NORMAL CRYPTIC_KDF_MEMLIMIT_NORMAL = Some k \<and>
       s_aead_decrypt S pl (h_nonce h) k = Some (x_image x)
     else x_image x = pl)"
proof -
  from assms obtain d elf m1 where d: "read_full_file v p files = Inr d"
    and valid: "validate_header (get_header d)"
    and sig: "nxe_check_signature S (get_header d) (slice (unat (h_payload_offset (get_header d)))
        (unat (h_payload_size (get_header d))) d) = Inr ()"
    and unwrap: "nxe_unwrap S v (get_header d) (slice (unat (h_payload_offset (get_header d)))
        (unat (h_payload_size (get_header d))) d) password m = (Inr elf, m1)"
    and exec: "nxe_execute S v (get_header d) elf argv envp = Inr x"
    by (auto simp: nxe_load_and_exec_def Let_def split: sum.splits if_splits prod.splits)
  have off: "unat (h_payload_offset (get_header d)) = 256" using valid by (simp add: validate_header_def)
  from nxe_unwrap_ok [OF unwrap] obtain pl where
    pl: "slice 256 (unat (h_payload_size (get_header d))) d = Some pl"
    and image: "if flag_set (h_flags (get_header d)) NXE_FLAG_ENCRYPTED
     then \<exists>pw k. password = Some pw \<and>
       s_pwhash S 32 pw (h_salt (get_header d)) CRYPTIC_KDF_OPSLIMIT_NORMAL CRYPTIC_KDF_MEMLIMIT_NORMAL = Some k \<and>
       s_aead_decrypt S pl (h_nonce (get_header d)) k = Some elf
     else elf = pl"
    by (auto simp: off)
  show ?thesis
    using read_full_file_ok [OF d] valid slice_payload [OF pl] nxe_execute_ok [OF exec] image sig
    by (intro exI [of _ d] exI [of _ "get_header d"] exI [of _ pl])
      (auto simp: nxe_check_signature_def off pl)
qed

text \<open>
  The signature is optional for the loader. Clearing the flag in the header (which the
  signature does not cover) of any file that is executed gives a file that is executed all
  the same, whatever stands in the signature field.
\<close>

theorem nxe_signature_strippable:
  assumes "wf_header h" "length sg = CRYPTIC_SIG_LEN"
    and "nxe_load_and_exec S v p password argv envp (files(p \<mapsto> put_header h @ pl), m) = (Inr x, m')"
  shows "nxe_load_and_exec S v p password argv envp
    (files(p \<mapsto> put_header (h\<lparr>h_flags := h_flags h AND NOT NXE_FLAG_SIGNED, h_signature := sg\<rparr>) @ pl), m) =
    (Inr x, m')"
proof -
  let ?h = "h\<lparr>h_flags := h_flags h AND NOT NXE_FLAG_SIGNED, h_signature := sg\<rparr>"
  have wf: "wf_header ?h" using assms(1,2) by (simp add: wf_header_def)
  have uns: "\<not> flag_set (h_flags ?h) NXE_FLAG_SIGNED"
    by (simp add: flag_set_def and.assoc)
  have "NOT NXE_FLAG_SIGNED AND NXE_FLAG_ENCRYPTED = NXE_FLAG_ENCRYPTED"
    by (simp add: NXE_FLAG_SIGNED_def NXE_FLAG_ENCRYPTED_def)
  then have enc: "flag_set (h_flags ?h) NXE_FLAG_ENCRYPTED = flag_set (h_flags h) NXE_FLAG_ENCRYPTED"
    by (simp add: flag_set_def and.assoc)
  then have unwrap: "nxe_unwrap S v ?h = nxe_unwrap S v h"
    by (intro nxe_unwrap_cong) simp_all
  have exec: "nxe_execute S v ?h = nxe_execute S v h"
    by (intro nxe_execute_cong) simp
  from assms(1,3) wf show ?thesis
    using uns
    by (auto simp: nxe_load_and_exec_def read_full_file_def get_put_header Let_def validate_header_def
        payload_in_file_def nxe_check_signature_def unwrap exec slice_header split: if_splits sum.splits prod.splits)
qed

text \<open>
  The permissions of a program and its flags \<open>SANDBOXED\<close> and \<open>RAM_ONLY\<close> have no effect.
  For any file with a header, exchanging the permission word and every flag but
  \<open>ENCRYPTED\<close> and \<open>SIGNED\<close> changes nothing of what \<open>nxe_load_and_exec\<close> does: it executes the
  same image with the same arguments and environment, or fails in the same way.
\<close>

theorem nxe_permissions_ignored:
  assumes "wf_header h" "flag_set fl NXE_FLAG_ENCRYPTED = flag_set (h_flags h) NXE_FLAG_ENCRYPTED"
    and "flag_set fl NXE_FLAG_SIGNED = flag_set (h_flags h) NXE_FLAG_SIGNED"
  shows "nxe_load_and_exec S v p password argv envp
      (files(p \<mapsto> put_header (h\<lparr>h_permissions := perms, h_flags := fl\<rparr>) @ pl), m) =
    nxe_load_and_exec S v p password argv envp (files(p \<mapsto> put_header h @ pl), m)"
proof -
  let ?h = "h\<lparr>h_permissions := perms, h_flags := fl\<rparr>"
  have wf: "wf_header ?h" using assms(1) by (simp add: wf_header_def)
  have unwrap: "nxe_unwrap S v ?h = nxe_unwrap S v h"
    using assms(2) by (intro nxe_unwrap_cong) simp_all
  have exec: "nxe_execute S v ?h = nxe_execute S v h"
    by (intro nxe_execute_cong) simp
  have sig: "nxe_check_signature S ?h = nxe_check_signature S h"
    using assms(3) by (simp add: nxe_check_signature_def fun_eq_iff split: option.splits)
  show ?thesis
    using wf assms(1)
    by (simp add: nxe_load_and_exec_def read_full_file_def get_put_header Let_def validate_header_def
        payload_in_file_def unwrap exec sig slice_header split: sum.splits prod.splits)
qed

section \<open>The bounds check\<close>

lemma nxe_no_undefined:
  "nxe_check_signature S h (Some pl) \<noteq> Inl EUndefined"
  "fst (nxe_unwrap S v h (Some pl) password m) \<noteq> Inl EUndefined"
  "nxe_execute S v h elf argv envp \<noteq> Inl EUndefined"
  by (auto simp: nxe_check_signature_def nxe_unwrap_def nxe_execute_def
      split: if_splits option.splits prod.splits)

lemma payload_sum:
  assumes "validate_header h"
  shows "unat (h_payload_offset h + h_payload_size h) =
    (if unat (h_payload_size h) < 2 ^ 32 - 256 then 256 + unat (h_payload_size h)
     else unat (h_payload_size h) - (2 ^ 32 - 256))"
proof -
  have "unat (h_payload_size h) < 2 ^ 32"
    using unsigned_less [where 'a = nat, of "h_payload_size h"] by simp
  then show ?thesis
    using assms by (auto simp: validate_header_def unat_word_ariths mod_if)
qed


section \<open>The command line tool\<close>

lemma nxe_options_encrypt:
  "nxe_options strtoul opts a = Inr b \<Longrightarrow> a_do_encrypt b \<longleftrightarrow> a_do_encrypt a \<or> OptP \<in> set opts"
  by (induction strtoul opts a rule: nxe_options.induct) auto

lemma nxe_build_uninitialized:
  assumes "nxe_build S v ep np (Some pw) sk pk perms flags (files, m) = (r, w')" "\<not> initialized m"
  shows "w' = (files, m) \<and> rc r = -1"
  using assms
  by (auto simp: nxe_build_def nxe_wrap_def Let_def secure_alloc_def split: option.splits sum.splits if_splits)

lemma map_sum_Some:
  "map_sum id Some x = Inl c \<longleftrightarrow> x = Inl c" "map_sum id Some x = Inr y \<longleftrightarrow> (\<exists>z. x = Inr z \<and> y = Some z)"
  by (cases x; auto)+

lemma nxe_prompt_status:
  "nxe_password pw1 pw2 = Inl c \<Longrightarrow> c \<noteq> 0" "nxe_keyfile b files kf = Inl c \<Longrightarrow> c \<noteq> 0"
  by (auto simp: nxe_password_def nxe_keyfile_def Let_def split: option.splits if_splits prod.splits)

text \<open>
  The tool never encrypts. It initialises libsodium but not the secure memory, so with
  the option \<open>-p\<close> the allocation of the key fails: no file is written and, help aside, the
  exit status is not 0.
\<close>

theorem nxe_build_main_never_encrypts:
  assumes "OptP \<in> set opts"
    and "nxe_build_main S v strtoul opts sodium_ok pw1 pw2 key_open (files, mem_start) = (status, w')"
  shows "w' = (files, mem_start) \<and> (status = 0 \<longrightarrow> nxe_options strtoul opts nxe_args0 = Inl 0)"
proof (cases "nxe_options strtoul opts nxe_args0")
  case (Inl c)
  with assms(2) show ?thesis by (simp add: nxe_build_main_def)
next
  case (Inr a)
  have "a_do_encrypt a" using nxe_options_encrypt [OF Inr] assms(1) by simp
  moreover have "\<not> initialized mem_start" by (simp add: mem_start_def)
  ultimately show ?thesis
    using assms(2) Inr
    by (auto simp: nxe_build_main_def map_sum_Some dest: nxe_build_uninitialized nxe_prompt_status
        split: if_splits sum.splits option.splits prod.splits)
qed

section \<open>Secure memory\<close>

text \<open>
  Building and loading give the key buffer back on every path, errors included (a load
  that is undefined apart).
\<close>

theorem nxe_secure_memory_balance:
  assumes "mem_inv m" "fresh (be_key_mem v) m" "fresh (le_key_mem u) m"
  shows "snd (snd (nxe_build S v ep np password sk pk permissions flags (files, m))) = m \<and>
    (fst (nxe_load_and_exec S u p password argv envp (files, m)) \<noteq> Inl EUndefined \<longrightarrow>
     snd (nxe_load_and_exec S u p password argv envp (files, m)) = m)"
proof (intro conjI impI)
  have wrap: "m' = m" if "nxe_wrap S v elf password hdr m = (r, m')" for elf hdr r m'
    using that assms sm.alloc_failed [of "(be_key_mem v, be_key_node v)" 32 m]
      free_after_alloc [of m "be_key_mem v" "be_key_node v" 32]
    by (auto simp: nxe_wrap_def Let_def simp del: derive_key_Some encrypt_buffer_Some
        split: option.splits prod.splits if_splits sum.splits)
  show "snd (snd (nxe_build S v ep np password sk pk permissions flags (files, m))) = m"
    by (auto simp: nxe_build_def Let_def dest: wrap split: option.splits prod.splits if_splits sum.splits)
next
  have unwrap: "m' = m" if "nxe_unwrap S u h pl password m = (r, m')" "r \<noteq> Inl EUndefined" for h pl r m'
    using that assms sm.alloc_failed [of "(le_key_mem u, le_key_node u)" 32 m]
      free_after_alloc [of m "le_key_mem u" "le_key_node u" 32]
    by (auto simp: nxe_unwrap_def simp del: derive_key_Some decrypt_buffer_Some
        split: option.splits prod.splits if_splits sum.splits)
  assume "fst (nxe_load_and_exec S u p password argv envp (files, m)) \<noteq> Inl EUndefined"
  then show "snd (nxe_load_and_exec S u p password argv envp (files, m)) = m"
    by (auto simp: nxe_load_and_exec_def Let_def dest: unwrap
        split: option.splits prod.splits if_splits sum.splits)
qed

section \<open>Examples\<close>

definition elf0 :: bytes where "elf0 = [0x7f, 0x45, 0x4c, 0x46]"

definition header0 :: nxe_header where
  "header0 = empty_header\<lparr>h_magic := NXE_MAGIC, h_version := NXE_VERSION_1_0, h_flags := NXE_FLAG_SIGNED,
     h_signature := pad_to 64 elf0, h_payload_hash := pad_to 32 elf0, h_payload_offset := 256,
     h_payload_size := 4\<rparr>"

definition load_env0 :: load_env where
  "load_env0 = \<lparr>le_open_ok = True, le_file_malloc = True, le_read_ok = True, le_key_mem = Some (4096, 0xdb),
     le_key_node = True, le_elf_malloc = True, le_memfd = Some 3, le_write_ok = True, le_exec_ok = True,
     le_environ = [''PATH=/bin'']\<rparr>"

definition build_env0 :: build_env where
  "build_env0 = \<lparr>be_open_in = True, be_malloc_elf = True, be_read_ok = True, be_salt = (\<lambda>i. 7),
     be_nonce = (\<lambda>i. 9), be_key_mem = Some (4096, 0xdb), be_key_node = True, be_malloc_payload = True,
     be_open_out = True, be_write_ok = True\<rparr>"

lemma header0_wf: "wf_header header0"
  by (simp add: header0_def wf_header_def empty_header_def NXE_MAGIC_def)

lemma length_elf0 [simp]: "length elf0 = 4"
  by (simp add: elf0_def)

lemma load0:
  "nxe_load_and_exec sodium_example load_env0 ''/a.nxe'' None [''a''] None
     ([''/a.nxe'' \<mapsto> put_header header0 @ elf0], mem0) =
   (Inr \<lparr>x_path = snprintf_buf 64 (''/proc/self/fd/'' @ fmt_d 3), x_image = elf0, x_argv = [''a''],
         x_envp = [''PATH=/bin'']\<rparr>, mem0)"
proof -
  have rd: "read_full_file load_env0 ''/a.nxe'' [''/a.nxe'' \<mapsto> put_header header0 @ elf0] =
      Inr (put_header header0 @ elf0)"
    by (simp add: read_full_file_def load_env0_def header0_wf NXE_MAX_FILE_def)
  have h: "validate_header header0" "payload_in_file header0 260" "unat (h_payload_offset header0) = 256"
      "unat (h_payload_size header0) = 4"
    by (simp_all add: validate_header_def header0_def payload_in_file_def)
  have sig: "nxe_check_signature sodium_example header0 (Some elf0) = Inr ()"
    by (simp add: nxe_check_signature_def header0_def sodium_example_ops)
  have un: "nxe_unwrap sodium_example load_env0 header0 (Some elf0) None mem0 = (Inr elf0, mem0)"
    by (simp add: nxe_unwrap_def header0_def load_env0_def)
  have ex: "nxe_execute sodium_example load_env0 header0 elf0 [''a''] None =
    Inr \<lparr>x_path = snprintf_buf 64 (''/proc/self/fd/'' @ fmt_d 3), x_image = elf0, x_argv = [''a''],
         x_envp = [''PATH=/bin'']\<rparr>"
    using hash_buffer_Some [of sodium_example elf0]
    by (simp add: nxe_execute_def load_env0_def header0_def sodium_example_ops)
  have gh: "get_header (put_header header0 @ elf0) = header0" by (rule get_put_header [OF header0_wf])
  have sl: "slice 256 4 (put_header header0 @ elf0) = Some elf0"
    by (simp add: slice_header [OF header0_wf])
  show ?thesis
    unfolding nxe_load_and_exec_def
    by (simp add: rd gh h sl sig un ex header0_wf Let_def)
qed

lemma build0:
  "fst (nxe_build sodium_example build_env0 (Some ''/elf'') (Some ''/a.nxe'') (Some ''pw'')
     (Some (replicate 64 1)) (Some (replicate 32 1)) 0 0 ([''/elf'' \<mapsto> elf0], mem0)) = Inr ()"
  using hash_buffer_Some [of sodium_example elf0]
  by (simp add: nxe_build_def nxe_wrap_def nxe_sign_def build_env0_def secure_alloc_def Let_def
      NXE_MAX_FILE_def sodium_example_ops)


theorem nxe_exec_sound_witness:
  "\<exists>d. [''/a.nxe'' \<mapsto> put_header header0 @ elf0] ''/a.nxe'' = Some d \<and> validate_header (get_header d) \<and>
     s_generichash sodium_example 32 elf0 = Some (h_payload_hash (get_header d))"
  using nxe_exec_sound [OF load0] by auto

theorem nxe_permissions_ignored_witness:
  "fst (nxe_load_and_exec sodium_example load_env0 ''/a.nxe'' None [''a''] None
     ([''/a.nxe'' \<mapsto> put_header (header0\<lparr>h_permissions := 0, h_flags := h_flags header0 OR NXE_FLAG_SANDBOXED\<rparr>) @ elf0], mem0)) =
   Inr \<lparr>x_path = snprintf_buf 64 (''/proc/self/fd/'' @ fmt_d 3), x_image = elf0, x_argv = [''a''],
         x_envp = [''PATH=/bin'']\<rparr>"
  using nxe_permissions_ignored [OF header0_wf, of "h_flags header0 OR NXE_FLAG_SANDBOXED" sodium_example load_env0
      "''/a.nxe''" None "[''a'']" None Map.empty 0 elf0 mem0] load0
  by (simp add: flag_set_or)

theorem nxe_signature_strippable_witness:
  "fst (nxe_load_and_exec sodium_example load_env0 ''/a.nxe'' None [''a''] None
     ([''/a.nxe'' \<mapsto> put_header (header0\<lparr>h_flags := h_flags header0 AND NOT NXE_FLAG_SIGNED,
        h_signature := replicate 64 0\<rparr>) @ elf0], mem0)) =
   Inr \<lparr>x_path = snprintf_buf 64 (''/proc/self/fd/'' @ fmt_d 3), x_image = elf0, x_argv = [''a''],
         x_envp = [''PATH=/bin'']\<rparr>"
  using nxe_signature_strippable [OF header0_wf _ load0, of "replicate 64 0"] by simp


theorem nxe_build_main_never_encrypts_witness:
  "snd (nxe_build_main sodium_example build_env0 (\<lambda>s. 0) [OptI ''/elf'', OptO ''/a.nxe'', OptP] True
     (Some ''pw'') (Some ''pw'') True ([''/elf'' \<mapsto> elf0], mem_start)) = ([''/elf'' \<mapsto> elf0], mem_start)"
proof -
  let ?r = "nxe_build_main sodium_example build_env0 (\<lambda>s. 0) [OptI ''/elf'', OptO ''/a.nxe'', OptP] True
     (Some ''pw'') (Some ''pw'') True ([''/elf'' \<mapsto> elf0], mem_start)"
  have "OptP \<in> set [OptI ''/elf'', OptO ''/a.nxe'', OptP]" by simp
  from nxe_build_main_never_encrypts [OF this, of sodium_example build_env0 "\<lambda>s. 0" True "Some ''pw''"
      "Some ''pw''" True "[''/elf'' \<mapsto> elf0]" "fst ?r" "snd ?r"]
  show ?thesis by simp
qed

theorem nxe_secure_memory_balance_witness:
  "snd (snd (nxe_build sodium_example build_env0 (Some ''/elf'') (Some ''/a.nxe'') (Some ''pw'') None None 0 0
     ([''/elf'' \<mapsto> elf0], mem0))) = mem0"
  using nxe_secure_memory_balance [of mem0 build_env0 load_env0 sodium_example "Some ''/elf''" "Some ''/a.nxe''"
      "Some ''pw''" None None 0 0 "[''/elf'' \<mapsto> elf0]"]
  by (simp add: fresh_def build_env0_def load_env0_def)

end
