(* ===== verification/Nxe_Tool.thy ===== *)
theory Nxe_Tool
  imports Nxe_Format
begin

text \<open>
  The command line of \<open>nxe-build\<close> (\<open>usage\<close> and the first part of \<open>main\<close> in
  \<open>crypticengine/src/nxe_builder.c\<close>): the option tables of the file, read by the C library's
  \<open>getopt_long\<close> (short options in clusters, long options by a unique prefix, arguments in the
  same or the next word, words that are no options skipped), and the number after \<open>-P\<close> read by
  \<open>strtoul\<close> with base 0. What \<open>Nxe_Format.nxe_build_main\<close> takes as a list of options is
  computed here from \<open>argv\<close>.
\<close>

section \<open>The tables\<close>

datatype has_arg = no_argument | required_argument

definition long_opts :: "(string \<times> has_arg \<times> char) list" where
  "long_opts =
     [(''input'', required_argument, CHR ''i''),
      (''output'', required_argument, CHR ''o''),
      (''password'', no_argument, CHR ''p''),
      (''sign'', required_argument, CHR ''s''),
      (''perms'', required_argument, CHR ''P''),
      (''sandbox'', no_argument, CHR ''S''),
      (''help'', no_argument, CHR ''h'')]"

definition short_opts :: string where
  "short_opts = ''i:o:ps:P:Sh''"

text \<open>The lines that \<open>usage\<close> writes.\<close>

definition usage :: "string \<Rightarrow> string list" where
  "usage prog =
     [''SecureZ+ NXE Builder v1.0'',
      [],
      ''Usage: '' @ prog @ '' [OPTIONS] -i <input.elf> -o <output.nxe>'',
      [],
      ''Options:'',
      ''  -i, --input <file>    Input ELF binary'',
      ''  -o, --output <file>   Output .nxe file'',
      ''  -p, --password        Encrypt with password (prompted)'',
      ''  -s, --sign <keyfile>  Sign with Ed25519 secret key file'',
      ''  -P, --perms <flags>   Permission flags (hex, e.g., 0x07)'',
      ''  --sandbox             Enable sandboxed execution'',
      ''  -h, --help            Show this help'',
      [],
      ''Examples:'',
      ''  '' @ prog @ '' -i hello -o hello.nxe -p            # Encrypt with password'',
      ''  '' @ prog @ '' -i hello -o hello.nxe -s key.sec    # Sign with key'',
      ''  '' @ prog @ '' -i hello -o hello.nxe -p -s key.sec # Encrypt + sign'']"

section \<open>getopt\_long\<close>

text \<open>Is this character an option, and does it take an argument?\<close>

fun opt_lookup :: "string \<Rightarrow> char \<Rightarrow> has_arg option" where
  "opt_lookup [] c = None"
| "opt_lookup (x # xs) c =
     (if x = c \<and> c \<noteq> CHR '':''
      then Some (if xs \<noteq> [] \<and> hd xs = CHR '':'' then required_argument else no_argument)
      else opt_lookup xs c)"

text \<open>A long option is given by its name or by a prefix that only it has.\<close>

definition long_lookup :: "string \<Rightarrow> (has_arg \<times> char) option" where
  "long_lookup name =
     (case map_of long_opts name of
        Some r \<Rightarrow> Some r
      | None \<Rightarrow>
          (case filter (\<lambda>l. is_prefix name (fst l)) long_opts of
             [l] \<Rightarrow> Some (snd l)
           | _ \<Rightarrow> None))"

text \<open>The \<open>switch\<close> of \<open>main\<close> sees the character and \<open>optarg\<close>.\<close>

definition opt_of :: "char \<Rightarrow> string \<Rightarrow> nxe_opt" where
  "opt_of c optarg =
     (if c = CHR ''i'' then OptI optarg
      else if c = CHR ''o'' then OptO optarg
      else if c = CHR ''p'' then OptP
      else if c = CHR ''s'' then OptS optarg
      else if c = CHR ''P'' then OptPerms optarg
      else if c = CHR ''S'' then OptSandbox
      else if c = CHR ''h'' then OptH
      else OptBad)"

function getopt_long :: "string list \<Rightarrow> nxe_opt list"
  and getopt_cluster :: "string \<Rightarrow> string list \<Rightarrow> nxe_opt list" where
  "getopt_long [] = []"
| "getopt_long (a # as) =
     (if a = ''--'' then []
      else if is_prefix ''--'' a then
        let name = takeWhile (\<lambda>c. c \<noteq> CHR ''='') (drop 2 a);
            val = drop (length name) (drop 2 a)
        in (case long_lookup name of
              None \<Rightarrow> OptBad # getopt_long as
            | Some (no_argument, c) \<Rightarrow> (if val = [] then opt_of c [] else OptBad) # getopt_long as
            | Some (required_argument, c) \<Rightarrow>
                if val \<noteq> [] then opt_of c (tl val) # getopt_long as
                else (case as of [] \<Rightarrow> [OptBad] | b # bs \<Rightarrow> opt_of c b # getopt_long bs))
      else if is_prefix ''-'' a \<and> a \<noteq> ''-'' then getopt_cluster (tl a) as
      else getopt_long as)"
| "getopt_cluster [] as = getopt_long as"
| "getopt_cluster (c # cs) as =
     (case opt_lookup short_opts c of
        None \<Rightarrow> OptBad # getopt_cluster cs as
      | Some no_argument \<Rightarrow> opt_of c [] # getopt_cluster cs as
      | Some required_argument \<Rightarrow>
          if cs \<noteq> [] then opt_of c cs # getopt_long as
          else (case as of [] \<Rightarrow> [OptBad] | b # bs \<Rightarrow> opt_of c b # getopt_long bs))"
  by pat_completeness auto
termination
  by (relation "measure (\<lambda>x. case x of Inl as \<Rightarrow> sum_list (map length as) + length as
      | Inr (cs, as) \<Rightarrow> length cs + sum_list (map length as) + length as + 1)")
    (auto intro!: diff_less elim: is_prefix.elims)

section \<open>strtoul\<close>

definition digit_val :: "char \<Rightarrow> nat" where
  "digit_val c =
     (let n = of_char c :: nat in
      if 48 \<le> n \<and> n \<le> 57 then n - 48
      else if 97 \<le> n \<and> n \<le> 122 then n - 87
      else if 65 \<le> n \<and> n \<le> 90 then n - 55
      else 36)"

fun strtoul_digits :: "nat \<Rightarrow> nat \<Rightarrow> string \<Rightarrow> nat" where
  "strtoul_digits base acc [] = acc"
| "strtoul_digits base acc (c # cs) =
     (if digit_val c < base then strtoul_digits base (acc * base + digit_val c) cs else acc)"

definition strtoul_base :: "string \<Rightarrow> nat \<times> string" where
  "strtoul_base u =
     (if 2 < length u \<and> u ! 0 = CHR ''0'' \<and> u ! 1 \<in> {CHR ''x'', CHR ''X''} \<and> digit_val (u ! 2) < 16
      then (16, drop 2 u)
      else if u \<noteq> [] \<and> hd u = CHR ''0'' then (8, u)
      else (10, u))"

definition strtoul :: "string \<Rightarrow> u64" where
  "strtoul s =
     (let t = dropWhile isspace s;
          neg = (t \<noteq> [] \<and> hd t = CHR ''-'');
          u = (if t \<noteq> [] \<and> (hd t = CHR ''-'' \<or> hd t = CHR ''+'') then tl t else t);
          (base, ds) = strtoul_base u;
          n = strtoul_digits base 0 ds
      in if n \<ge> 2 ^ 64 then - 1
         else if neg then - word_of_nat n else word_of_nat n)"

section \<open>main\<close>

text \<open>The exit status, the usage text if it was printed, the files and the memory.\<close>

definition nxe_tool ::
  "sodium \<Rightarrow> build_env \<Rightarrow> string list \<Rightarrow> bool \<Rightarrow> string option \<Rightarrow> string option \<Rightarrow> bool \<Rightarrow>
   fs \<times> mem_state \<Rightarrow> int \<times> string list \<times> fs \<times> mem_state" where
  "nxe_tool S v argv sodium_init_ok pw1 pw2 key_open w =
     (let opts = getopt_long (tl argv);
          printed =
            (case nxe_options strtoul opts nxe_args0 of
               Inl _ \<Rightarrow> usage (hd argv)
             | Inr a \<Rightarrow> if a_input a = None \<or> a_output a = None then usage (hd argv) else []);
          (status, w') = nxe_build_main S v strtoul opts sodium_init_ok pw1 pw2 key_open w
      in (status, printed, w'))"

section \<open>Every way to write an option\<close>

text \<open>
  The spellings of an option: a short option with its argument in the next or in the same
  word, and a long option, by any prefix of its name that \<open>getopt_long\<close> accepts.
\<close>

inductive spells :: "nxe_opt \<Rightarrow> string list \<Rightarrow> bool" where
  short_arg: "opt_lookup short_opts c = Some required_argument \<Longrightarrow>
     spells (opt_of c s) [[CHR ''-'', c], s]"
| short_joined: "opt_lookup short_opts c = Some required_argument \<Longrightarrow> s \<noteq> [] \<Longrightarrow>
     spells (opt_of c s) [CHR ''-'' # c # s]"
| short_flag: "opt_lookup short_opts c = Some no_argument \<Longrightarrow> spells (opt_of c []) [[CHR ''-'', c]]"
| long_arg: "long_lookup n = Some (required_argument, c) \<Longrightarrow> CHR ''='' \<notin> set n \<Longrightarrow> n \<noteq> [] \<Longrightarrow>
     spells (opt_of c s) [''--'' @ n, s]"
| long_joined: "long_lookup n = Some (required_argument, c) \<Longrightarrow> CHR ''='' \<notin> set n \<Longrightarrow>
     spells (opt_of c s) [''--'' @ n @ ''='' @ s]"
| long_flag: "long_lookup n = Some (no_argument, c) \<Longrightarrow> CHR ''='' \<notin> set n \<Longrightarrow> n \<noteq> [] \<Longrightarrow>
     spells (opt_of c []) [''--'' @ n]"

text \<open>A word that is neither an option nor the argument of one.\<close>

definition non_option :: "string \<Rightarrow> bool" where
  "non_option a \<longleftrightarrow> a = ''-'' \<or> \<not> is_prefix ''-'' a"

lemma getopt_plain: "non_option a \<Longrightarrow> getopt_long (a # as) = getopt_long as"
  by (cases a) (auto simp: non_option_def)

lemma opt_lookup_dash: "opt_lookup short_opts c = Some h \<Longrightarrow> c \<noteq> CHR ''-''"
  by (auto simp: short_opts_def)

lemma takeWhile_name: "CHR ''='' \<notin> set n \<Longrightarrow> takeWhile (\<lambda>c. c \<noteq> CHR ''='') n = n"
  by (simp add: takeWhile_eq_all_conv) blast

lemma takeWhile_name_eq: "CHR ''='' \<notin> set n \<Longrightarrow> takeWhile (\<lambda>c. c \<noteq> CHR ''='') (n @ CHR ''='' # s) = n"
  by (induction n) auto

lemma getopt_spelled:
  assumes "spells p ws"
  shows "getopt_long (ws @ as) = p # getopt_long as"
  using assms
proof cases
  case (short_arg c s)
  then show ?thesis using opt_lookup_dash [OF short_arg(3)] by simp
next
  case (short_joined c s)
  then show ?thesis using opt_lookup_dash [OF short_joined(3)] by simp
next
  case (short_flag c)
  then show ?thesis using opt_lookup_dash [OF short_flag(3)] by simp
next
  case (long_arg n c s)
  then show ?thesis by (simp add: takeWhile_name)
next
  case (long_joined n c s)
  then show ?thesis by (simp add: takeWhile_name_eq)
next
  case (long_flag n c)
  then show ?thesis by (simp add: takeWhile_name)
qed

text \<open>A command line: options in any spelling, with other words between them.\<close>

inductive cmdline :: "nxe_opt list \<Rightarrow> string list \<Rightarrow> bool" where
  cl_nil: "cmdline [] []"
| cl_opt: "spells p ws \<Longrightarrow> cmdline ps as \<Longrightarrow> cmdline (p # ps) (ws @ as)"
| cl_word: "non_option a \<Longrightarrow> cmdline ps as \<Longrightarrow> cmdline ps (a # as)"

lemma getopt_cmdline: "cmdline ps as \<Longrightarrow> getopt_long as = ps"
  by (induction rule: cmdline.induct) (simp_all add: getopt_spelled getopt_plain del: getopt_long.simps(2))

section \<open>Numbers\<close>

fun fmt_hex :: "nat \<Rightarrow> string" where
  "fmt_hex n = (if n < 16 then [''0123456789abcdef'' ! n] else fmt_hex (n div 16) @ [''0123456789abcdef'' ! (n mod 16)])"

declare fmt_hex.simps [simp del]

lemma less16: "n < 16 \<Longrightarrow> n \<in> set [0..<16]" for n :: nat
  by simp

lemma digit_val_hex: "n < 16 \<Longrightarrow> digit_val (''0123456789abcdef'' ! n) = n"
proof -
  assume "n < 16"
  moreover have "\<forall>k \<in> set [0..<16]. digit_val (''0123456789abcdef'' ! k) = k"
    by (simp add: upt_rec digit_val_def)
  ultimately show ?thesis using less16 by blast
qed

lemma strtoul_digits_append:
  "(\<forall>c \<in> set xs. digit_val c < b) \<Longrightarrow>
   strtoul_digits b acc (xs @ ys) = strtoul_digits b (strtoul_digits b acc xs) ys"
  by (induction xs arbitrary: acc) auto

lemma fmt_hex_digits: "\<forall>c \<in> set (fmt_hex n). digit_val c < 16"
proof (induction n rule: fmt_hex.induct)
  case (1 n)
  then show ?case by (subst fmt_hex.simps) (auto simp: digit_val_hex)
qed

lemma strtoul_digits_hex: "strtoul_digits 16 0 (fmt_hex n) = n"
proof (induction n rule: fmt_hex.induct)
  case (1 n)
  show ?case
  proof (cases "n < 16")
    case True
    then show ?thesis by (subst fmt_hex.simps) (simp add: digit_val_hex)
  next
    case False
    then show ?thesis
      using 1 by (subst fmt_hex.simps) (simp add: strtoul_digits_append fmt_hex_digits digit_val_hex)
  qed
qed

lemma fmt_hex_Cons: "\<exists>c cs. fmt_hex n = c # cs \<and> digit_val c < 16"
proof -
  have "fmt_hex n \<noteq> []" by (subst fmt_hex.simps) simp
  then show ?thesis using fmt_hex_digits [of n] by (cases "fmt_hex n") auto
qed

lemma strtoul_hex:
  assumes "n < 2 ^ 64"
  shows "strtoul (''0x'' @ fmt_hex n) = word_of_nat n"
proof -
  obtain c cs where c: "fmt_hex n = c # cs" "digit_val c < 16" using fmt_hex_Cons by blast
  have "strtoul_base (''0x'' @ fmt_hex n) = (16, fmt_hex n)"
    using c by (simp add: strtoul_base_def)
  then show ?thesis
    using assms by (simp add: strtoul_def isspace_def strtoul_digits_hex)
qed

lemma strtoul_hex_32:
  assumes "n < 2 ^ 64"
  shows "ucast (strtoul (''0x'' @ fmt_hex n)) = (word_of_nat n :: u32)"
proof -
  have "ucast (word_of_nat n :: u64) = (word_of_nat n :: u32)"
    by transfer simp
  then show ?thesis using strtoul_hex [OF assms] by (simp only:)
qed

lemma unat_u32: "unat (w :: u32) < 2 ^ 32"
  using unsigned_less [of w] by simp

section \<open>The last option of each kind wins\<close>

definition pick :: "(nxe_opt \<Rightarrow> 'b option) \<Rightarrow> nxe_opt list \<Rightarrow> 'b \<Rightarrow> 'b" where
  "pick f opts d = fold (\<lambda>p r. case f p of None \<Rightarrow> r | Some x \<Rightarrow> x) opts d"

fun opt_input :: "nxe_opt \<Rightarrow> string option option" where
  "opt_input (OptI s) = Some (Some s)"
| "opt_input _ = None"

fun opt_output :: "nxe_opt \<Rightarrow> string option option" where
  "opt_output (OptO s) = Some (Some s)"
| "opt_output _ = None"

fun opt_keyfile :: "nxe_opt \<Rightarrow> string option option" where
  "opt_keyfile (OptS s) = Some (Some s)"
| "opt_keyfile _ = None"

fun opt_perms :: "nxe_opt \<Rightarrow> u32 option" where
  "opt_perms (OptPerms s) = Some (ucast (strtoul s))"
| "opt_perms _ = None"

lemma nxe_options_pick:
  assumes "OptH \<notin> set opts" "OptBad \<notin> set opts"
  shows "nxe_options strtoul opts a = Inr
    \<lparr>a_input = pick opt_input opts (a_input a), a_output = pick opt_output opts (a_output a),
     a_keyfile = pick opt_keyfile opts (a_keyfile a), a_do_encrypt = (a_do_encrypt a \<or> OptP \<in> set opts),
     a_do_sandbox = (a_do_sandbox a \<or> OptSandbox \<in> set opts), a_perms = pick opt_perms opts (a_perms a)\<rparr>"
  using assms
proof (induction opts arbitrary: a)
  case (Cons p opts)
  then show ?case by (cases p) (simp_all add: pick_def)
qed (simp add: pick_def)

lemma nxe_keyfile_read:
  assumes "files kf = Some (sk @ pk @ extra)" "length sk = 64" "length pk = 32"
  shows "nxe_keyfile True files kf = Inr (sk, pk)"
  using assms by (simp add: nxe_keyfile_def fread_all_def)

text \<open>What the tool does for a command line that signs.\<close>

lemma nxe_tool_sign:
  assumes "cmdline opts args" "set opts \<inter> {OptH, OptBad, OptP} = {}"
    and "pick opt_input opts None = Some i" "pick opt_output opts None = Some out"
    and "pick opt_keyfile opts None = Some kf"
    and "files kf = Some (sk @ pk @ extra)" "length sk = 64" "length pk = 32"
  shows "nxe_tool S v (prog # args) True pw1 pw2 True (files, m) =
    (case nxe_build S v (Some i) (Some out) None (Some sk) (Some pk) (pick opt_perms opts NXE_PERM_ALL)
            (if OptSandbox \<in> set opts then NXE_FLAG_SANDBOXED else 0) (files, m) of
       (r, w') \<Rightarrow> (if rc r = 0 then 0 else 1, [], w'))"
proof -
  have o: "OptH \<notin> set opts" "OptBad \<notin> set opts" "OptP \<notin> set opts" using assms(2) by auto
  show ?thesis
    unfolding nxe_tool_def nxe_build_main_def
    using nxe_options_pick [OF o(1,2), of nxe_args0] o(3) assms(3-8)
    by (simp add: getopt_cmdline [OF assms(1)] nxe_args0_def nxe_keyfile_read split: prod.splits)
qed


text \<open>
  The number after \<open>-P\<close>: every 32-bit value, written in hexadecimal as the help text asks,
  is what reaches the header; a value that does not fit is cut to 32 bits without a word, and
  a text that is no number means no permission at all.
\<close>

theorem nxe_perms_read:
  "ucast (strtoul (''0x'' @ fmt_hex (unat w))) = (w :: u32) \<and>
   (ucast (strtoul (''0x'' @ fmt_hex (unat w + 2 ^ 32))) :: u32) = w \<and>
   strtoul ''all'' = 0"
proof -
  have "unat w < 2 ^ 64" "unat w + 2 ^ 32 < 2 ^ 64" using unat_u32 [of w] by simp_all
  note this [THEN strtoul_hex_32]
  moreover have "strtoul ''all'' = 0"
    by (simp add: strtoul_def strtoul_base_def digit_val_def isspace_def)
  ultimately show ?thesis by simp
qed

section \<open>An example\<close>

definition tool_args0 :: "string list" where
  "tool_args0 = [''--in'', ''/elf'', ''readme'', ''-o'', ''/a.nxe'', ''--sign=/k'', ''-P0x7'']"

definition tool_opts0 :: "nxe_opt list" where
  "tool_opts0 = [OptI ''/elf'', OptO ''/a.nxe'', OptS ''/k'', OptPerms ''0x7'']"

definition tool_files0 :: fs where
  "tool_files0 = [''/elf'' \<mapsto> elf0, ''/k'' \<mapsto> replicate 64 1 @ replicate 32 1 @ []]"

lemma tool_cmdline0: "cmdline tool_opts0 tool_args0"
proof -
  have 1: "spells (OptI ''/elf'') [''--in'', ''/elf'']"
    using long_arg [of "''in''" "CHR ''i''" "''/elf''"]
    by (simp add: long_lookup_def long_opts_def opt_of_def)
  have 2: "spells (OptO ''/a.nxe'') [''-o'', ''/a.nxe'']"
    using short_arg [of "CHR ''o''" "''/a.nxe''"] by (simp add: short_opts_def opt_of_def)
  have 3: "spells (OptS ''/k'') [''--sign=/k'']"
    using long_joined [of "''sign''" "CHR ''s''" "''/k''"]
    by (simp add: long_lookup_def long_opts_def opt_of_def)
  have 4: "spells (OptPerms ''0x7'') [''-P0x7'']"
    using short_joined [of "CHR ''P''" "''0x7''"] by (simp add: short_opts_def opt_of_def)
  have 5: "non_option ''readme''" by (simp add: non_option_def)
  from cl_opt [OF 1 cl_word [OF 5 cl_opt [OF 2 cl_opt [OF 3 cl_opt [OF 4 cl_nil]]]]]
  show ?thesis by (simp add: tool_opts0_def tool_args0_def)
qed

lemma tool_picks0:
  "set tool_opts0 \<inter> {OptH, OptBad, OptP} = {}" "pick opt_input tool_opts0 None = Some ''/elf''"
  "pick opt_output tool_opts0 None = Some ''/a.nxe''" "pick opt_keyfile tool_opts0 None = Some ''/k''"
  "tool_files0 ''/k'' = Some (replicate 64 1 @ replicate 32 1 @ [])" "tool_files0 ''/elf'' = Some elf0"
  by (simp_all add: tool_opts0_def pick_def tool_files0_def)

lemma tool_run0:
  "\<exists>files'. nxe_tool sodium_example build_env0 (''nxe-build'' # tool_args0) True None None True
     (tool_files0, mem0) = (0, [], files', mem0)"
  using hash_buffer_Some [of sodium_example elf0]
    nxe_tool_sign [where files = tool_files0, OF tool_cmdline0 tool_picks0(1-5), of sodium_example build_env0
      "''nxe-build''" None None mem0]
  by (simp add: nxe_build_def nxe_wrap_def nxe_sign_def build_env0_def Let_def NXE_MAX_FILE_def
      sodium_example_ops tool_picks0)


end
