(* ===== verification/File_Encryption.thy ===== *)
theory File_Encryption
  imports Crypto_Core Secure_Memory C_Strings
begin

text \<open>
  The file operations of \<open>crypticengine/src/cryptic_engine.c\<close>: encryption and decryption of
  files, on the file system and the secure memory; secure deletion, a loop of writes into the
  file; hashing, folder locking, and the client side of the daemon's socket. The outcomes of
  allocation, of opening and of writing files are the fields of environment records; the
  shell that \<open>system\<close> starts and the daemon at the other end of the socket are parameters.
\<close>

section \<open>File encryption\<close>

definition SZENC_EXTENSION :: string where "SZENC_EXTENSION = ''.szenc''"

abbreviation (input) SZENC_HEADER_LEN :: nat where "SZENC_HEADER_LEN \<equiv> CRYPTIC_SALT_LEN + CRYPTIC_NONCE_LEN"

definition SZENC_MAX_FILE :: nat where "SZENC_MAX_FILE = 2 ^ 30"

record file_env =
  fe_open_in :: bool
  fe_malloc_in :: bool
  fe_read_ok :: bool
  fe_salt :: "nat \<Rightarrow> u8"
  fe_nonce :: "nat \<Rightarrow> u8"
  fe_key_mem :: "(nat \<times> u8) option"
  fe_key_node :: bool
  fe_malloc_out :: bool
  fe_malloc_path :: bool
  fe_open_out :: bool
  fe_write_ok :: bool
  fe_torn :: "nat option"
  fe_part :: nat
  fe_unlink_ok :: bool

text \<open>
  The end of both operations: the output path was allocated or not, the output file opened
  for writing (which empties it), written, and removed again when a write was short. The
  results of \<open>fclose\<close> and \<open>unlink\<close> are not looked at: \<open>fe_torn\<close> is how much of the output the
  final flush leaves on the disk when it fails, \<open>fe_part\<close> how much a short write left there,
  which stays when the file cannot be removed.
\<close>

definition write_output :: "file_env \<Rightarrow> path \<Rightarrow> bytes \<Rightarrow> fs \<Rightarrow> unit res \<times> fs" where
  "write_output v out_path out files =
     (if \<not> fe_malloc_path v then (Inl ENoMem, files)
      else if \<not> fe_open_out v then (Inl EOpen, files)
      else if \<not> fe_write_ok v
      then (Inl EIo, files(out_path := if fe_unlink_ok v then None else Some (take (fe_part v) out)))
      else (Inr (), files(out_path \<mapsto> flushed (fe_torn v) out)))"

definition cryptic_encrypt_file ::
  "sodium \<Rightarrow> file_env \<Rightarrow> path option \<Rightarrow> string option \<Rightarrow> fs \<times> mem_state \<Rightarrow> unit res \<times> fs \<times> mem_state" where
  "cryptic_encrypt_file S v path_p password w =
     (case (path_p, password) of
        (Some p, Some pw) \<Rightarrow>
          (case (if fe_open_in v then fst w p else None) of
             None \<Rightarrow> (Inl EOpen, w)
           | Some content \<Rightarrow>
               if length content > SZENC_MAX_FILE then (Inl ETooBig, w)
               else if \<not> fe_malloc_in v then (Inl ENoMem, w)
               else if \<not> fe_read_ok v then (Inl EIo, w)
               else
                 let salt = crypto_generate_salt (fe_salt v);
                     nonce = crypto_random_bytes (fe_nonce v) CRYPTIC_NONCE_LEN in
                 (case secure_alloc (fe_key_mem v) (fe_key_node v) 32 (snd w) of
                    (None, m1) \<Rightarrow> (Inl ENoMem, fst w, m1)
                  | (Some key, m1) \<Rightarrow>
                      (case derive_normal S pw salt of
                         Inl e \<Rightarrow> (Inl e, fst w, secure_free (Some key) 32 m1)
                       | Inr k \<Rightarrow>
                           if \<not> fe_malloc_out v then (Inl ENoMem, fst w, secure_free (Some key) 32 m1)
                           else
                             let m2 = secure_free (Some key) 32 m1 in
                             (case crypto_encrypt_buffer S True (Some content) (Some nonce) (Some k) of
                                Inl e \<Rightarrow> (Inl e, fst w, m2)
                              | Inr ct \<Rightarrow>
                                  (case write_output v (p @ SZENC_EXTENSION) (salt @ nonce @ ct) (fst w) of
                                     (r, files') \<Rightarrow> (r, files', m2))))))
      | _ \<Rightarrow> (Inl EInval, w))"

text \<open>The path of the decrypted file: without the extension, or with \<open>.dec\<close> appended.\<close>

definition decrypt_path :: "path \<Rightarrow> path" where
  "decrypt_path p =
     (let path_len = length p; ext_len = length SZENC_EXTENSION in
      if path_len > ext_len \<and> drop (path_len - ext_len) p = SZENC_EXTENSION
      then take (path_len - ext_len) p
      else p @ ''.dec'')"

definition cryptic_decrypt_file ::
  "sodium \<Rightarrow> file_env \<Rightarrow> path option \<Rightarrow> string option \<Rightarrow> fs \<times> mem_state \<Rightarrow> unit res \<times> fs \<times> mem_state" where
  "cryptic_decrypt_file S v path_p password w =
     (case (path_p, password) of
        (Some p, Some pw) \<Rightarrow>
          (case (if fe_open_in v then fst w p else None) of
             None \<Rightarrow> (Inl EOpen, w)
           | Some content \<Rightarrow>
               if length content < SZENC_HEADER_LEN + CRYPTIC_MAC_LEN then (Inl ETooSmall, w)
               else (case fread_all CRYPTIC_SALT_LEN content of None \<Rightarrow> (Inl EIo, w) | Some (salt, c1) \<Rightarrow>
                    (case fread_all CRYPTIC_NONCE_LEN c1 of None \<Rightarrow> (Inl EIo, w) | Some (nonce, c2) \<Rightarrow>
                 let ct_len = length content - SZENC_HEADER_LEN in
                 if \<not> fe_malloc_in v then (Inl ENoMem, w)
                 else (case (if fe_read_ok v then fread_all ct_len c2 else None) of
                    None \<Rightarrow> (Inl EIo, w)
                  | Some (ciphertext, _) \<Rightarrow>
                      (case secure_alloc (fe_key_mem v) (fe_key_node v) 32 (snd w) of
                         (None, m1) \<Rightarrow> (Inl ENoMem, fst w, m1)
                       | (Some key, m1) \<Rightarrow>
                           (case derive_normal S pw salt of
                              Inl e \<Rightarrow> (Inl e, fst w, secure_free (Some key) 32 m1)
                            | Inr k \<Rightarrow>
                                if \<not> fe_malloc_out v then (Inl ENoMem, fst w, secure_free (Some key) 32 m1)
                                else
                                  let m2 = secure_free (Some key) 32 m1 in
                                  (case crypto_decrypt_buffer S True (Some ciphertext) (Some nonce) (Some k) of
                                     Inl e \<Rightarrow> (Inl e, fst w, m2)
                                   | Inr pt \<Rightarrow>
                                       (case write_output v (decrypt_path p) pt (fst w) of
                                          (r, files') \<Rightarrow> (r, files', m2)))))))))
      | _ \<Rightarrow> (Inl EInval, w))"

section \<open>Folders\<close>

text \<open>The shell is a parameter: the status \<open>system\<close> returns for a command line.\<close>

definition cryptic_lock_folder :: "(string \<Rightarrow> int) \<Rightarrow> path option \<Rightarrow> string option \<Rightarrow> unit res" where
  "cryptic_lock_folder system path_p password =
     (case (path_p, password) of
        (Some p, Some pw) \<Rightarrow>
          if system (snprintf_buf 1024 (''fscrypt lock '' @ [CHR 0x27] @ p @ [CHR 0x27] @ '' 2>&1'')) \<noteq> 0
          then Inl ESys else Inr ()
      | _ \<Rightarrow> Inl EInval)"

definition cryptic_unlock_folder :: "(string \<Rightarrow> int) \<Rightarrow> path option \<Rightarrow> string option \<Rightarrow> unit res" where
  "cryptic_unlock_folder system path_p password =
     (case (path_p, password) of
        (Some p, Some pw) \<Rightarrow>
          if system (snprintf_buf 1024 (''fscrypt unlock '' @ [CHR 0x27] @ p @ [CHR 0x27] @ '' 2>&1'')) \<noteq> 0
          then Inl ESys else Inr ()
      | _ \<Rightarrow> Inl EInval)"

section \<open>Secure deletion\<close>

text \<open>Bytes written into a file at a position, which may extend it.\<close>

definition put_at :: "nat \<Rightarrow> bytes \<Rightarrow> bytes \<Rightarrow> bytes" where
  "put_at pos d content = take pos content @ d @ drop (pos + length d) content"

text \<open>
  One overwriting pass. \<open>fill written n\<close> is the content of the buffer for the write at loop
  count \<open>written\<close>; \<open>fw written\<close> bounds what that \<open>fwrite\<close> writes (its result is ignored: the
  loop counts \<open>to_write\<close> in any case, the stream moves by what was written). The chunk is
  never 0, which the loop condition states for termination.
\<close>

function overwrite_pass ::
  "(nat \<Rightarrow> nat \<Rightarrow> bytes) \<Rightarrow> (nat \<Rightarrow> nat) \<Rightarrow> nat \<Rightarrow> nat \<Rightarrow> nat \<Rightarrow> nat \<Rightarrow> bytes \<Rightarrow> bytes" where
  "overwrite_pass fill fw chunk file_size written pos content =
     (if written < file_size \<and> 0 < chunk
      then let to_write = (if file_size - written < chunk then file_size - written else chunk);
               n = min (fw written) to_write
           in overwrite_pass fill fw chunk file_size (written + to_write) (pos + n)
                (put_at pos (take n (fill written to_write)) content)
      else content)"
  by pat_completeness auto
termination
  by (relation "measure (\<lambda>(fill, fw, chunk, file_size, written, pos, content). file_size - written)")
    (auto simp: Let_def)

declare overwrite_pass.simps [simp del]

record del_env =
  de_open_ok :: bool
  de_malloc_ok :: bool
  de_write :: "nat \<Rightarrow> nat \<Rightarrow> nat"
  de_random :: "nat \<Rightarrow> nat \<Rightarrow> u8"
  de_unlink_ok :: bool

text \<open>Returns, beside the files, the content of the file after each of the three passes.\<close>

definition cryptic_secure_delete ::
  "del_env \<Rightarrow> path option \<Rightarrow> fs \<Rightarrow> unit res \<times> bytes list \<times> fs" where
  "cryptic_secure_delete v path_p files =
     (case path_p of
        None \<Rightarrow> (Inl EInval, [], files)
      | Some p \<Rightarrow>
          (case files p of
             None \<Rightarrow> (Inl ENotFound, [], files)
           | Some content \<Rightarrow>
               let file_size = length content in
               if file_size = 0 then (Inr (), [], if de_unlink_ok v then files(p := None) else files)
               else if \<not> de_open_ok v then (Inl EOpen, [], files)
               else if \<not> de_malloc_ok v then (Inl ENoMem, [], files)
               else
                 let chunk = (if file_size < 8192 then file_size else 8192);
                     c1 = overwrite_pass (\<lambda>w n. replicate n 0x00) (de_write v 1) chunk file_size 0 0 content;
                     c2 = overwrite_pass (\<lambda>w n. replicate n 0xFF) (de_write v 2) chunk file_size 0 0 c1;
                     c3 = overwrite_pass (\<lambda>w n. randombytes_buf (de_random v w) n) (de_write v 3)
                            chunk file_size 0 0 c2
                 in if de_unlink_ok v then (Inr (), [c1, c2, c3], files(p := None))
                    else (Inl ESys, [c1, c2, c3], files(p \<mapsto> c3))))"

section \<open>Hashing and the daemon\<close>

definition cryptic_hash_file ::
  "sodium \<Rightarrow> 'g gh_api \<Rightarrow> fs \<Rightarrow> bool \<Rightarrow> nat option \<Rightarrow> bool \<Rightarrow> path option \<Rightarrow> string res" where
  "cryptic_hash_file S H files fopen_ok read_err hex_p path_p =
     (if path_p = None \<or> \<not> hex_p then Inl EInval
      else case crypto_hash_file H files fopen_ok read_err True path_p of
             Inl e \<Rightarrow> Inl e
           | Inr hash \<Rightarrow> Inr (crypto_bin_to_hex S hash))"

definition CRYPTICD_SOCKET_PATH :: path where "CRYPTICD_SOCKET_PATH = ''/run/crypticd.sock''"

definition cryptic_daemon_is_running :: "(path \<Rightarrow> bool) \<Rightarrow> bool" where
  "cryptic_daemon_is_running exists_path = exists_path CRYPTICD_SOCKET_PATH"

record sock_env =
  so_socket_ok :: bool
  so_connect_ok :: bool
  so_write_ok :: bool
  so_strdup_ok :: bool

text \<open>
  \<open>daemon\<close> is what the other end answers to a command: the bytes the single \<open>read\<close> finds
  (none: the connection was closed or failed). At most 4095 of them are read.
\<close>

definition cryptic_daemon_command ::
  "sock_env \<Rightarrow> (string \<Rightarrow> string) \<Rightarrow> string option \<Rightarrow> bool \<Rightarrow> string res" where
  "cryptic_daemon_command v daemon json_cmd response_p =
     (case json_cmd of
        None \<Rightarrow> Inl EInval
      | Some cmd \<Rightarrow>
          if \<not> response_p then Inl EInval
          else if \<not> so_socket_ok v then Inl ESys
          else if \<not> so_connect_ok v then Inl ESys
          else if \<not> so_write_ok v then Inl EIo
          else let buf = take 4095 (daemon cmd) in
               if buf = [] then Inl EIo
               else if \<not> so_strdup_ok v then Inl ENoMem
               else Inr (cstr buf))"

section \<open>Encrypting, then decrypting\<close>

lemma write_output_cases:
  assumes "write_output v out d files = (r, files')"
  obtains "r = Inr ()" "files' = files(out \<mapsto> flushed (fe_torn v) d)"
    | e where "r = Inl e"
      "files' = files \<or> files' = files(out := None) \<or> \<not> fe_unlink_ok v \<and> files' = files(out \<mapsto> take (fe_part v) d)"
  using assms by (auto simp: write_output_def split: if_splits)

lemma encrypt_file_ok:
  assumes "cryptic_encrypt_file S v (Some p) (Some pw) (files, m) = (Inr (), files', m')"
  obtains content k ct where "files p = Some content" "length content \<le> SZENC_MAX_FILE"
    "derive_normal S pw (crypto_generate_salt (fe_salt v)) = Inr k"
    "crypto_encrypt_buffer S True (Some content) (Some (crypto_random_bytes (fe_nonce v) 24)) (Some k) = Inr ct"
    "files' = files(p @ SZENC_EXTENSION \<mapsto>
       flushed (fe_torn v) (crypto_generate_salt (fe_salt v) @ crypto_random_bytes (fe_nonce v) 24 @ ct))"
  using assms
  by (auto simp: cryptic_encrypt_file_def Let_def simp del: derive_key_Some encrypt_buffer_Some
      elim!: write_output_cases split: if_splits sum.splits option.splits prod.splits)

lemma decrypt_path_szenc: "p \<noteq> [] \<Longrightarrow> decrypt_path (p @ SZENC_EXTENSION) = p"
  by (simp add: decrypt_path_def SZENC_EXTENSION_def Let_def)

lemma decrypt_encrypted:
  assumes laws: "aead_correct S" "pwhash_sized S"
    and enc: "cryptic_encrypt_file S v (Some p) (Some pw) (files, m) = (Inr (), files', m')"
    and p: "p \<noteq> []" "files p = Some content"
    and later: "files2 (p @ SZENC_EXTENSION) = files' (p @ SZENC_EXTENSION)"
    and env: "fe_open_in u" "fe_malloc_in u" "fe_read_ok u" "fe_malloc_out u" "fe_malloc_path u"
      "fe_open_out u" "fe_write_ok u" "fe_key_mem u \<noteq> None" "initialized m2"
    and flush: "fe_torn v = None" "fe_torn u = None"
  shows "\<exists>m3. cryptic_decrypt_file S u (Some (p @ SZENC_EXTENSION)) (Some pw) (files2, m2) =
    (Inr (), files2(p \<mapsto> content), m3)"
proof -
  let ?salt = "crypto_generate_salt (fe_salt v)" and ?nonce = "crypto_random_bytes (fe_nonce v) 24"
  from enc p(2) obtain k ct where k: "derive_normal S pw ?salt = Inr k"
    and ct: "crypto_encrypt_buffer S True (Some content) (Some ?nonce) (Some k) = Inr ct"
    and files': "files' = files(p @ SZENC_EXTENSION \<mapsto> ?salt @ ?nonce @ ct)"
    by (elim encrypt_file_ok) (simp only: option.inject flush flushed_simps)
  have len: "length ct = length content + 16"
    using cc.seal_length [of S content _ k ct] laws ct by blast
  have pt: "crypto_decrypt_buffer S True (Some ct) (Some ?nonce) (Some k) = Inr content"
    by (rule cc.open_sealed [OF _ _ k ct]) (simp_all add: laws)
  have stored: "files2 (p @ SZENC_EXTENSION) = Some (?salt @ ?nonce @ ct)"
    using later by (simp add: files')
  from env(8) obtain a b where "fe_key_mem u = Some (a, b)" by (cases "fe_key_mem u") auto
  then show ?thesis
    using env k pt stored len p(1) flush
    by (simp add: cryptic_decrypt_file_def secure_alloc_def fread_all_def Let_def write_output_def
        decrypt_path_szenc del: derive_key_Some decrypt_buffer_Some)
qed

text \<open>
  C17: decrypting what \<open>cryptic_encrypt_file\<close> wrote, with the same password, restores the
  content of the file at the path it was read from, whatever happened to other files since.
\<close>

theorem szenc_roundtrip:
  assumes laws: "aead_correct S" "pwhash_sized S"
    and enc: "cryptic_encrypt_file S v (Some p) (Some pw) (files, m) = (Inr (), files', m')"
    and p: "p \<noteq> []" "files p = Some content"
    and later: "files2 (p @ SZENC_EXTENSION) = files' (p @ SZENC_EXTENSION)"
    and env: "fe_open_in u" "fe_malloc_in u" "fe_read_ok u" "fe_malloc_out u" "fe_malloc_path u"
      "fe_open_out u" "fe_write_ok u" "fe_key_mem u \<noteq> None" "initialized m2"
    and flush: "fe_torn v = None" "fe_torn u = None"
  shows "\<exists>m3. cryptic_decrypt_file S u (Some (p @ SZENC_EXTENSION)) (Some pw) (files2, m2) =
    (Inr (), files2(p \<mapsto> content), m3)"
  using decrypt_encrypted [OF laws enc p(1), of content files2 u m2] p(2) later env flush by blast

text \<open>
  C27: whatever \<open>cryptic_decrypt_file\<close> answers, it has authenticated what it writes. Either it
  fails and every file is as it was; or the file was a salt, a nonce and a ciphertext that the
  AEAD accepts under the key derived from this password and salt, no other file than the
  output has changed, and the output, if there is one, is the plaintext, all of it after a
  success unless the final flush failed, otherwise a beginning of it.
\<close>

theorem szenc_decrypt_sound:
  assumes "cryptic_decrypt_file S v (Some p) (Some pw) (files, m) = (r, files', m')"
  shows "(\<exists>e. r = Inl e) \<and> files' = files \<or>
    (\<exists>salt nonce ct k pt. files p = Some (salt @ nonce @ ct) \<and> length salt = CRYPTIC_SALT_LEN \<and>
      length nonce = CRYPTIC_NONCE_LEN \<and> CRYPTIC_MAC_LEN \<le> length ct \<and>
      s_pwhash S CRYPTIC_KEY_LEN pw salt CRYPTIC_KDF_OPSLIMIT_NORMAL CRYPTIC_KDF_MEMLIMIT_NORMAL = Some k \<and>
      s_aead_decrypt S ct nonce k = Some pt \<and>
      (if r = Inr () then files' = files(decrypt_path p \<mapsto> flushed (fe_torn v) pt)
       else files' = files(decrypt_path p := if fe_unlink_ok v then None else Some (take (fe_part v) pt))))"
proof (cases "(\<exists>e. r = Inl e) \<and> files' = files")
  case False
  from assms False obtain content where content: "files p = Some content" "56 \<le> length content"
    by (cases "files p") (auto simp: cryptic_decrypt_file_def split: if_splits)
  define salt where "salt = take 16 content"
  define nonce where "nonce = take 24 (drop 16 content)"
  define ct where "ct = drop 40 content"
  have parts: "fread_all 16 content = Some (salt, drop 16 content)"
    "fread_all 24 (drop 16 content) = Some (nonce, ct)"
    "fread_all (length content - 40) ct = Some (ct, [])"
    and lens: "length salt = 16" "length nonce = 24" "16 \<le> length ct"
    using content(2) by (simp_all add: fread_all_def salt_def nonce_def ct_def)
  obtain k pt where k: "derive_normal S pw salt = Inr k"
    and pt: "crypto_decrypt_buffer S True (Some ct) (Some nonce) (Some k) = Inr pt"
    and out: "write_output v (decrypt_path p) pt files = (r, files')"
    using assms content False
    by (auto simp: cryptic_decrypt_file_def Let_def parts not_less simp del: derive_key_Some decrypt_buffer_Some
        split: if_splits sum.splits option.splits prod.splits)
  have "salt @ nonce = take 40 content" using take_add [of 16 24 content] by (simp add: salt_def nonce_def)
  then have "content = salt @ nonce @ ct" by (metis append_assoc append_take_drop_id ct_def)
  moreover have "if r = Inr () then files' = files(decrypt_path p \<mapsto> flushed (fe_torn v) pt)
      else files' = files(decrypt_path p := if fe_unlink_ok v then None else Some (take (fe_part v) pt))"
    using out False by (auto simp: write_output_def split: if_splits)
  ultimately show ?thesis
    using content(1) lens k pt
    by - (rule disjI2, rule exI [of _ salt], rule exI [of _ nonce], rule exI [of _ ct], rule exI [of _ k],
        rule exI [of _ pt], simp split: option.splits)
qed simp

lemma szenc_cases:
  assumes "mem_inv m" "fresh (fe_key_mem v) m"
    and "(op = cryptic_encrypt_file S v (Some p) pw \<and> out = p @ SZENC_EXTENSION) \<or>
         (op = cryptic_decrypt_file S v (Some p) pw \<and> out = decrypt_path p)"
    and "op (files, m) = (r, files', m')"
  shows "m' = m \<and> (files' = files \<or> files' = files(out := None) \<or>
    (r = Inr () \<or> \<not> fe_unlink_ok v) \<and> (\<exists>d. files' = files(out \<mapsto> d)))"
proof -
  have given_back: "secure_free (Some a) 32 m1 = m"
    if "secure_alloc (fe_key_mem v) (fe_key_node v) 32 m = (Some a, m1)" for a m1
    using free_after_alloc [OF assms(1,2) that] .
  have failed: "m1 = m" if "secure_alloc (fe_key_mem v) (fe_key_node v) 32 m = (None, m1)" for m1
    using sm.alloc_failed [of "(fe_key_mem v, fe_key_node v)" 32 m] that by simp
  from assms(3) show ?thesis
  proof (elim disjE conjE)
    assume "op = cryptic_encrypt_file S v (Some p) pw" "out = p @ SZENC_EXTENSION"
    with assms(4) show ?thesis
      by (auto simp: cryptic_encrypt_file_def Let_def simp del: derive_key_Some encrypt_buffer_Some
          dest!: given_back failed elim!: write_output_cases
          split: if_splits sum.splits option.splits prod.splits)
  next
    assume "op = cryptic_decrypt_file S v (Some p) pw" "out = decrypt_path p"
    with assms(4) show ?thesis
      by (auto simp: cryptic_decrypt_file_def Let_def simp del: derive_key_Some decrypt_buffer_Some
          dest!: given_back failed elim!: write_output_cases
          split: if_splits sum.splits option.splits prod.splits)
  qed
qed

lemma szenc_memory:
  assumes "mem_inv m" "fresh (fe_key_mem v) m"
  shows "cryptic_encrypt_file S v (Some p) pw (files, m) = (r, files', m') \<Longrightarrow> m' = m"
    "cryptic_decrypt_file S v (Some p) pw (files, m) = (r, files', m') \<Longrightarrow> m' = m"
  using szenc_cases [OF assms] by blast+

text \<open>
  Encryption and decryption touch one file only, their output (the input is never changed
  unless it is the output path), give the key buffer back on every path, and when they fail
  the output file is as before or does not exist: a partial one stays only if it could not be
  removed.
\<close>

theorem szenc_frame:
  assumes "mem_inv m" "fresh (fe_key_mem v) m"
    and "(op = cryptic_encrypt_file S v (Some p) pw \<and> out = p @ SZENC_EXTENSION) \<or>
         (op = cryptic_decrypt_file S v (Some p) pw \<and> out = decrypt_path p)"
    and "op (files, m) = (r, files', m')"
  shows "m' = m \<and> (\<forall>q. q \<noteq> out \<longrightarrow> files' q = files q) \<and>
    (rc r = -1 \<longrightarrow> fe_unlink_ok v \<longrightarrow> files' out = files out \<or> files' out = None)"
  using szenc_cases [OF assms] by auto

section \<open>Secure deletion\<close>

text \<open>What a pass writes when every write is complete.\<close>

function fill_seq :: "(nat \<Rightarrow> nat \<Rightarrow> bytes) \<Rightarrow> nat \<Rightarrow> nat \<Rightarrow> nat \<Rightarrow> bytes" where
  "fill_seq fill chunk file_size written =
     (if written < file_size \<and> 0 < chunk
      then let n = min (file_size - written) chunk
           in fill written n @ fill_seq fill chunk file_size (written + n)
      else [])"
  by pat_completeness auto
termination
  by (relation "measure (\<lambda>(fill, chunk, file_size, written). file_size - written)") (auto simp: Let_def)

declare fill_seq.simps [simp del]

lemma length_fill_seq:
  "0 < chunk \<Longrightarrow> (\<And>w n. length (fill w n) = n) \<Longrightarrow>
   length (fill_seq fill chunk file_size written) = file_size - written"
proof (induction fill chunk file_size written rule: fill_seq.induct)
  case (1 fill chunk file_size written)
  then show ?case by (subst fill_seq.simps) (auto simp: Let_def)
qed

lemma fill_seq_replicate:
  "0 < chunk \<Longrightarrow> fill_seq (\<lambda>(w :: nat) n. replicate n b) chunk file_size written = replicate (file_size - written) b"
proof (induction "\<lambda>(w :: nat) n. replicate n b" chunk file_size written rule: fill_seq.induct)
  case (1 chunk file_size written)
  then show ?case
    by (subst fill_seq.simps) (auto simp: Let_def replicate_add [symmetric])
qed

lemma overwrite_pass_full:
  "0 < chunk \<Longrightarrow> (\<And>w n. length (fill w n) = n) \<Longrightarrow> (\<And>w. chunk \<le> fw w) \<Longrightarrow>
   length content = file_size \<Longrightarrow> written \<le> file_size \<Longrightarrow> pos = written \<Longrightarrow>
   overwrite_pass fill fw chunk file_size written pos content =
     take written content @ fill_seq fill chunk file_size written"
proof (induction fill fw chunk file_size written pos content rule: overwrite_pass.induct)
  case (1 fill fw chunk file_size written pos content)
  show ?case
  proof (cases "written < file_size")
    case True
    define n where "n = min (file_size - written) chunk"
    have n: "(if file_size - written < chunk then file_size - written else chunk) = n"
      "min (fw written) n = n" "0 < n" "written + n \<le> file_size"
      using True "1.prems"(1,5) "1.prems"(3) [of written] by (auto simp: n_def)
    have "overwrite_pass fill fw chunk file_size (written + n) (written + n)
        (put_at written (take n (fill written n)) content) =
      take (written + n) (put_at written (take n (fill written n)) content) @
      fill_seq fill chunk file_size (written + n)"
      by (rule "1.IH" [OF _ n(1) [symmetric] n(2) [symmetric], unfolded "1.prems"(6)])
        (use True n "1.prems" in \<open>simp_all add: put_at_def\<close>)
    moreover have "take (written + n) (put_at written (take n (fill written n)) content) =
        take written content @ fill written n"
      using "1.prems"(2,4) n(4) by (simp add: put_at_def)
    ultimately show ?thesis
      using True n "1.prems"(1,6)
      by (subst overwrite_pass.simps, subst fill_seq.simps) (simp add: Let_def n_def [symmetric])
  next
    case False
    then show ?thesis
      using "1.prems" by (subst overwrite_pass.simps, subst fill_seq.simps) simp
  qed
qed

text \<open>
  C28: deleting a non-empty file overwrites all of it three times, with zeros, with ones and
  with random bytes, so that after the first pass nothing depends on what it held, keeps its
  length throughout, then removes it and no other file.
\<close>

theorem secure_delete_overwrites:
  assumes "files p = Some content" "content \<noteq> []" "de_open_ok v" "de_malloc_ok v" "de_unlink_ok v"
    and "\<And>pass w. 8192 \<le> de_write v pass w"
  shows "\<exists>random. length random = length content \<and>
    cryptic_secure_delete v (Some p) files =
      (Inr (), [replicate (length content) 0x00, replicate (length content) 0xFF, random], files(p := None)) \<and>
    random = fill_seq (\<lambda>w n. randombytes_buf (de_random v w) n) (min (length content) 8192) (length content) 0"
proof -
  define n where "n = length content"
  define chunk where "chunk = (if n < 8192 then n else 8192)"
  define random where "random = fill_seq (\<lambda>w n. randombytes_buf (de_random v w) n) chunk n 0"
  have chunk: "0 < chunk" "chunk = min n 8192" using assms(2) by (auto simp: chunk_def n_def)
  have full: "chunk \<le> de_write v pass w" for pass w
    using assms(6) [of pass w] chunk(2) by simp
  have pass: "overwrite_pass fill (de_write v k) chunk n 0 0 d = fill_seq fill chunk n 0"
    if "\<And>w i. length (fill w i) = i" "length d = n" for fill k d
    using overwrite_pass_full [of chunk fill "de_write v k" d n 0 0] that chunk(1) full by simp
  have "length random = n" using length_fill_seq [OF chunk(1)] by (simp add: random_def)
  moreover have "overwrite_pass (\<lambda>w n. replicate n 0x00) (de_write v 1) chunk n 0 0 content = replicate n 0"
    "overwrite_pass (\<lambda>w n. replicate n 0xFF) (de_write v 2) chunk n 0 0 (replicate n 0) = replicate n 0xFF"
    "overwrite_pass (\<lambda>w n. randombytes_buf (de_random v w) n) (de_write v 3) chunk n 0 0 (replicate n 0xFF) = random"
    using chunk(1) by (simp_all add: pass fill_seq_replicate n_def [symmetric] random_def)
  ultimately show ?thesis
    using assms(1-5) chunk
    by (auto simp: cryptic_secure_delete_def Let_def n_def [symmetric] chunk_def [symmetric] random_def)
qed

section \<open>Examples\<close>

definition file_env0 :: file_env where
  "file_env0 = \<lparr>fe_open_in = True, fe_malloc_in = True, fe_read_ok = True, fe_salt = (\<lambda>i. 7),
     fe_nonce = (\<lambda>i. 9), fe_key_mem = Some (4096, 0xdb), fe_key_node = True, fe_malloc_out = True,
     fe_malloc_path = True, fe_open_out = True, fe_write_ok = True, fe_torn = None,
     fe_part = 0, fe_unlink_ok = True\<rparr>"

definition notes0 :: fs where "notes0 = [''notes'' \<mapsto> [1, 2, 3]]"

abbreviation (input) encrypted0 :: "unit res \<times> fs \<times> mem_state" where
  "encrypted0 \<equiv> cryptic_encrypt_file sodium_example file_env0 (Some ''notes'') (Some ''pw'') (notes0, mem0)"

lemma encrypted0_eq:
  "encrypted0 = (Inr (), notes0(''notes.szenc'' \<mapsto> replicate 16 7 @ replicate 24 9 @ [1, 2, 3] @ replicate 16 0),
     snd (snd encrypted0))"
  by (simp add: prod_eq_iff cryptic_encrypt_file_def file_env0_def notes0_def SZENC_MAX_FILE_def
      secure_alloc_def write_output_def Let_def sodium_example_ops SZENC_EXTENSION_def
      crypto_generate_salt_def crypto_random_bytes_def randombytes_buf_def map_replicate_const)

theorem szenc_roundtrip_witness:
  "\<exists>m3. cryptic_decrypt_file sodium_example file_env0 (Some (''notes'' @ SZENC_EXTENSION)) (Some ''pw'')
     ((fst (snd encrypted0))(''notes'' := None), mem0) =
   (Inr (), ((fst (snd encrypted0))(''notes'' := None))(''notes'' \<mapsto> [1, 2, 3]), m3)"
proof -
  have e: "encrypted0 = (Inr (), fst (snd encrypted0), snd (snd encrypted0))"
    using encrypted0_eq by (simp add: prod_eq_iff)
  show ?thesis
    by (rule szenc_roundtrip [OF sodium_example_laws(1,3) e])
      (simp_all add: notes0_def file_env0_def SZENC_EXTENSION_def)
qed

definition sealed0 :: fs where
  "sealed0 = [''x.szenc'' \<mapsto> replicate 16 7 @ replicate 24 9 @ [1, 2, 3] @ replicate 16 0]"

lemma decrypted0:
  "cryptic_decrypt_file sodium_example file_env0 (Some ''x.szenc'') (Some ''pw'') (sealed0, mem0) =
   (Inr (), sealed0(''x'' \<mapsto> [1, 2, 3]),
    snd (snd (cryptic_decrypt_file sodium_example file_env0 (Some ''x.szenc'') (Some ''pw'') (sealed0, mem0))))"
proof -
  have "decrypt_path ''x.szenc'' = ''x''" using decrypt_path_szenc [of "''x''"] by (simp add: SZENC_EXTENSION_def)
  moreover have "s_aead_decrypt sodium_example ([1, 2, 3] @ replicate 16 0) n k = Some [1, 2, 3]" for n k
    by (simp add: sodium_example_def)
  ultimately show ?thesis
    by (simp add: prod_eq_iff cryptic_decrypt_file_def file_env0_def sealed0_def fread_all_def
        secure_alloc_def write_output_def Let_def sodium_example_ops)
qed

theorem szenc_decrypt_sound_witness:
  "\<exists>salt nonce ct k pt. sealed0 ''x.szenc'' = Some (salt @ nonce @ ct) \<and> length salt = 16 \<and>
     length nonce = 24 \<and> s_aead_decrypt sodium_example ct nonce k = Some pt \<and>
     sealed0(''x'' \<mapsto> [1, 2, 3]) = sealed0(decrypt_path ''x.szenc'' \<mapsto> pt)"
proof -
  have "fe_torn file_env0 = None" by (simp add: file_env0_def)
  with szenc_decrypt_sound [OF decrypted0] show ?thesis
    by (simp del: fun_upd_apply) blast
qed

theorem szenc_frame_witness:
  "snd (snd encrypted0) = mem0 \<and> fst (snd encrypted0) ''notes'' = notes0 ''notes''"
proof -
  have e: "encrypted0 = (Inr (), fst (snd encrypted0), snd (snd encrypted0))"
    using encrypted0_eq by (simp add: prod_eq_iff)
  from szenc_frame [of mem0 file_env0 "cryptic_encrypt_file sodium_example file_env0 (Some ''notes'') (Some ''pw'')"
      sodium_example "''notes''" "Some ''pw''" "''notes'' @ SZENC_EXTENSION", OF _ _ _ e]
  have "snd (snd encrypted0) = mem0 \<and> (\<forall>q. q \<noteq> ''notes'' @ SZENC_EXTENSION \<longrightarrow> fst (snd encrypted0) q = notes0 q)"
    by (simp add: fresh_def file_env0_def)
  then show ?thesis by (simp add: SZENC_EXTENSION_def)
qed

definition del_env0 :: del_env where
  "del_env0 = \<lparr>de_open_ok = True, de_malloc_ok = True, de_write = (\<lambda>pass w. 8192),
     de_random = (\<lambda>w i. 0xAB), de_unlink_ok = True\<rparr>"

theorem secure_delete_overwrites_witness:
  "\<exists>random. cryptic_secure_delete del_env0 (Some ''notes'') notes0 =
     (Inr (), [[0, 0, 0], [0xFF, 0xFF, 0xFF], random], notes0(''notes'' := None))"
proof -
  have "\<exists>random. length random = length [1, 2, 3 :: u8] \<and> cryptic_secure_delete del_env0 (Some ''notes'') notes0 =
      (Inr (), [replicate (length [1, 2, 3 :: u8]) 0x00, replicate (length [1, 2, 3 :: u8]) 0xFF, random],
       notes0(''notes'' := None)) \<and>
      random = fill_seq (\<lambda>w n. randombytes_buf (de_random del_env0 w) n) (min (length [1, 2, 3 :: u8]) 8192)
        (length [1, 2, 3 :: u8]) 0"
    by (rule secure_delete_overwrites) (simp_all add: notes0_def del_env0_def)
  then show ?thesis by (auto simp: numeral_3_eq_3)
qed

end
