(* ===== verification/Cryptic_Engine.thy ===== *)
theory Cryptic_Engine
  imports File_Encryption Secure_Session Hidden_Container
begin

text \<open>
  The lifecycle of the engine, \<open>cryptic_init\<close> and \<open>cryptic_shutdown\<close> of
  \<open>crypticengine/src/cryptic_engine.c\<close>, over the states of all its subsystems.
\<close>

section \<open>Lifecycle\<close>

definition cryptic_version :: string where "cryptic_version = ''1.0.0''"

record engine_state =
  engine_initialized :: bool
  e_files :: fs
  e_mem :: mem_state
  e_sess :: sess_state
  e_cont :: cont_state

definition engine_start :: "fs \<Rightarrow> engine_state" where
  "engine_start files = \<lparr>engine_initialized = False, e_files = files, e_mem = mem_start, e_sess = sess_start,
     e_cont = cont_start\<rparr>"

text \<open>\<open>init1\<close> and \<open>init2\<close>: the outcomes of the two calls of \<open>sodium_init\<close>.\<close>

definition cryptic_init :: "co_env \<Rightarrow> bool \<Rightarrow> bool \<Rightarrow> engine_state \<Rightarrow> unit res \<times> engine_state" where
  "cryptic_init ce init1 init2 st =
     (if engine_initialized st then (Inr (), st)
      else if \<not> init1 then (Inl ESys, st)
      else case secure_memory_init init2 (e_mem st) of
             (Inl e, m) \<Rightarrow> (Inl e, st\<lparr>e_mem := m\<rparr>)
           | (Inr _, m) \<Rightarrow>
               let ss = snd (session_init (e_sess st)); cs = snd (container_init ce (e_cont st))
               in (Inr (), st\<lparr>e_mem := m, e_sess := ss, e_cont := cs, engine_initialized := True\<rparr>))"

definition cryptic_shutdown :: "co_env \<Rightarrow> engine_state \<Rightarrow> engine_state" where
  "cryptic_shutdown ce st =
     (if \<not> engine_initialized st then st
      else let (files, cs) = container_close_all ce (e_files st, e_cont st)
           in st\<lparr>e_files := files, e_cont := cs, e_sess := session_shutdown (e_sess st),
                 e_mem := secure_memory_shutdown (e_mem st), engine_initialized := False\<rparr>)"

section \<open>Histories of the engine\<close>

text \<open>
  What happens to the engine between its start and a shutdown: its own lifecycle calls and
  any operation of the subsystems, which share no state but the files.
\<close>

inductive engine_step :: "engine_state \<Rightarrow> engine_state \<Rightarrow> bool" where
  eng_init: "engine_step st (snd (cryptic_init ce i1 i2 st))"
| eng_shutdown: "engine_step st (cryptic_shutdown ce st)"
| eng_mem: "mem_step (e_mem st) m' \<Longrightarrow> engine_step st (st\<lparr>e_mem := m'\<rparr>)"
| eng_sess: "sess_step (e_sess st) s' \<Longrightarrow> engine_step st (st\<lparr>e_sess := s'\<rparr>)"
| eng_cont: "cont_step (e_files st, e_cont st) (f', c') \<Longrightarrow> engine_step st (st\<lparr>e_files := f', e_cont := c'\<rparr>)"

definition engine_ok :: "engine_state \<Rightarrow> bool" where
  "engine_ok st \<longleftrightarrow> mem_inv (e_mem st) \<and> sess_reachable (e_sess st) \<and> cont_reachable (e_files st, e_cont st)"

lemma engine_ok_start: "engine_ok (engine_start files)"
  by (simp add: engine_ok_def engine_start_def mem_inv_start reach_start creach_start)

lemma engine_ok_init:
  assumes "engine_ok st"
  shows "engine_ok (snd (cryptic_init ce i1 i2 st))"
proof -
  have "mem_inv (snd (secure_memory_init i2 (e_mem st)))"
    "sess_reachable (snd (session_init (e_sess st)))"
    "cont_reachable (e_files st, snd (container_init ce (e_cont st)))"
    using assms mem_inv_init reach_step [OF _ sess_init] creach_step [OF _ cont_init]
    by (auto simp: engine_ok_def)
  with assms show ?thesis
    by (auto simp: cryptic_init_def engine_ok_def Let_def split: prod.splits sum.splits)
qed

lemma engine_ok_shutdown:
  assumes "engine_ok st"
  shows "engine_ok (cryptic_shutdown ce st)"
proof -
  have "mem_inv (secure_memory_shutdown (e_mem st))"
    "sess_reachable (session_shutdown (e_sess st))"
    "cont_reachable (container_close_all ce (e_files st, e_cont st))"
    using assms mem_inv_shutdown reach_step [OF _ sess_shutdown] creach_step [OF _ cont_close_all]
    by (auto simp: engine_ok_def)
  with assms show ?thesis
    by (auto simp: cryptic_shutdown_def engine_ok_def split: prod.splits)
qed

lemma engine_ok_step: "engine_step st st' \<Longrightarrow> engine_ok st \<Longrightarrow> engine_ok st'"
proof (induction rule: engine_step.induct)
  case (eng_mem st m')
  then show ?case by (simp add: engine_ok_def mem_step_inv)
next
  case (eng_sess st s')
  then show ?case by (auto simp: engine_ok_def intro: reach_step)
next
  case (eng_cont st f' c')
  then show ?case by (auto simp: engine_ok_def intro: creach_step)
qed (simp_all add: engine_ok_init engine_ok_shutdown)

lemma engine_reachable_ok: "engine_step\<^sup>*\<^sup>* (engine_start files) st \<Longrightarrow> engine_ok st"
  by (induction rule: rtranclp_induct) (auto intro: engine_ok_start engine_ok_step)

lemma shutdown_cleans:
  assumes "engine_ok st" "engine_initialized st" "initialized (e_mem st)"
    "session_initialized (e_sess st)"
  shows "container_list (e_cont (cryptic_shutdown ce st)) = ([], 0) \<and>
    session_list (e_sess (cryptic_shutdown ce st)) = ([], 0) \<and>
    secure_memory_stats (e_mem (cryptic_shutdown ce st)) = (0, 0) \<and>
    dom (regions (e_mem (cryptic_shutdown ce st))) = dom (regions (e_mem st)) - set (tracked (e_mem st)) \<and>
    \<not> heap_fault (e_mem (cryptic_shutdown ce st)) \<and>
    \<not> engine_initialized (cryptic_shutdown ce st)"
proof -
  have ok: "mem_inv (e_mem st)" "sess_inv (e_sess st)" "cont_inv (e_cont st)"
    using assms(1) reachable_sess_inv reachable_cont_inv
    by (fastforce simp: engine_ok_def)+
  have "container_list (snd (container_close_all ce (e_files st, e_cont st))) = ([], 0)"
    using close_all_empties [of "(e_files st, e_cont st)" ce] ok(3)
    by (auto simp: container_list_def cactive_def cont_inv_def)
  moreover have "session_list (session_shutdown (e_sess st)) = ([], 0)"
    using destroy_all_inv_empty [OF ok(2)] assms(4)
    by (auto simp: session_shutdown_def session_list_def active_def sess_inv_def)
  moreover have "secure_memory_stats (secure_memory_shutdown (e_mem st)) = (0, 0)"
    "dom (regions (secure_memory_shutdown (e_mem st))) = dom (regions (e_mem st)) - set (tracked (e_mem st))"
    "\<not> heap_fault (secure_memory_shutdown (e_mem st))"
    using ok(1) assms(3)
    by (auto simp: secure_memory_shutdown_def emergency_wipe_eq secure_memory_stats_def mem_inv_def)
  ultimately show ?thesis
    using assms(2) by (auto simp: cryptic_shutdown_def split: prod.splits)
qed

text \<open>
  Whatever the engine did before, a shutdown of an initialised engine leaves no open
  container and no session in the tables; if secure memory is initialised, every tracked
  region is destroyed and the statistics are zero.
\<close>

theorem cryptic_shutdown_cleans:
  assumes "engine_step\<^sup>*\<^sup>* (engine_start files) st" "engine_initialized st" "initialized (e_mem st)"
    "session_initialized (e_sess st)"
  shows "container_list (e_cont (cryptic_shutdown ce st)) = ([], 0) \<and>
    session_list (e_sess (cryptic_shutdown ce st)) = ([], 0) \<and>
    secure_memory_stats (e_mem (cryptic_shutdown ce st)) = (0, 0) \<and>
    dom (regions (e_mem (cryptic_shutdown ce st))) = dom (regions (e_mem st)) - set (tracked (e_mem st)) \<and>
    \<not> heap_fault (e_mem (cryptic_shutdown ce st)) \<and>
    \<not> engine_initialized (cryptic_shutdown ce st)"
  by (rule shutdown_cleans [OF engine_reachable_ok [OF assms(1)] assms(2-)])

definition running_engine :: engine_state where
  "running_engine = snd (cryptic_init co_demo True True (engine_start Map.empty))"

theorem cryptic_shutdown_cleans_witness:
  "engine_initialized running_engine \<and> \<not> engine_initialized (cryptic_shutdown co_demo running_engine) \<and>
   session_list (e_sess (cryptic_shutdown co_demo running_engine)) = ([], 0)"
proof -
  have "engine_step\<^sup>*\<^sup>* (engine_start Map.empty) running_engine"
    unfolding running_engine_def by (rule r_into_rtranclp, rule eng_init)
  moreover have "engine_initialized running_engine" "initialized (e_mem running_engine)"
    "session_initialized (e_sess running_engine)"
    by (simp_all add: running_engine_def cryptic_init_def engine_start_def secure_memory_init_def mem_start_def
        session_init_def sess_start_def log_sys_def Let_def)
  ultimately show ?thesis using cryptic_shutdown_cleans by blast
qed

end
