(* ===== verification/Crypticd.thy ===== *)
theory Crypticd
  imports Cryptic_Engine Key_Storage
begin

text \<open>
  \<open>crypticengine/daemon/crypticd.c\<close>: the daemon. \<open>extract_field\<close> and \<open>extract_int\<close> are its
  parser, \<open>handle_command\<close> its dispatcher over the state of the engine; the server around it is
  in \<open>Crypticd_Server\<close>. The record \<open>daemon_env\<close> has the outcomes of everything
  outside the engine for one command (system calls, allocation, random bytes, the programs
  run). A command is one step here; what happens when the commands of several client threads
  overlap is in \<open>Memory_Threads\<close> and \<open>Session_Threads\<close>.
\<close>

section \<open>Parsing a command\<close>

definition extract_field :: "bool \<Rightarrow> string \<Rightarrow> string \<Rightarrow> string option" where
  \<open>extract_field malloc_ok json field =
     (let search = snprintf_buf 128 (''"'' @ field @ ''":"'') in
      case strstr json search of
        None \<Rightarrow> None
      | Some start \<Rightarrow>
          let rest = drop (length search) start in
          (case strchr rest (CHR 0x22) of
             None \<Rightarrow> None
           | Some end_q \<Rightarrow>
               if \<not> malloc_ok then None else Some (take (length rest - length end_q) rest)))\<close>

definition extract_int :: "string \<Rightarrow> string \<Rightarrow> int" where
  \<open>extract_int json field =
     (let search = snprintf_buf 128 (''"'' @ field @ ''":'') in
      case strstr json search of
        None \<Rightarrow> -1
      | Some start \<Rightarrow> atoi (drop (length search) start))\<close>

section \<open>Responses\<close>

abbreviation (input) RESP_BUF_SIZE :: nat where "RESP_BUF_SIZE \<equiv> 4096"
abbreviation (input) CMD_BUF_SIZE :: nat where "CMD_BUF_SIZE \<equiv> 4096"

definition resp_status :: "'a res \<Rightarrow> string" where
  \<open>resp_status r = snprintf_buf RESP_BUF_SIZE
     (''{"status":"'' @ (if rc r = 0 then ''ok'' else ''error'') @ ''"}'')\<close>

definition resp_error :: "string \<Rightarrow> string" where
  \<open>resp_error msg = snprintf_buf RESP_BUF_SIZE (''{"status":"error","msg":"'' @ msg @ ''"}'')\<close>

text \<open>
  \<open>offset += snprintf(response + offset, resp_size - offset, ...)\<close>: the text so far and the
  offset, which counts what would have been written. \<open>None\<close> when the offset has left the
  buffer: the size wraps around and the write is unbounded.
\<close>

definition resp_add :: "nat \<Rightarrow> string \<times> nat \<Rightarrow> string \<Rightarrow> (string \<times> nat) option" where
  "resp_add resp_size acc s =
     (if snd acc \<le> resp_size
      then Some (fst acc @ take (resp_size - snd acc - 1) s, snd acc + length s)
      else None)"

fun resp_items :: "nat \<Rightarrow> nat \<Rightarrow> string list \<Rightarrow> string \<times> nat \<Rightarrow> (string \<times> nat) option" where
  "resp_items resp_size i [] acc = Some acc"
| "resp_items resp_size i (x # xs) acc =
     (if int (snd acc) < int resp_size - 100
      then (case resp_add resp_size acc ((if i > 0 then '','' else []) @ x) of
              None \<Rightarrow> None
            | Some acc' \<Rightarrow> resp_items resp_size (Suc i) xs acc')
      else Some acc)"

definition resp_list :: "nat \<Rightarrow> string \<Rightarrow> string list \<Rightarrow> string option" where
  \<open>resp_list resp_size head items =
     (case resp_add resp_size ([], 0) head of
        None \<Rightarrow> None
      | Some acc \<Rightarrow>
          (case resp_items resp_size 0 items acc of
             None \<Rightarrow> None
           | Some acc' \<Rightarrow> map_option fst (resp_add resp_size acc' '']}'')))\<close>

definition session_item :: "session_info \<Rightarrow> string" where
  \<open>session_item s = ''{"id":'' @ fmt_d (sid s) @ '',"name":"'' @ sname s @ ''","pid":'' @ fmt_d (spid s) @ ''}''\<close>

fun state_int :: "container_state \<Rightarrow> int" where
  "state_int CONTAINER_STATE_CLOSED = 0"
| "state_int CONTAINER_STATE_OPEN = 1"
| "state_int CONTAINER_STATE_ERROR = 2"

definition container_item :: "container_info \<Rightarrow> string" where
  \<open>container_item c = ''{"name":"'' @ cname c @ ''","state":'' @ fmt_d (state_int (cstate c)) @ ''}''\<close>

definition session_list_head :: "nat \<Rightarrow> string" where
  \<open>session_list_head n = ''{"status":"ok","count":'' @ fmt_nat n @ '',"sessions":[''\<close>

definition container_list_head :: "nat \<Rightarrow> string" where
  \<open>container_list_head n = ''{"status":"ok","count":'' @ fmt_nat n @ '',"containers":[''\<close>

section \<open>The dispatcher\<close>

record daemon_env =
  da_malloc_ok :: bool
  da_pid :: int
  da_sodium :: sodium
  da_file :: file_env
  da_del :: del_env
  da_co :: co_env
  da_create :: create_env
  da_system :: "string \<Rightarrow> int"
  da_hash_open :: bool
  da_hash_err :: "nat option"
  da_wipe :: wipe_env

definition status_response :: "daemon_env \<Rightarrow> engine_state \<Rightarrow> string" where
  \<open>status_response v st =
     (let (mem_count, mem_bytes) = secure_memory_stats (e_mem st) in
      snprintf_buf RESP_BUF_SIZE (''{"status":"ok","version":"'' @ cryptic_version @ ''","secure_allocs":'' @
        fmt_nat (unat mem_count) @ '',"secure_bytes":'' @ fmt_nat (unat mem_bytes) @ '',"active_sessions":'' @
        fmt_nat (snd (session_list (e_sess st))) @ '',"daemon_pid":'' @ fmt_d (da_pid v) @ ''}''))\<close>

text \<open>The emergency wipe: sessions, containers, keystore files, secure memory, in this order.\<close>

definition emergency_wipe :: "daemon_env \<Rightarrow> engine_state \<Rightarrow> engine_state" where
  "emergency_wipe v st =
     (let ss = session_destroy_all (e_sess st);
          (files1, cs) = container_close_all (da_co v) (e_files st, e_cont st);
          (_, _, files2) = keystore_emergency_wipe (da_wipe v) files1
      in st\<lparr>e_sess := ss, e_cont := cs, e_files := files2, e_mem := secure_emergency_wipe (e_mem st)\<rparr>)"

text \<open>The branches for containers, and the one for everything else.\<close>

definition cmd_container_create ::
  "daemon_env \<Rightarrow> string \<Rightarrow> engine_state \<Rightarrow> string res \<times> engine_state" where
  "cmd_container_create v cmd_json st =
     (let field = extract_field (da_malloc_ok v) cmd_json; sz = extract_int cmd_json ''size'' in
      case (field ''name'', field ''password'') of
        (Some nm, Some pw) \<Rightarrow>
          if sz \<le> 0 then (Inr (resp_error ''missing name, size, or password''), st)
          else (case container_create (da_co v) (Some nm) (nat sz) (Some pw) (e_files st, e_cont st) of
                  (r, files', cs) \<Rightarrow> (Inr (resp_status r), st\<lparr>e_files := files', e_cont := cs\<rparr>))
      | _ \<Rightarrow> (Inr (resp_error ''missing name, size, or password''), st))"

definition cmd_container_open ::
  "daemon_env \<Rightarrow> string \<Rightarrow> engine_state \<Rightarrow> string res \<times> engine_state" where
  "cmd_container_open v cmd_json st =
     (let field = extract_field (da_malloc_ok v) cmd_json in
      case (field ''name'', field ''password'') of
        (Some nm, Some pw) \<Rightarrow>
          (case container_open (da_co v) (Some nm) (Some pw) (e_files st, e_cont st) of
             (r, files', cs) \<Rightarrow> (Inr (resp_status r), st\<lparr>e_files := files', e_cont := cs\<rparr>))
      | _ \<Rightarrow> (Inr (resp_error ''missing name or password''), st))"

definition cmd_container_close ::
  "daemon_env \<Rightarrow> string \<Rightarrow> engine_state \<Rightarrow> string res \<times> engine_state" where
  "cmd_container_close v cmd_json st =
     (case extract_field (da_malloc_ok v) cmd_json ''name'' of
        None \<Rightarrow> (Inr (resp_error ''missing name''), st)
      | Some nm \<Rightarrow>
          (case container_close (da_co v) (Some nm) (e_files st, e_cont st) of
             (r, files', cs) \<Rightarrow> (Inr (resp_status r), st\<lparr>e_files := files', e_cont := cs\<rparr>)))"

definition cmd_unknown :: "string \<Rightarrow> engine_state \<Rightarrow> string res \<times> engine_state" where
  "cmd_unknown cmd st = (Inr (resp_error (''unknown command: '' @ cmd)), st)"

text \<open>A command whose response leaves the buffer has no result: \<open>Inl EUndefined\<close>.\<close>

definition handle_command ::
  "'g gh_api \<Rightarrow> daemon_env \<Rightarrow> string \<Rightarrow> engine_state \<Rightarrow> string res \<times> engine_state" where
  \<open>handle_command H v cmd_json st =
     (let field = extract_field (da_malloc_ok v) cmd_json;
          w = (e_files st, e_mem st)
      in case field ''cmd'' of
        None \<Rightarrow> (Inr (resp_error ''missing cmd field''), st)
      | Some cmd \<Rightarrow>
          if cmd = ''status'' then (Inr (status_response v st), st)
          else if cmd = ''encrypt'' then
            (case (field ''path'', field ''password'') of
               (Some p, Some pw) \<Rightarrow>
                 (case cryptic_encrypt_file (da_sodium v) (da_file v) (Some p) (Some pw) w of
                    (r, files', m') \<Rightarrow> (Inr (resp_status r), st\<lparr>e_files := files', e_mem := m'\<rparr>))
             | _ \<Rightarrow> (Inr (resp_error ''missing path or password''), st))
          else if cmd = ''decrypt'' then
            (case (field ''path'', field ''password'') of
               (Some p, Some pw) \<Rightarrow>
                 (case cryptic_decrypt_file (da_sodium v) (da_file v) (Some p) (Some pw) w of
                    (r, files', m') \<Rightarrow> (Inr (resp_status r), st\<lparr>e_files := files', e_mem := m'\<rparr>))
             | _ \<Rightarrow> (Inr (resp_error ''missing path or password''), st))
          else if cmd = ''hash'' then
            (case field ''path'' of
               None \<Rightarrow> (Inr (resp_error ''missing path''), st)
             | Some p \<Rightarrow>
                 (case cryptic_hash_file (da_sodium v) H (e_files st) (da_hash_open v) (da_hash_err v) True (Some p) of
                    Inl _ \<Rightarrow> (Inr (resp_error ''hash failed''), st)
                  | Inr hex \<Rightarrow>
                      (Inr (snprintf_buf RESP_BUF_SIZE (''{"status":"ok","hash":"'' @ hex @ ''"}'')), st)))
          else if cmd = ''wipe'' then
            (case field ''path'' of
               None \<Rightarrow> (Inr (resp_error ''missing path''), st)
             | Some p \<Rightarrow>
                 (case cryptic_secure_delete (da_del v) (Some p) (e_files st) of
                    (r, _, files') \<Rightarrow> (Inr (resp_status r), st\<lparr>e_files := files'\<rparr>)))
          else if cmd = ''lock'' then
            (case field ''path'' of
               None \<Rightarrow> (Inr (resp_error ''missing path''), st)
             | Some p \<Rightarrow> (Inr (resp_status (cryptic_lock_folder (da_system v) (Some p) (Some ''dummy''))), st))
          else if cmd = ''unlock'' then
            (case (field ''path'', field ''password'') of
               (Some p, Some pw) \<Rightarrow> (Inr (resp_status (cryptic_unlock_folder (da_system v) (Some p) (Some pw))), st)
             | _ \<Rightarrow> (Inr (resp_error ''missing path or password''), st))
          else if cmd = ''session_start'' then
            (case session_create (da_create v) None 0 False (e_sess st) of
               (r, ss) \<Rightarrow>
                 (if r = Inl EUndefined then Inl EUndefined
                  else Inr (case r of
                         Inr i \<Rightarrow> if i > 0
                                   then snprintf_buf RESP_BUF_SIZE (''{"status":"ok","session_id":'' @ fmt_d i @ ''}'')
                                   else resp_error ''session creation failed''
                       | Inl _ \<Rightarrow> resp_error ''session creation failed''),
                  st\<lparr>e_sess := ss\<rparr>))
          else if cmd = ''session_end'' then
            (case session_destroy (extract_int cmd_json ''id'') (e_sess st) of
               (r, ss) \<Rightarrow> (Inr (resp_status r), st\<lparr>e_sess := ss\<rparr>))
          else if cmd = ''session_list'' then
            (case session_list (e_sess st) of
               (ss, count) \<Rightarrow>
                 (case resp_list RESP_BUF_SIZE (session_list_head count) (map session_item ss) of
                    None \<Rightarrow> (Inl EUndefined, st)
                  | Some t \<Rightarrow> (Inr t, st)))
          else if cmd = ''container_create'' then
            cmd_container_create v cmd_json st
          else if cmd = ''container_open'' then
            cmd_container_open v cmd_json st
          else if cmd = ''container_close'' then
            cmd_container_close v cmd_json st
          else if cmd = ''container_list'' then
            (case container_list (e_cont st) of
               (cs, count) \<Rightarrow>
                 (case resp_list RESP_BUF_SIZE (container_list_head count) (map container_item cs) of
                    None \<Rightarrow> (Inl EUndefined, st)
                  | Some t \<Rightarrow> (Inr t, st)))
          else if cmd = ''emergency_wipe'' then
            (Inr (snprintf_buf RESP_BUF_SIZE ''{"status":"ok","msg":"all data wiped"}''), emergency_wipe v st)
          else cmd_unknown cmd st)\<close>

lemmas handle_command_defs = handle_command_def cmd_container_create_def cmd_container_open_def
  cmd_container_close_def cmd_unknown_def

section \<open>Every command keeps the invariants of the engine\<close>

text \<open>Rules that walk through the branches of a handler.\<close>

lemma branch_rules:
  "P (snd a) \<Longrightarrow> P (snd b) \<Longrightarrow> P (snd (if c then a else b))"
  "P (snd a) \<Longrightarrow> (\<And>x. P (snd (f x))) \<Longrightarrow> P (snd (case z of None \<Rightarrow> a | Some x \<Rightarrow> f x))"
  "(\<And>x. P (snd (g x))) \<Longrightarrow> (\<And>y. P (snd (h y))) \<Longrightarrow> P (snd (case u of Inl x \<Rightarrow> g x | Inr y \<Rightarrow> h y))"
  "(\<And>x y. q = (x, y) \<Longrightarrow> P (snd (k x y))) \<Longrightarrow> P (snd (case q of (x, y) \<Rightarrow> k x y))"
  by (auto split: option.splits sum.splits prod.splits)

lemma engine_ok_files: "engine_ok st \<Longrightarrow> engine_ok (st\<lparr>e_files := f\<rparr>)"
  by (auto simp: engine_ok_def intro: creach_step [OF _ cont_files])

lemma engine_ok_cont:
  "engine_ok st \<Longrightarrow> cont_step (e_files st, e_cont st) (f, c) \<Longrightarrow> engine_ok (st\<lparr>e_files := f, e_cont := c\<rparr>)"
  by (rule engine_ok_step [OF eng_cont])

lemma engine_ok_sess: "engine_ok st \<Longrightarrow> sess_step (e_sess st) s \<Longrightarrow> engine_ok (st\<lparr>e_sess := s\<rparr>)"
  by (rule engine_ok_step [OF eng_sess])

lemma engine_ok_emergency:
  assumes "engine_ok st"
  shows "engine_ok (emergency_wipe v st)"
proof -
  obtain f1 cs where cl: "container_close_all (da_co v) (e_files st, e_cont st) = (f1, cs)" by (rule prod.exhaust)
  obtain r ws f2 where ks: "keystore_emergency_wipe (da_wipe v) f1 = (r, ws, f2)" by (metis prod.exhaust)
  have "cont_step (e_files st, e_cont st) (f1, cs)"
    using cont_close_all [of "(e_files st, e_cont st)" "da_co v"] by (simp add: cl)
  then have "cont_reachable (f1, cs)" using assms by (auto simp: engine_ok_def intro: creach_step)
  then have "cont_reachable (f2, cs)" by (auto intro: creach_step [OF _ cont_files])
  moreover have "sess_reachable (session_destroy_all (e_sess st))"
    using assms by (auto simp: engine_ok_def intro: reach_step sess_destroy_all)
  moreover have "mem_inv (secure_emergency_wipe (e_mem st))"
    using assms by (simp add: engine_ok_def mem_inv_wipe)
  ultimately show ?thesis by (simp add: emergency_wipe_def cl ks engine_ok_def)
qed

lemma engine_ok_szenc:
  assumes "engine_ok st" "fresh (fe_key_mem fe) (e_mem st)"
    and "cryptic_encrypt_file S fe (Some p) (Some pw) (e_files st, e_mem st) = (r, f, m) \<or>
         cryptic_decrypt_file S fe (Some p) (Some pw) (e_files st, e_mem st) = (r, f, m)"
  shows "engine_ok (st\<lparr>e_files := f, e_mem := m\<rparr>)"
proof -
  have "m = e_mem st"
    using assms szenc_memory by (auto simp: engine_ok_def)
  then show ?thesis using engine_ok_files [OF assms(1), of f] by simp
qed

text \<open>The leaves of the dispatcher that change the state.\<close>

lemma engine_ok_leaves:
  assumes "engine_ok st"
  shows "session_create ce n mm b (e_sess st) = (r, ss) \<Longrightarrow> engine_ok (st\<lparr>e_sess := ss\<rparr>)"
    "session_destroy i (e_sess st) = (r1, ss) \<Longrightarrow> engine_ok (st\<lparr>e_sess := ss\<rparr>)"
    "container_create e nm sz pw (e_files st, e_cont st) = (r1, f, c) \<Longrightarrow> engine_ok (st\<lparr>e_files := f, e_cont := c\<rparr>)"
    "container_open e (Some nm') (Some pw') (e_files st, e_cont st) = (r1, f, c) \<Longrightarrow> engine_ok (st\<lparr>e_files := f, e_cont := c\<rparr>)"
    "container_close e (Some nm') (e_files st, e_cont st) = (r1, f, c) \<Longrightarrow> engine_ok (st\<lparr>e_files := f, e_cont := c\<rparr>)"
  using sess_create [of "e_sess st" ce n mm b] sess_destroy [of "e_sess st" i]
    cont_create [of "(e_files st, e_cont st)" e nm sz pw] cont_open [of "(e_files st, e_cont st)" e nm' pw']
    cont_close [of "(e_files st, e_cont st)" e nm'] engine_ok_sess [OF assms] engine_ok_cont [OF assms]
  by simp_all

text \<open>
  Whatever a client sends, the engine stays consistent: its sessions, containers and secure
  memory are in states their own histories reach, given that \<open>sodium_malloc\<close> hands out
  addresses that are not in use.
\<close>

theorem handle_command_keeps_engine:
  assumes "engine_ok st" "fresh (fe_key_mem (da_file v)) (e_mem st)"
  shows "engine_ok (snd (handle_command H v json st))"
  unfolding handle_command_defs Let_def
  by (intro branch_rules [where P = engine_ok]; simp add: assms(1) engine_ok_files engine_ok_emergency;
      (elim engine_ok_leaves [OF assms(1)] | rule engine_ok_szenc [OF assms], blast))

section \<open>Emergency wipe\<close>

text \<open>
  What the wipe makes of a file: nothing is left of it if it could be removed; otherwise it is
  overwritten with random bytes if it could be opened and the bytes reached the disk, and stays
  as it is if it could not be opened.
\<close>

definition wiped :: "bool \<Rightarrow> bool \<Rightarrow> nat option \<Rightarrow> bytes \<Rightarrow> bytes \<Rightarrow> bytes option \<Rightarrow> bool" where
  "wiped removed opened torn random old new \<longleftrightarrow>
     (if removed then new = None
      else \<exists>c. new = Some c \<and> (\<not> opened \<longrightarrow> c = old) \<and> (opened \<and> torn = None \<longrightarrow> c = overwrite_front random old))"

lemma keystore_wipe_files:
  assumes "keystore_emergency_wipe v files = (r, ws, files')"
  shows "files KEYSTORE_MASTER_PATH = None \<Longrightarrow> files' KEYSTORE_MASTER_PATH = None"
    "files KEYSTORE_MASTER_PATH = Some c \<Longrightarrow>
     wiped (wp_unlink2 v) (wp_open2 v) (wp_torn2 v) (randombytes_buf (wp_random2 v) 256) c (files' KEYSTORE_MASTER_PATH)"
    "files KEYSTORE_PATH = None \<Longrightarrow> files' KEYSTORE_PATH = None"
    "files KEYSTORE_PATH = Some d \<Longrightarrow> d \<noteq> [] \<Longrightarrow>
     wiped (wp_unlink1 v) (wp_open1 v \<and> wp_malloc v) (wp_torn1 v) (randombytes_buf (wp_random1 v) (length d)) d
       (files' KEYSTORE_PATH)"
    "files KEYSTORE_PATH = Some [] \<Longrightarrow> files' KEYSTORE_PATH = Some []"
  using assms
  by (auto simp: keystore_emergency_wipe_def wiped_def overwrite_front_def Let_def split: option.splits if_splits)


section \<open>Listings fit the response buffer\<close>

fun joined :: "nat \<Rightarrow> string list \<Rightarrow> string" where
  "joined i [] = []"
| "joined i (x # xs) = (if i > 0 then '','' else []) @ x @ joined (Suc i) xs"

lemma length_joined: "length (joined i xs) \<le> sum_list (map (\<lambda>x. Suc (length x)) xs)"
proof (induction xs arbitrary: i)
  case (Cons x xs)
  from Cons [of "Suc i"] show ?case by (cases i) simp_all
qed simp

lemma resp_items_fit:
  "length t + sum_list (map (\<lambda>x. Suc (length x)) xs) < 3996 \<Longrightarrow>
   resp_items 4096 i xs (t, length t) = Some (t @ joined i xs, length (t @ joined i xs))"
proof (induction xs arbitrary: i t)
  case (Cons x xs)
  let ?t = "t @ (if i > 0 then '','' else []) @ x"
  have "resp_add 4096 (t, length t) ((if i > 0 then '','' else []) @ x) = Some (?t, length ?t)"
    using Cons.prems by (auto simp: resp_add_def)
  moreover have "resp_items 4096 (Suc i) xs (?t, length ?t) =
      Some (?t @ joined (Suc i) xs, length (?t @ joined (Suc i) xs))"
    by (rule Cons.IH) (use Cons.prems in \<open>auto split: if_splits\<close>)
  ultimately show ?case using Cons.prems by (simp add: algebra_simps)
qed simp

lemma resp_list_fit:
  assumes "length head + sum_list (map (\<lambda>x. Suc (length x)) xs) < 3996"
  shows "resp_list 4096 head xs = Some (head @ joined 0 xs @ '']}'')"
proof -
  have h: "resp_add 4096 ([], 0) head = Some (head, length head)"
    using assms by (simp add: resp_add_def)
  have "length (head @ joined 0 xs) + 2 < 4096"
    using assms length_joined [of 0 xs] by simp
  then have "resp_add 4096 (head @ joined 0 xs, length (head @ joined 0 xs)) '']}'' =
      Some (head @ joined 0 xs @ '']}'', length (head @ joined 0 xs) + 2)"
    by (simp add: resp_add_def)
  with resp_items_fit [OF assms, of 0] h show ?thesis by (simp add: resp_list_def)
qed

lemma sum_list_bound:
  assumes "\<And>x. x \<in> set xs \<Longrightarrow> f x \<le> (k :: nat)" "length xs \<le> n"
  shows "sum_list (map f xs) \<le> n * k"
proof -
  have "sum_list (map f xs) \<le> length xs * k"
    using assms(1) by (induction xs) (auto intro: add_mono)
  also have "\<dots> \<le> n * k" using assms(2) by simp
  finally show ?thesis .
qed

lemma list_head_bounds:
  assumes "n \<le> 16"
  shows "length (session_list_head n) \<le> 50" "length (container_list_head n) \<le> 50"
  using length_fmt_nat [of 2 n] assms by (simp_all add: session_list_head_def container_list_head_def)

lemma listings_complete:
  assumes "engine_ok st"
    and "\<forall>s. s \<in> set (fst (session_list (e_sess st))) \<longrightarrow>
      - (2 ^ 31) \<le> sid s \<and> sid s < 2 ^ 31 \<and> - (2 ^ 31) \<le> spid s \<and> spid s < 2 ^ 31"
  shows "(extract_field (da_malloc_ok v) json ''cmd'' = Some ''session_list'' \<longrightarrow>
      handle_command H v json st =
        (Inr (session_list_head (snd (session_list (e_sess st))) @
              joined 0 (map session_item (fst (session_list (e_sess st)))) @ '']}''), st)) \<and>
    (extract_field (da_malloc_ok v) json ''cmd'' = Some ''container_list'' \<longrightarrow>
      handle_command H v json st =
        (Inr (container_list_head (snd (container_list (e_cont st))) @
              joined 0 (map container_item (fst (container_list (e_cont st)))) @ '']}''), st))"
proof -
  have sess: "sess_inv (e_sess st)" "\<forall>s \<in> set (active (e_sess st)). length (sname s) < 64"
    using assms(1) reachable_sess_inv reachable_names unfolding engine_ok_def by blast+
  have cont: "cont_inv (e_cont st)" "\<forall>c \<in> set (cactive (e_cont st)). length (cname c) < 64"
    using assms(1) reachable_cont_inv [of "(e_files st, e_cont st)"]
      reachable_container_names [of "(e_files st, e_cont st)"] by (simp_all add: engine_ok_def)
  have item: "Suc (length (session_item s)) \<le> 120" if "s \<in> set (active (e_sess st))" for s
    using that sess(2) assms(2) length_fmt_int32 [of "sid s"] length_fmt_int32 [of "spid s"]
    by (fastforce simp: session_item_def session_list_def active_def)
  have citem: "Suc (length (container_item c)) \<le> 120" if "c \<in> set (cactive (e_cont st))" for c
    using that cont(2) length_fmt_int32 [of "state_int (cstate c)"]
    by (cases "cstate c") (fastforce simp: container_item_def)+
  have "sum_list (map (\<lambda>x. Suc (length x)) (map session_item (active (e_sess st)))) \<le> 16 * 120"
    using sum_list_bound [of "active (e_sess st)" "\<lambda>s. Suc (length (session_item s))" 120 16] item sess(1)
    by (auto simp: comp_def sess_inv_def active_def)
  moreover have "sum_list (map (\<lambda>x. Suc (length x)) (map container_item (cactive (e_cont st)))) \<le> 16 * 120"
    using sum_list_bound [of "cactive (e_cont st)" "\<lambda>c. Suc (length (container_item c))" 120 16] citem cont(1)
    by (auto simp: comp_def cont_inv_def cactive_def)
  ultimately show ?thesis
    using list_head_bounds [of "session_count (e_sess st)"] list_head_bounds [of "container_count (e_cont st)"] sess(1) cont(1)
    by (auto simp: handle_command_defs Let_def session_list_def container_list_def active_def cactive_def
        sess_inv_def cont_inv_def resp_list_fit)
qed

text \<open>
  C30: the listings of sessions and of containers never leave the response buffer and are never
  cut: in every reachable state (with identifiers and pids in the range of \<open>int\<close>) the
  response is the complete list, although the guard of the loop, 100 bytes, is less than the
  length an item can have.
\<close>

theorem daemon_listings_complete:
  assumes "engine_ok st"
    and "\<forall>s. s \<in> set (fst (session_list (e_sess st))) \<longrightarrow>
      - (2 ^ 31) \<le> sid s \<and> sid s < 2 ^ 31 \<and> - (2 ^ 31) \<le> spid s \<and> spid s < 2 ^ 31"
  shows "(extract_field (da_malloc_ok v) json ''cmd'' = Some ''session_list'' \<longrightarrow>
      handle_command H v json st =
        (Inr (session_list_head (snd (session_list (e_sess st))) @
              joined 0 (map session_item (fst (session_list (e_sess st)))) @ '']}''), st)) \<and>
    (extract_field (da_malloc_ok v) json ''cmd'' = Some ''container_list'' \<longrightarrow>
      handle_command H v json st =
        (Inr (container_list_head (snd (container_list (e_cont st))) @
              joined 0 (map container_item (fst (container_list (e_cont st)))) @ '']}''), st))"
  by (rule listings_complete [OF assms])

section \<open>Examples\<close>

definition wipe_env0 :: wipe_env where
  "wipe_env0 = \<lparr>wp_random1 = (\<lambda>i. 0xA5), wp_open1 = True, wp_malloc = True, wp_torn1 = None, wp_unlink1 = True,
     wp_random2 = (\<lambda>i. 0x5A), wp_open2 = True, wp_torn2 = None, wp_unlink2 = True\<rparr>"

definition daemon_env0 :: daemon_env where
  "daemon_env0 = \<lparr>da_malloc_ok = True, da_pid = 1, da_sodium = sodium_example, da_file = file_env0,
     da_del = del_env0, da_co = co_demo, da_create = create_ok, da_system = (\<lambda>c. 0), da_hash_open = True,
     da_hash_err = None, da_wipe = wipe_env0\<rparr>"

lemma running_engine_ok: "engine_ok running_engine"
  unfolding running_engine_def by (rule engine_ok_init [OF engine_ok_start])

lemma extract_examples:
  \<open>extract_field True ''{"cmd":"emergency_wipe"}'' ''cmd'' = Some ''emergency_wipe''\<close>
  \<open>extract_field True ''{"cmd":"session_list"}'' ''cmd'' = Some ''session_list''\<close>
  by (simp_all add: extract_field_def snprintf_buf_def Let_def)

theorem handle_command_keeps_engine_witness:
  \<open>engine_ok (snd (handle_command gh_example daemon_env0 ''{"cmd":"session_start"}'' running_engine))\<close>
proof -
  have "regions (e_mem running_engine) = Map.empty"
    by (simp add: running_engine_def cryptic_init_def engine_start_def secure_memory_init_def mem_start_def Let_def)
  then have "fresh (fe_key_mem (da_file daemon_env0)) (e_mem running_engine)"
    by (simp add: fresh_def split: option.splits)
  then show ?thesis by (rule handle_command_keeps_engine [OF running_engine_ok])
qed

text \<open>An engine with a session, an open container, a keyring, a master key and a secure region.\<close>

definition full_engine :: engine_state where
  "full_engine = running_engine\<lparr>e_sess := one_session, e_cont := snd one_container, e_mem := mem_example,
     e_files := (fst one_container)(KEYSTORE_PATH \<mapsto> [1, 2, 3], KEYSTORE_MASTER_PATH \<mapsto> [4, 5])\<rparr>"

lemma full_engine_ok: "engine_ok full_engine"
proof -
  have "cont_reachable ((fst one_container)(KEYSTORE_PATH \<mapsto> [1, 2, 3], KEYSTORE_MASTER_PATH \<mapsto> [4, 5]), snd one_container)"
    using creach_step [of "(fst one_container, snd one_container)", OF _ cont_files] one_container_reachable by simp
  then show ?thesis by (simp add: full_engine_def engine_ok_def one_session_reachable mem_example_inv)
qed


theorem daemon_listings_complete_witness:
  \<open>\<exists>s. fst (session_list (e_sess full_engine)) = [s] \<and>
     fst (handle_command gh_example daemon_env0 ''{"cmd":"session_list"}'' full_engine) =
       Inr (session_list_head 1 @ session_item s @ '']}'')\<close>
proof -
  have e: \<open>extract_field (da_malloc_ok daemon_env0) ''{"cmd":"session_list"}'' ''cmd'' = Some ''session_list''\<close>
    using extract_examples(2) by (simp add: daemon_env0_def)
  obtain s where s: "fst (session_list one_session) = [s]" "sid s = 1" "spid s = 4242" "session_count one_session = 1"
    by (rule one_session_active)
  then have "session_list (e_sess full_engine) = ([s], 1)"
    by (simp add: full_engine_def session_list_def)
  then show ?thesis
    using daemon_listings_complete [OF full_engine_ok, of daemon_env0 \<open>''{"cmd":"session_list"}''\<close> gh_example] e s(2,3)
    by simp
qed

end
