(* ===== verification/Crypticd_Server.thy ===== *)
theory Crypticd_Server
  imports Crypticd
begin

text \<open>
  The server of \<open>crypticengine/daemon/crypticd.c\<close>: \<open>client_handler\<close>, the accept loop and
  \<open>main\<close>, with the system calls \<open>main\<close> makes around them as a log.
\<close>

section \<open>One client\<close>

text \<open>
  \<open>client_handler\<close>: one \<open>read\<close> of at most 4095 bytes; nothing is answered when it fails or
  the peer sent nothing.
\<close>

definition client_handler ::
  "'g gh_api \<Rightarrow> daemon_env \<Rightarrow> string option \<Rightarrow> engine_state \<Rightarrow> string option res \<times> engine_state" where
  "client_handler H v input st =
     (case input of
        None \<Rightarrow> (Inr None, st)
      | Some s \<Rightarrow>
          let buf = take (CMD_BUF_SIZE - 1) s in
          if buf = [] then (Inr None, st)
          else (case handle_command H v (cstr buf) st of
                  (Inl e, st') \<Rightarrow> (Inl e, st')
                | (Inr resp, st') \<Rightarrow> (Inr (Some resp), st')))"

section \<open>The accept loop\<close>

text \<open>
  What a turn of the loop meets: \<open>accept\<close> fails (interrupted or not), the descriptor cannot be
  handed over (\<open>malloc\<close> or \<open>pthread_create\<close> fails) and the client is dropped, or a client is
  handed to a thread, with the environment of its command and what it sent. The loop ends, at
  the end of the list, when \<open>daemon_running\<close> is 0. The threads are detached: the list has them in
  the order in which their commands take effect, and only those whose command has run when the
  loop has ended. A thread that is later than that is not waited for: it runs while or after
  \<open>main\<close> shuts the engine down (\<open>late_clients\<close>), or is killed by the end of the process and does
  nothing. That commands of different threads can overlap is the matter of \<open>Memory_Threads\<close>,
  \<open>Session_Threads\<close>, \<open>Container_Threads\<close> and \<open>File_Threads\<close>.
\<close>

datatype accepted = AcceptFailed | NoThread | Client daemon_env "string option"

fun accept_loop ::
  "'g gh_api \<Rightarrow> accepted list \<Rightarrow> engine_state \<Rightarrow> (string option list) res \<times> engine_state" where
  "accept_loop H [] st = (Inr [], st)"
| "accept_loop H (AcceptFailed # cs) st = accept_loop H cs st"
| "accept_loop H (NoThread # cs) st = accept_loop H cs st"
| "accept_loop H (Client v inp # cs) st =
     (case client_handler H v inp st of
        (Inl e, st') \<Rightarrow> (Inl e, st')
      | (Inr r, st') \<Rightarrow>
          (case accept_loop H cs st' of
             (Inl e, st'') \<Rightarrow> (Inl e, st'')
           | (Inr rs, st'') \<Rightarrow> (Inr (r # rs), st'')))"

fun late_clients ::
  "'g gh_api \<Rightarrow> (daemon_env \<times> string option) list \<Rightarrow> engine_state \<Rightarrow> (string option list) res \<times> engine_state" where
  "late_clients H [] st = (Inr [], st)"
| "late_clients H ((v, inp) # cs) st =
     (case client_handler H v inp st of
        (Inl e, st') \<Rightarrow> (Inl e, st')
      | (Inr r, st') \<Rightarrow>
          (case late_clients H cs st' of
             (Inl e, st'') \<Rightarrow> (Inl e, st'')
           | (Inr rs, st'') \<Rightarrow> (Inr (r # rs), st'')))"

section \<open>main\<close>

datatype daemon_call =
    DUnlink path
  | DSocket
  | DBind string
  | DChmod path nat
  | DListen nat
  | DNotify string string
  | DServe "string option list"
  | DClose
  | DShutdown
  | DLate "string option list"

record main_env =
  ma_sodium1 :: bool
  ma_sodium2 :: bool
  ma_co :: co_env
  ma_socket_ok :: bool
  ma_bind_ok :: bool
  ma_listen_ok :: bool
  ma_notify_socket :: "string option"
  ma_nsocket_ok :: bool

definition MAX_CLIENTS :: nat where "MAX_CLIENTS = 8"

definition mode_0660 :: nat where "mode_0660 = 6 * 64 + 6 * 8"

text \<open>\<open>sun_path\<close> has 108 characters and was cleared; a leading \<open>@\<close> becomes the null character.\<close>

definition notify_addr :: "string \<Rightarrow> string" where
  "notify_addr s =
     (let a = strncpy_buf 108 s in if a \<noteq> [] \<and> hd a = CHR ''@'' then CHR 0x00 # tl a else a)"

definition notify_ready :: "main_env \<Rightarrow> daemon_call list" where
  "notify_ready v =
     (case ma_notify_socket v of
        None \<Rightarrow> []
      | Some s \<Rightarrow> if ma_nsocket_ok v then [DNotify (notify_addr s) ''READY=1''] else [])"

text \<open>
  The exit status, the calls in order, and the state of the engine at the end. \<open>late\<close> are the
  detached threads that run after the shutdown and before the process is gone.
\<close>

definition daemon_main ::
  "'g gh_api \<Rightarrow> main_env \<Rightarrow> accepted list \<Rightarrow> (daemon_env \<times> string option) list \<Rightarrow> engine_state \<Rightarrow>
   int res \<times> daemon_call list \<times> engine_state" where
  "daemon_main H v clients late st =
     (case cryptic_init (ma_co v) (ma_sodium1 v) (ma_sodium2 v) st of
        (Inl _, st1) \<Rightarrow> (Inr 1, [], st1)
      | (Inr _, st1) \<Rightarrow>
          let l1 = [DUnlink CRYPTICD_SOCKET_PATH, DSocket] in
          if \<not> ma_socket_ok v then (Inr 1, l1, st1)
          else
            let l2 = l1 @ [DBind (strncpy_buf 108 CRYPTICD_SOCKET_PATH)] in
            if \<not> ma_bind_ok v then (Inr 1, l2 @ [DClose], st1)
            else
              let l3 = l2 @ [DChmod CRYPTICD_SOCKET_PATH mode_0660, DListen MAX_CLIENTS] in
              if \<not> ma_listen_ok v then (Inr 1, l3 @ [DClose], st1)
              else
                let l4 = l3 @ notify_ready v in
                (case accept_loop H clients st1 of
                   (Inl e, st2) \<Rightarrow> (Inl e, l4, st2)
                 | (Inr rs, st2) \<Rightarrow>
                     let l5 = l4 @ [DServe rs, DClose, DUnlink CRYPTICD_SOCKET_PATH, DShutdown] in
                     (case late_clients H late (cryptic_shutdown (ma_co v) st2) of
                        (Inl e, st3) \<Rightarrow> (Inl e, l5, st3)
                      | (Inr rs', st3) \<Rightarrow> (Inr 0, l5 @ [DLate rs'], st3))))"

section \<open>The states in which the daemon serves\<close>

abbreviation in32 :: "int \<Rightarrow> bool" where "in32 i \<equiv> - (2 ^ 31) \<le> i \<and> i < 2 ^ 31"

text \<open>
  Between two commands the engine is initialised and consistent, holds no secure memory (every
  key buffer is given back), and has used at most \<open>k\<close> session identifiers.
\<close>

definition serving :: "int \<Rightarrow> engine_state \<Rightarrow> bool" where
  "serving k st \<longleftrightarrow>
     engine_ok st \<and> engine_initialized st \<and> initialized (e_mem st) \<and> regions (e_mem st) = Map.empty \<and>
     session_initialized (e_sess st) \<and> next_session_id (e_sess st) \<le> k \<and>
     (\<forall>s \<in> set (active (e_sess st)). in32 (spid s))"

lemma serving_mono: "serving k st \<Longrightarrow> k \<le> k' \<Longrightarrow> serving k' st"
  by (auto simp: serving_def)

lemma serving_fresh: "serving k st \<Longrightarrow> fresh a (e_mem st)"
  by (auto simp: serving_def fresh_def split: option.splits)

lemma serving_files: "serving k st \<Longrightarrow> serving k (st\<lparr>e_files := f\<rparr>)"
  by (simp add: serving_def engine_ok_files)

lemma serving_cont:
  "serving k st \<Longrightarrow> engine_ok (st\<lparr>e_files := f, e_cont := c\<rparr>) \<Longrightarrow> serving k (st\<lparr>e_files := f, e_cont := c\<rparr>)"
  by (simp add: serving_def)

lemma serving_create:
  assumes "serving k st" "in32 (ce_clone ce)" "session_create ce n mm b (e_sess st) = (r, ss)"
  shows "serving (k + 1) (st\<lparr>e_sess := ss\<rparr>)"
proof -
  have inv: "sess_inv (e_sess st)" using assms(1) reachable_sess_inv by (auto simp: serving_def engine_ok_def)
  have "next_session_id ss \<le> next_session_id (e_sess st) + 1" "session_initialized ss"
    using assms by (auto simp: session_create_def serving_def Let_def log_sys_def split: if_splits prod.splits)
  moreover have "\<forall>s \<in> set (active ss). in32 (spid s)"
    using inv assms(3) by (cases rule: create_cases) (use assms in \<open>auto simp: serving_def\<close>)
  moreover have "engine_ok (st\<lparr>e_sess := ss\<rparr>)"
    using assms engine_ok_leaves(1) by (auto simp: serving_def)
  ultimately show ?thesis using assms(1) by (auto simp: serving_def)
qed

lemma destroy_counters:
  "next_session_id (snd (session_destroy i ss)) = next_session_id ss"
  "session_initialized (snd (session_destroy i ss)) = session_initialized ss"
  by (auto simp: session_destroy_def Let_def log_sys_def split: option.splits)

lemma destroy_all_counters:
  "next_session_id (session_destroy_all ss) = next_session_id ss"
  "session_initialized (session_destroy_all ss) = session_initialized ss"
proof -
  have "next_session_id (fold (\<lambda>i st. snd (session_destroy i st)) is ss) = next_session_id ss \<and>
      session_initialized (fold (\<lambda>i st. snd (session_destroy i st)) is ss) = session_initialized ss" for "is"
    by (induction "is" arbitrary: ss) (simp_all add: destroy_counters)
  then show "next_session_id (session_destroy_all ss) = next_session_id ss"
    "session_initialized (session_destroy_all ss) = session_initialized ss"
    by (simp_all add: session_destroy_all_def)
qed

lemma serving_destroy:
  assumes "serving k st" "session_destroy i (e_sess st) = (r, ss)"
  shows "serving k (st\<lparr>e_sess := ss\<rparr>)"
proof -
  have inv: "sess_inv (e_sess st)" using assms(1) reachable_sess_inv by (auto simp: serving_def engine_ok_def)
  have "active ss = remove_key sid i (active (e_sess st))"
    using destroy_active [OF inv, of i] assms(2) by simp
  then have "set (active ss) \<subseteq> set (active (e_sess st))" using remove_key_subset by fastforce
  moreover have "engine_ok (st\<lparr>e_sess := ss\<rparr>)"
    using assms engine_ok_leaves(2) by (auto simp: serving_def)
  ultimately show ?thesis
    using assms destroy_counters [of i "e_sess st"] by (auto simp: serving_def)
qed

lemma serving_emergency:
  assumes "serving k st"
  shows "serving k (emergency_wipe v st)"
proof -
  have ok: "engine_ok (emergency_wipe v st)" "mem_inv (e_mem st)" "sess_inv (e_sess st)"
    using assms engine_ok_emergency reachable_sess_inv by (auto simp: serving_def engine_ok_def)
  have "active (session_destroy_all (e_sess st)) = []"
    using destroy_all_inv_empty [OF ok(3)] by simp
  then show ?thesis
    using assms ok
    by (auto simp: serving_def emergency_wipe_def destroy_all_counters emergency_wipe_eq case_prod_beta Let_def)
qed

lemma serving_szenc:
  assumes "serving k st"
    and "cryptic_encrypt_file S fe (Some p) (Some pw) (e_files st, e_mem st) = (r, f, m) \<or>
         cryptic_decrypt_file S fe (Some p) (Some pw) (e_files st, e_mem st) = (r, f, m)"
  shows "serving k (st\<lparr>e_files := f, e_mem := m\<rparr>)"
proof -
  have "m = e_mem st"
    using assms szenc_memory serving_fresh by (fastforce simp: serving_def engine_ok_def)
  then show ?thesis using serving_files [OF assms(1), of f] by simp
qed


text \<open>The leaves of the dispatcher, as in \<open>handle_command_keeps_engine\<close>.\<close>

lemma serving_leaves:
  assumes "serving k st"
  shows "session_create ce n mm b (e_sess st) = (r, ss) \<Longrightarrow> in32 (ce_clone ce) \<Longrightarrow> serving (k + 1) (st\<lparr>e_sess := ss\<rparr>)"
    "session_destroy i (e_sess st) = (r1, ss) \<Longrightarrow> serving (k + 1) (st\<lparr>e_sess := ss\<rparr>)"
    "container_create e nm sz pw (e_files st, e_cont st) = (r1, f, c) \<Longrightarrow> serving (k + 1) (st\<lparr>e_files := f, e_cont := c\<rparr>)"
    "container_open e (Some nm') (Some pw') (e_files st, e_cont st) = (r1, f, c) \<Longrightarrow> serving (k + 1) (st\<lparr>e_files := f, e_cont := c\<rparr>)"
    "container_close e (Some nm') (e_files st, e_cont st) = (r1, f, c) \<Longrightarrow> serving (k + 1) (st\<lparr>e_files := f, e_cont := c\<rparr>)"
    "serving (k + 1) (st\<lparr>e_files := f\<rparr>)"
    "serving (k + 1) (emergency_wipe v st)"
    "serving (k + 1) st"
proof -
  have ok: "engine_ok st" and one: "serving (k + 1) st"
    using assms serving_mono [of k st "k + 1"] by (simp_all add: serving_def)
  show "session_create ce n mm b (e_sess st) = (r, ss) \<Longrightarrow> in32 (ce_clone ce) \<Longrightarrow> serving (k + 1) (st\<lparr>e_sess := ss\<rparr>)"
    using serving_create [OF assms] by blast
  show "session_destroy i (e_sess st) = (r1, ss) \<Longrightarrow> serving (k + 1) (st\<lparr>e_sess := ss\<rparr>)"
    by (rule serving_destroy [OF one])
  show "container_create e nm sz pw (e_files st, e_cont st) = (r1, f, c) \<Longrightarrow> serving (k + 1) (st\<lparr>e_files := f, e_cont := c\<rparr>)"
    "container_open e (Some nm') (Some pw') (e_files st, e_cont st) = (r1, f, c) \<Longrightarrow> serving (k + 1) (st\<lparr>e_files := f, e_cont := c\<rparr>)"
    "container_close e (Some nm') (e_files st, e_cont st) = (r1, f, c) \<Longrightarrow> serving (k + 1) (st\<lparr>e_files := f, e_cont := c\<rparr>)"
    using engine_ok_leaves(3-5) [OF ok] serving_cont [OF one] by blast+
  show "serving (k + 1) (st\<lparr>e_files := f\<rparr>)" "serving (k + 1) (emergency_wipe v st)" "serving (k + 1) st"
    using one by (simp_all add: serving_files serving_emergency)
qed

lemma serving_command:
  assumes "serving k st" "in32 (ce_clone (da_create v))"
  shows "serving (k + 1) (snd (handle_command H v json st))"
  unfolding handle_command_defs Let_def
  by (intro branch_rules [where P = "serving (k + 1)"]; simp add: serving_leaves(6-8) [OF assms(1)];
      (elim serving_leaves(1) [OF assms(1) _ assms(2)] serving_leaves(2-5) [OF assms(1)] |
       rule serving_szenc [OF serving_leaves(8) [OF assms(1)]], blast))

lemma serving_defined:
  assumes "serving k st" "k < 2 ^ 31 - 1"
  shows "\<exists>t. fst (handle_command H v json st) = Inr t"
proof -
  have "sess_inv (e_sess st)" using assms(1) reachable_sess_inv by (auto simp: serving_def engine_ok_def)
  then have "\<forall>s. s \<in> set (fst (session_list (e_sess st))) \<longrightarrow> in32 (sid s) \<and> in32 (spid s)"
    using assms by (fastforce simp: serving_def sess_inv_def session_list_def active_def)
  moreover have "fst (session_create ce n mm b (e_sess st)) \<noteq> Inl EUndefined" for ce n mm b
    using assms by (auto simp: serving_def session_create_def Let_def split: prod.splits)
  then have "session_create ce n mm b (e_sess st) \<noteq> (Inl EUndefined, ss)" for ce n mm b ss
    by (metis fst_conv)
  ultimately show ?thesis
    using listings_complete [of st v json H] assms(1)
    by (cases "extract_field (da_malloc_ok v) json ''cmd'' \<in> {Some ''session_list'', Some ''container_list''}")
      (auto simp: serving_def handle_command_defs Let_def split: option.splits prod.splits sum.splits)
qed

section \<open>A whole run\<close>

text \<open>
  What clients are answered: every one that sent something is answered what \<open>handle_command\<close>
  makes of (the first 4095 bytes of) it, in the state the ones before it left.
\<close>

inductive answered ::
  "'g gh_api \<Rightarrow> engine_state \<Rightarrow> (daemon_env \<times> string option) list \<Rightarrow> string option list \<Rightarrow> engine_state \<Rightarrow> bool"
  for H where
  all_answered: "answered H st [] [] st"
| request: "s \<noteq> [] \<Longrightarrow> handle_command H v (cstr (take 4095 s)) st = (Inr t, st1) \<Longrightarrow> answered H st1 cs rs st' \<Longrightarrow>
     answered H st ((v, Some s) # cs) (Some t # rs) st'"
| silent: "inp \<in> {None, Some []} \<Longrightarrow> answered H st cs rs st' \<Longrightarrow> answered H st ((v, inp) # cs) (None # rs) st'"

inductive_simps answered_simps [simp]: "answered H st [] rs st'" "answered H st (c # cs) rs st'"

lemma client_handler_answers:
  assumes "\<And>json. \<exists>t. fst (handle_command H v json st) = Inr t"
  shows "\<exists>r st'. client_handler H v inp st = (Inr r, st') \<and> (st' = st \<or> (\<exists>json. st' = snd (handle_command H v json st))) \<and>
    (\<forall>cs rs st''. answered H st' cs rs st'' \<longrightarrow> answered H st ((v, inp) # cs) (r # rs) st'')"
proof (cases "inp \<in> {None, Some []}")
  case True
  then show ?thesis by (auto simp: client_handler_def)
next
  case False
  then obtain s where s: "inp = Some s" "s \<noteq> []" by auto
  obtain t st' where h: "handle_command H v (cstr (take 4095 s)) st = (Inr t, st')"
    using assms by (metis prod.collapse)
  then have "client_handler H v inp st = (Inr (Some t), st')" using s by (simp add: client_handler_def)
  moreover have "st' = snd (handle_command H v (cstr (take 4095 s)) st)" using h by simp
  ultimately show ?thesis using h s request [OF s(2) h] by blast
qed

lemma client_handler_serving:
  assumes "serving k st" "k < 2 ^ 31 - 1" "in32 (ce_clone (da_create v))"
  shows "\<exists>r st'. client_handler H v inp st = (Inr r, st') \<and> serving (k + 1) st' \<and>
    (\<forall>cs rs st''. answered H st' cs rs st'' \<longrightarrow> answered H st ((v, inp) # cs) (r # rs) st'')"
  using client_handler_answers [OF serving_defined [OF assms(1,2)], of H v inp] serving_command [OF assms(1,3), of H]
    serving_mono [OF assms(1), of "k + 1"] by fastforce

definition handed :: "accepted list \<Rightarrow> (daemon_env \<times> string option) list" where
  "handed cs = concat (map (\<lambda>c. case c of Client v inp \<Rightarrow> [(v, inp)] | _ \<Rightarrow> []) cs)"

lemma handed_simps [simp]:
  "handed [] = []" "handed (AcceptFailed # cs) = handed cs"
  "handed (NoThread # cs) = handed cs" "handed (Client v i # cs) = (v, i) # handed cs"
  by (simp_all add: handed_def)

lemma accept_loop_serving:
  "serving k st \<Longrightarrow> k + int (length (handed cs)) \<le> 2 ^ 31 - 1 \<Longrightarrow>
   (\<forall>(v, inp) \<in> set (handed cs). in32 (ce_clone (da_create v))) \<Longrightarrow>
   \<exists>rs st'. accept_loop H cs st = (Inr rs, st') \<and> answered H st (handed cs) rs st' \<and>
     serving (k + int (length (handed cs))) st'"
proof (induction H cs st arbitrary: k rule: accept_loop.induct)
  case (4 H v inp cs st)
  have "k < 2 ^ 31 - 1" "in32 (ce_clone (da_create v))" using "4.prems"(2,3) by auto
  then obtain r st1 where c: "client_handler H v inp st = (Inr r, st1)" "serving (k + 1) st1"
    "\<forall>cs rs st''. answered H st1 cs rs st'' \<longrightarrow> answered H st ((v, inp) # cs) (r # rs) st''"
    using client_handler_serving "4.prems"(1) by blast
  have "k + 1 + int (length (handed cs)) \<le> 2 ^ 31 - 1" using "4.prems"(2) by simp
  from "4.IH" [OF c(1) [symmetric] refl c(2) this] "4.prems"(3)
  obtain rs st' where "accept_loop H cs st1 = (Inr rs, st')" "answered H st1 (handed cs) rs st'"
    "serving (k + 1 + int (length (handed cs))) st'" by auto
  with c(1,3) show ?case by (simp add: algebra_simps del: answered_simps)
qed auto

text \<open>After the shutdown: no session can be started and no secure memory be had any more.\<close>

definition stopped :: "engine_state \<Rightarrow> bool" where
  "stopped st \<longleftrightarrow>
     engine_ok st \<and> \<not> initialized (e_mem st) \<and> regions (e_mem st) = Map.empty \<and> secure_memory_stats (e_mem st) = (0, 0) \<and>
     \<not> session_initialized (e_sess st) \<and> active (e_sess st) = []"

lemma stopped_cont:
  "stopped st \<Longrightarrow> engine_ok (st\<lparr>e_files := f, e_cont := c\<rparr>) \<Longrightarrow> stopped (st\<lparr>e_files := f, e_cont := c\<rparr>)"
  by (simp add: stopped_def)

lemma stopped_leaves:
  assumes "stopped st"
  shows "session_create ce n mm b (e_sess st) = (r, ss) \<Longrightarrow> stopped (st\<lparr>e_sess := ss\<rparr>)"
    "session_destroy i (e_sess st) = (r1, ss) \<Longrightarrow> stopped (st\<lparr>e_sess := ss\<rparr>)"
    "container_create e nm sz pw (e_files st, e_cont st) = (r1, f, c) \<Longrightarrow> stopped (st\<lparr>e_files := f, e_cont := c\<rparr>)"
    "container_open e (Some nm') (Some pw') (e_files st, e_cont st) = (r1, f, c) \<Longrightarrow> stopped (st\<lparr>e_files := f, e_cont := c\<rparr>)"
    "container_close e (Some nm') (e_files st, e_cont st) = (r1, f, c) \<Longrightarrow> stopped (st\<lparr>e_files := f, e_cont := c\<rparr>)"
    "stopped (st\<lparr>e_files := f\<rparr>)"
    "stopped (emergency_wipe v st)"
proof -
  have ok: "engine_ok st" "sess_inv (e_sess st)" "mem_inv (e_mem st)"
    using assms reachable_sess_inv by (auto simp: stopped_def engine_ok_def)
  have destroy: "session_destroy i (e_sess st) = (Inl ENotFound, e_sess st)" for i
    using assms find_session_eq [OF ok(2), of i] by (simp add: stopped_def session_destroy_def)
  show "session_create ce n mm b (e_sess st) = (r, ss) \<Longrightarrow> stopped (st\<lparr>e_sess := ss\<rparr>)"
    using assms by (auto simp: stopped_def session_create_def)
  show "session_destroy i (e_sess st) = (r1, ss) \<Longrightarrow> stopped (st\<lparr>e_sess := ss\<rparr>)"
    using assms destroy by auto
  show "container_create e nm sz pw (e_files st, e_cont st) = (r1, f, c) \<Longrightarrow> stopped (st\<lparr>e_files := f, e_cont := c\<rparr>)"
    "container_open e (Some nm') (Some pw') (e_files st, e_cont st) = (r1, f, c) \<Longrightarrow> stopped (st\<lparr>e_files := f, e_cont := c\<rparr>)"
    "container_close e (Some nm') (e_files st, e_cont st) = (r1, f, c) \<Longrightarrow> stopped (st\<lparr>e_files := f, e_cont := c\<rparr>)"
    using engine_ok_leaves(3-5) [OF ok(1)] stopped_cont [OF assms] by blast+
  show "stopped (st\<lparr>e_files := f\<rparr>)" using assms by (simp add: stopped_def engine_ok_files)
  have "active (session_destroy_all (e_sess st)) = []" using destroy_all_inv_empty [OF ok(2)] by simp
  then show "stopped (emergency_wipe v st)"
    using assms ok engine_ok_emergency [OF ok(1), of v]
    by (auto simp: stopped_def emergency_wipe_def destroy_all_counters emergency_wipe_eq secure_memory_stats_def
        case_prod_beta Let_def)
qed

lemma stopped_szenc:
  assumes "stopped st"
    and "cryptic_encrypt_file S fe (Some p) (Some pw) (e_files st, e_mem st) = (r, f, m) \<or>
         cryptic_decrypt_file S fe (Some p) (Some pw) (e_files st, e_mem st) = (r, f, m)"
  shows "stopped (st\<lparr>e_files := f, e_mem := m\<rparr>)"
proof -
  have "fresh (fe_key_mem fe) (e_mem st)" using assms(1) by (auto simp: stopped_def fresh_def split: option.splits)
  then have "m = e_mem st" using assms szenc_memory by (fastforce simp: stopped_def engine_ok_def)
  then show ?thesis using stopped_leaves(6) [OF assms(1), of f] by simp
qed

lemma stopped_command:
  assumes "stopped st"
  shows "stopped (snd (handle_command H v json st))"
  unfolding handle_command_defs Let_def
  by (intro branch_rules [where P = stopped]; simp add: assms stopped_leaves(6,7) [OF assms];
      (elim stopped_leaves(1-5) [OF assms] | rule stopped_szenc [OF assms], blast))

lemma stopped_defined:
  assumes "stopped st"
  shows "\<exists>t. fst (handle_command H v json st) = Inr t"
proof -
  have "fst (session_list (e_sess st)) = []" "engine_ok st" using assms by (simp_all add: stopped_def session_list_def active_def)
  moreover have "session_create ce n mm b (e_sess st) = (Inl EInval, e_sess st)" for ce n mm b
    using assms by (simp add: stopped_def session_create_def)
  ultimately show ?thesis
    using listings_complete [of st v json H]
    by (cases "extract_field (da_malloc_ok v) json ''cmd'' \<in> {Some ''session_list'', Some ''container_list''}")
      (auto simp: handle_command_defs Let_def split: option.splits prod.splits sum.splits)
qed

lemma late_clients_stopped:
  "stopped st \<Longrightarrow> \<exists>rs st'. late_clients H cs st = (Inr rs, st') \<and> answered H st cs rs st' \<and> stopped st'"
proof (induction H cs st rule: late_clients.induct)
  case (2 H v inp cs st)
  from client_handler_answers [OF stopped_defined [OF 2(2)], of H v inp] obtain r st1 where
    c: "client_handler H v inp st = (Inr r, st1)" "st1 = st \<or> (\<exists>json. st1 = snd (handle_command H v json st))"
    and more: "\<forall>cs rs st''. answered H st1 cs rs st'' \<longrightarrow> answered H st ((v, inp) # cs) (r # rs) st''" by blast
  have "stopped st1" using c(2) 2(2) stopped_command by blast
  from 2(1) [OF c(1) [symmetric] refl this] more c(1) show ?case by (auto simp del: answered_simps)
qed auto

lemma stopped_shutdown:
  assumes "serving k st"
  shows "stopped (cryptic_shutdown ce st) \<and> container_list (e_cont (cryptic_shutdown ce st)) = ([], 0)"
proof -
  have s: "engine_ok st" "engine_initialized st" "initialized (e_mem st)" "session_initialized (e_sess st)"
    "regions (e_mem st) = Map.empty"
    using assms by (simp_all add: serving_def)
  note clean = shutdown_cleans [OF s(1-4), of ce]
  have "engine_ok (cryptic_shutdown ce st)" by (rule engine_ok_step [OF eng_shutdown s(1)])
  moreover have "regions (e_mem (cryptic_shutdown ce st)) = Map.empty" using clean s(5) by auto
  moreover have "\<not> initialized (e_mem (cryptic_shutdown ce st))" "\<not> session_initialized (e_sess (cryptic_shutdown ce st))"
    using s(2-4) by (auto simp: cryptic_shutdown_def secure_memory_shutdown_def session_shutdown_def split: prod.splits)
  moreover have "active (e_sess (cryptic_shutdown ce st)) = []"
    using clean by (simp add: session_list_def active_def)
  ultimately show ?thesis using clean by (simp add: stopped_def)
qed

lemma serving_init:
  assumes "s1" "s2"
  shows "\<exists>st. cryptic_init ce s1 s2 (engine_start files) = (Inr (), st) \<and> serving 1 st"
proof -
  let ?st = "snd (cryptic_init ce True True (engine_start files))"
  have "engine_ok ?st" by (rule engine_ok_init [OF engine_ok_start])
  moreover have "fst (cryptic_init ce True True (engine_start files)) = Inr ()"
    "engine_initialized ?st \<and> initialized (e_mem ?st) \<and> regions (e_mem ?st) = Map.empty \<and>
     session_initialized (e_sess ?st) \<and> next_session_id (e_sess ?st) = 1 \<and> active (e_sess ?st) = []"
    by (simp_all add: cryptic_init_def engine_start_def secure_memory_init_def mem_start_def
        session_init_def sess_start_def active_def log_sys_def Let_def)
  ultimately have "serving 1 ?st" "cryptic_init ce True True (engine_start files) = (Inr (), ?st)"
    by (auto simp: serving_def prod_eq_iff)
  with assms show ?thesis by auto
qed


section \<open>Examples\<close>

definition main_env0 :: main_env where
  "main_env0 = \<lparr>ma_sodium1 = True, ma_sodium2 = True, ma_co = co_demo, ma_socket_ok = True, ma_bind_ok = True,
     ma_listen_ok = True, ma_notify_socket = Some ''@notify'', ma_nsocket_ok = True\<rparr>"


end
