(* ===== verification/Integrity.thy ===== *)
theory Integrity
  imports Crypto_Core C_Strings
begin

text \<open>
  \<open>crypticengine/src/integrity.c\<close>: the database of file hashes, the checks against it and the
  monitor. Directories are seen through \<open>dir_view\<close>: what \<open>opendir\<close>/\<open>readdir\<close> list at a path and
  what \<open>lstat\<close> says a path is. The directory scan recurses on paths cut at 511 characters and
  need not end, so it carries fuel, one unit per level of directories; \<open>None\<close> is a scan that
  has not returned. The results of a check are the array of the caller.
\<close>

section \<open>Data\<close>

definition INTEGRITY_DB_PATH :: path where "INTEGRITY_DB_PATH = ''/var/lib/securez/integrity.db''"

abbreviation (input) INTEGRITY_HASH_LEN :: nat where "INTEGRITY_HASH_LEN \<equiv> 32"

datatype integrity_status =
  INTEGRITY_OK | INTEGRITY_MODIFIED | INTEGRITY_MISSING | INTEGRITY_NEW | INTEGRITY_ERROR

record integrity_result =
  ir_path :: string
  ir_expected :: bytes
  ir_actual :: bytes
  ir_status :: integrity_status

datatype file_kind = KDir | KReg | KOther

record 'g int_env =
  ie_sodium :: sodium
  ie_gh :: "'g gh_api"
  ie_open :: "path \<Rightarrow> bool"
  ie_err :: "path \<Rightarrow> nat option"
  ie_entries :: "path \<Rightarrow> string list option"
  ie_kind :: "path \<Rightarrow> file_kind option"

definition hash_path :: "'g int_env \<Rightarrow> fs \<Rightarrow> path \<Rightarrow> bytes res" where
  "hash_path v files p = crypto_hash_file (ie_gh v) files (ie_open v p) (ie_err v p) True (Some p)"

section \<open>Building the database\<close>

definition hash_and_store :: "'g int_env \<Rightarrow> fs \<Rightarrow> path \<Rightarrow> string res" where
  "hash_and_store v files p =
     (case hash_path v files p of
        Inl e \<Rightarrow> Inl e
      | Inr h \<Rightarrow> Inr (crypto_bin_to_hex (ie_sodium v) h @ ''  '' @ p @ [CHR 0x0A]))"

text \<open>The recursive scan: the database written so far and the number of files hashed.\<close>

function scan_directory_recursive ::
    "nat \<Rightarrow> 'g int_env \<Rightarrow> fs \<Rightarrow> path \<Rightarrow> string \<times> nat \<Rightarrow> (string \<times> nat) option"
  and scan_entries ::
    "nat \<Rightarrow> 'g int_env \<Rightarrow> fs \<Rightarrow> path \<Rightarrow> string list \<Rightarrow> string \<times> nat \<Rightarrow> (string \<times> nat) option" where
  "scan_directory_recursive 0 v files dir acc = None"
| "scan_directory_recursive (Suc n) v files dir acc =
     (case ie_entries v dir of
        None \<Rightarrow> Some acc
      | Some es \<Rightarrow> scan_entries n v files dir es acc)"
| "scan_entries n v files dir [] acc = Some acc"
| "scan_entries n v files dir (e # es) acc =
     (if e = ''.'' \<or> e = ''..'' then scan_entries n v files dir es acc
      else
        let full_path = snprintf_buf 512 (dir @ ''/'' @ e) in
        case ie_kind v full_path of
          None \<Rightarrow> scan_entries n v files dir es acc
        | Some KDir \<Rightarrow>
            (case scan_directory_recursive n v files full_path acc of
               None \<Rightarrow> None
             | Some acc' \<Rightarrow> scan_entries n v files dir es acc')
        | Some KReg \<Rightarrow>
            (case hash_and_store v files full_path of
               Inl _ \<Rightarrow> scan_entries n v files dir es acc
             | Inr l \<Rightarrow> scan_entries n v files dir es (fst acc @ l, Suc (snd acc)))
        | Some KOther \<Rightarrow> scan_entries n v files dir es acc)"
  by pat_completeness auto
termination
  by (relation "inv_image (less_than <*lex*> less_than <*lex*> less_than)
      (\<lambda>x. case x of Inl (n, _) \<Rightarrow> (n, 0, 0) | Inr (n, _, _, _, es, _) \<Rightarrow> (n, 1, length es))") auto

definition watched_dirs :: "path list" where
  "watched_dirs = [''/bin'', ''/sbin'', ''/usr/bin'', ''/usr/sbin'', ''/etc'', ''/boot'']"

definition db_header :: string where
  "db_header = ''# SecureZ+ Integrity Database'' @ [CHR 0x0A] @ ''# Format: blake2b_hash  filepath'' @ [CHR 0x0A]"

fun scan_all :: "nat \<Rightarrow> 'g int_env \<Rightarrow> fs \<Rightarrow> path list \<Rightarrow> string \<times> nat \<Rightarrow> (string \<times> nat) option" where
  "scan_all n v files [] acc = Some acc"
| "scan_all n v files (d # ds) acc =
     (case scan_directory_recursive n v files d acc of
        None \<Rightarrow> None
      | Some acc' \<Rightarrow> scan_all n v files ds acc')"

definition integrity_init_database ::
  "nat \<Rightarrow> 'g int_env \<Rightarrow> bool \<Rightarrow> fs \<Rightarrow> (unit res \<times> fs) option" where
  "integrity_init_database n v fopen_ok files =
     (if \<not> fopen_ok then Some (Inl EOpen, files)
      else map_option (\<lambda>(text, count). (Inr (), files(INTEGRITY_DB_PATH \<mapsto> to_bytes text)))
             (scan_all n v files watched_dirs (db_header, 0)))"

section \<open>Checking\<close>

text \<open>A \<open>%ns\<close> conversion of \<open>sscanf\<close>, and the two of \<open>"%64s %511s"\<close>.\<close>

definition scan_token :: "nat \<Rightarrow> string \<Rightarrow> (string \<times> string) option" where
  "scan_token n s =
     (let t = dropWhile isspace s; tok = take n (takeWhile (\<lambda>c. \<not> isspace c) t)
      in if tok = [] then None else Some (tok, drop (length tok) t))"

definition sscanf_line :: "string \<Rightarrow> (string \<times> path) option" where
  "sscanf_line line =
     (case scan_token 64 line of
        None \<Rightarrow> None
      | Some (hex, rest) \<Rightarrow> map_option (\<lambda>(p, _). (hex, p)) (scan_token 511 rest))"

text \<open>\<open>sodium_hex2bin\<close> into a 32-byte field: what it does not fill keeps its old content.\<close>

definition hex2bin_into :: "sodium \<Rightarrow> string \<Rightarrow> bytes \<Rightarrow> bytes option" where
  "hex2bin_into S hex old =
     map_option (\<lambda>b. b @ drop (length b) old) (s_hex2bin S INTEGRITY_HASH_LEN hex)"

text \<open>One line of the database: the slot that is filled, and how the two counters move.\<close>

definition check_line ::
  "'g int_env \<Rightarrow> fs \<Rightarrow> string \<Rightarrow> integrity_result list \<times> nat \<times> nat \<Rightarrow> integrity_result list \<times> nat \<times> nat" where
  "check_line v files line acc =
     (case acc of (results, count, mismatches) \<Rightarrow>
      if line \<noteq> [] \<and> (hd line = CHR ''#'' \<or> hd line = CHR 0x0A) then acc
      else (case sscanf_line line of
        None \<Rightarrow> acc
      | Some (stored_hex, filepath) \<Rightarrow>
          let r = (results ! count)\<lparr>ir_path := strncpy_buf 512 filepath\<rparr> in
          (case hex2bin_into (ie_sodium v) stored_hex (ir_expected r) of
             None \<Rightarrow> (results[count := r], count, mismatches)
           | Some expected \<Rightarrow>
               let r1 = r\<lparr>ir_expected := expected\<rparr> in
               if files filepath = None
               then (results[count := r1\<lparr>ir_status := INTEGRITY_MISSING\<rparr>], Suc count, Suc mismatches)
               else (case hash_path v files filepath of
                       Inl _ \<Rightarrow> (results[count := r1\<lparr>ir_status := INTEGRITY_ERROR\<rparr>], Suc count, mismatches)
                     | Inr h \<Rightarrow>
                         let r2 = r1\<lparr>ir_actual := h\<rparr> in
                         if expected \<noteq> h
                         then (results[count := r2\<lparr>ir_status := INTEGRITY_MODIFIED\<rparr>], Suc count, Suc mismatches)
                         else (results[count := r2\<lparr>ir_status := INTEGRITY_OK\<rparr>], count, mismatches)))))"

function check_loop ::
  "'g int_env \<Rightarrow> fs \<Rightarrow> nat \<Rightarrow> string \<Rightarrow> integrity_result list \<times> nat \<times> nat \<Rightarrow> integrity_result list \<times> nat \<times> nat" where
  "check_loop v files max_results db acc =
     (case fgets 1024 db of
        None \<Rightarrow> acc
      | Some (line, rest) \<Rightarrow>
          if fst (snd acc) < max_results
          then check_loop v files max_results rest (check_line v files (cstr line) acc)
          else acc)"
  by pat_completeness auto
termination
  by (relation "measure (\<lambda>(v, files, mx, db, acc). length db)")
    (auto dest!: fgets_shorter)

declare check_loop.simps [simp del]

text \<open>Returns the value, the array and \<open>*count\<close>.\<close>

definition integrity_check_all ::
  "'g int_env \<Rightarrow> bool \<Rightarrow> integrity_result list \<Rightarrow> fs \<Rightarrow> int \<times> integrity_result list \<times> nat" where
  "integrity_check_all v fopen_ok results files =
     (case (if fopen_ok then files INTEGRITY_DB_PATH else None) of
        None \<Rightarrow> (-1, results, 0)
      | Some db \<Rightarrow>
          (case check_loop v files (length results) (of_bytes db) (results, 0, 0) of
             (results', count, mismatches) \<Rightarrow> (int mismatches, results', count)))"

text \<open>The search of \<open>integrity_check_file\<close>: the hash field after the first line with that path.\<close>

function find_expected :: "sodium \<Rightarrow> path \<Rightarrow> string \<Rightarrow> bytes \<Rightarrow> bytes option" where
  "find_expected S p db old =
     (case fgets 1024 db of
        None \<Rightarrow> None
      | Some (raw, rest) \<Rightarrow>
          let line = cstr raw in
          if line \<noteq> [] \<and> hd line = CHR ''#'' then find_expected S p rest old
          else (case sscanf_line line of
                  None \<Rightarrow> find_expected S p rest old
                | Some (stored_hex, filepath) \<Rightarrow>
                    if filepath = p
                    then Some (case hex2bin_into S stored_hex old of None \<Rightarrow> old | Some b \<Rightarrow> b)
                    else find_expected S p rest old))"
  by pat_completeness auto
termination
  by (relation "measure (\<lambda>(S, p, db, old). length db)")
    (auto dest!: fgets_shorter)

declare find_expected.simps [simp del]

definition integrity_check_file ::
  "'g int_env \<Rightarrow> bool \<Rightarrow> path option \<Rightarrow> integrity_result option \<Rightarrow> fs \<Rightarrow> int \<times> integrity_result option" where
  "integrity_check_file v fopen_ok path_p result files =
     (case (path_p, result) of
        (Some p, Some r0) \<Rightarrow>
          let r = r0\<lparr>ir_path := strncpy_buf 512 p\<rparr> in
          if files p = None then (1, Some (r\<lparr>ir_status := INTEGRITY_MISSING\<rparr>))
          else (case hash_path v files p of
                  Inl _ \<Rightarrow> (-1, Some (r\<lparr>ir_status := INTEGRITY_ERROR\<rparr>))
                | Inr h \<Rightarrow>
                    let r1 = r\<lparr>ir_actual := h\<rparr> in
                    (case (if fopen_ok then files INTEGRITY_DB_PATH else None) of
                       None \<Rightarrow> (-1, Some r1)
                     | Some db \<Rightarrow>
                         (case find_expected (ie_sodium v) p (of_bytes db) (ir_expected r1) of
                            None \<Rightarrow> (1, Some (r1\<lparr>ir_status := INTEGRITY_NEW\<rparr>))
                          | Some expected \<Rightarrow>
                              let r2 = r1\<lparr>ir_expected := expected\<rparr> in
                              if expected = h then (0, Some (r2\<lparr>ir_status := INTEGRITY_OK\<rparr>))
                              else (1, Some (r2\<lparr>ir_status := INTEGRITY_MODIFIED\<rparr>)))))
      | _ \<Rightarrow> (-1, result))"

definition integrity_update_file :: "path \<Rightarrow> int" where
  "integrity_update_file p = -1"

section \<open>The monitor\<close>

text \<open>
  What a \<open>read\<close> of the inotify descriptor gives: an interruption, another error, or events,
  each with its mask and name (a name of length 0 is an event on the directory itself).
\<close>

datatype inotify_read = ReadEintr | ReadError | ReadEvents "(u32 \<times> string) list"

definition IN_MODIFY :: u32 where "IN_MODIFY = 0x2"
definition IN_CREATE :: u32 where "IN_CREATE = 0x100"
definition IN_DELETE :: u32 where "IN_DELETE = 0x200"

unbundle bit_operations_syntax

definition event_status :: "u32 \<Rightarrow> integrity_status" where
  "event_status msk =
     (if msk AND IN_DELETE \<noteq> 0 then INTEGRITY_MISSING
      else if msk AND (IN_MODIFY OR IN_CREATE) \<noteq> 0 then INTEGRITY_MODIFIED
      else INTEGRITY_MODIFIED)"

definition monitor_events :: "(u32 \<times> string) list \<Rightarrow> (string \<times> integrity_status) list" where
  "monitor_events evs = map (\<lambda>(msk, name). (name, event_status msk)) (filter (\<lambda>(msk, name). length name > 0) evs)"

text \<open>The calls of the callback, for the reads made until a signal or an error ends the loop.\<close>

fun integrity_monitor_daemon :: "bool \<Rightarrow> inotify_read list \<Rightarrow> (string \<times> integrity_status) list" where
  "integrity_monitor_daemon False rs = []"
| "integrity_monitor_daemon True [] = []"
| "integrity_monitor_daemon True (ReadEintr # rs) = integrity_monitor_daemon True rs"
| "integrity_monitor_daemon True (ReadError # rs) = []"
| "integrity_monitor_daemon True (ReadEvents evs # rs) = monitor_events evs @ integrity_monitor_daemon True rs"

section \<open>The command line tool\<close>

definition status_str :: "integrity_status \<Rightarrow> string" where
  "status_str s =
     (case s of INTEGRITY_MODIFIED \<Rightarrow> ''MODIFIED'' | INTEGRITY_MISSING \<Rightarrow> ''MISSING''
      | INTEGRITY_NEW \<Rightarrow> ''NEW'' | _ \<Rightarrow> ''ERROR'')"

text \<open>The exit status and the report (the lines printed for each issue) of \<open>--check\<close>.\<close>

definition integrity_check_main ::
  "'g int_env \<Rightarrow> bool \<Rightarrow> integrity_result list \<Rightarrow> fs \<Rightarrow> int \<times> (string \<times> string) list" where
  "integrity_check_main v fopen_ok results files =
     (case integrity_check_all v fopen_ok results files of
        (mismatches, results', count) \<Rightarrow>
          if mismatches = 0 then (0, [])
          else (1, map (\<lambda>r. (status_str (ir_status r), ir_path r)) (take count results')))"

section \<open>The database as a list of entries\<close>

definition db_line :: "sodium \<Rightarrow> bytes \<times> path \<Rightarrow> string" where
  "db_line S e = s_bin2hex S (fst e) @ ''  '' @ snd e @ [CHR 0x0A]"

definition good_path :: "path \<Rightarrow> bool" where
  "good_path p \<longleftrightarrow> p \<noteq> [] \<and> length p \<le> 511 \<and> (\<forall>c \<in> set p. \<not> isspace c \<and> c \<noteq> CHR 0x00)"

lemma hex_chars_plain:
  "c \<in> set ''0123456789abcdef'' \<Longrightarrow> \<not> isspace c \<and> c \<noteq> CHR 0x00 \<and> c \<noteq> CHR 0x0A \<and> c \<noteq> CHR ''#''"
  by (auto simp: isspace_def)

lemma hex_plain:
  assumes "hex_correct S" "length h = 32"
  shows "length (s_bin2hex S h) = 64" "s_bin2hex S h \<noteq> []" "s_hex2bin S 32 (s_bin2hex S h) = Some h"
    "\<forall>c \<in> set (s_bin2hex S h). \<not> isspace c \<and> c \<noteq> CHR 0x00 \<and> c \<noteq> CHR 0x0A \<and> c \<noteq> CHR ''#''"
proof -
  from assms show l: "length (s_bin2hex S h) = 64" and "s_hex2bin S 32 (s_bin2hex S h) = Some h"
    by (simp_all add: hex_correct_def)
  then show "s_bin2hex S h \<noteq> []" by auto
  from assms have "set (s_bin2hex S h) \<subseteq> set ''0123456789abcdef''" by (simp add: hex_correct_def)
  then show "\<forall>c \<in> set (s_bin2hex S h). \<not> isspace c \<and> c \<noteq> CHR 0x00 \<and> c \<noteq> CHR 0x0A \<and> c \<noteq> CHR ''#''"
    using hex_chars_plain by blast
qed

lemma isspace_consts [simp]: "isspace CHR '' ''" "isspace CHR 0x0A" "\<not> isspace CHR ''#''"
  by (simp_all add: isspace_def)

lemma scan_token_word:
  assumes "w \<noteq> []" "length w \<le> n" "\<forall>c \<in> set w. \<not> isspace c" "\<forall>c \<in> set sp. isspace c" "isspace c"
  shows "scan_token n (sp @ w @ c # rest) = Some (w, c # rest)"
proof -
  have "dropWhile isspace (sp @ w @ c # rest) = w @ c # rest"
    using assms(1,3,4) by (cases w) (auto simp: dropWhile_append2)
  moreover have "takeWhile (\<lambda>c. \<not> isspace c) (w @ c # rest) = w"
    using assms(3,5) by (simp add: takeWhile_append2)
  ultimately show ?thesis using assms(1,2) by (cases n) (simp_all add: scan_token_def)
qed

lemma sscanf_db_line:
  assumes "hex_correct S" "length h = 32" "good_path p"
  shows "sscanf_line (db_line S (h, p)) = Some (s_bin2hex S h, p)"
proof -
  have "scan_token 64 ([] @ s_bin2hex S h @ CHR '' '' # ('' '' @ p @ [CHR 0x0A])) =
      Some (s_bin2hex S h, CHR '' '' # ('' '' @ p @ [CHR 0x0A]))"
    by (rule scan_token_word) (use hex_plain [OF assms(1,2)] in auto)
  moreover have "scan_token 511 (''  '' @ p @ CHR 0x0A # []) = Some (p, CHR 0x0A # [])"
    by (rule scan_token_word) (use assms(3) in \<open>auto simp: good_path_def\<close>)
  ultimately show ?thesis by (simp add: sscanf_line_def db_line_def)
qed

lemma fgets_db_line:
  assumes "hex_correct S" "length h = 32" "good_path p"
  shows "fgets 1024 (db_line S (h, p) @ rest) = Some (db_line S (h, p), rest)"
    and "cstr (db_line S (h, p)) = db_line S (h, p)"
    and "hd (db_line S (h, p)) \<noteq> CHR ''#''" "hd (db_line S (h, p)) \<noteq> CHR 0x0A"
proof -
  note hex = hex_plain [OF assms(1,2)]
  have "line_split 1023 ((s_bin2hex S h @ ''  '' @ p) @ CHR 0x0A # rest) =
      ((s_bin2hex S h @ ''  '' @ p) @ [CHR 0x0A], rest)"
  proof (rule line_split_line)
    have "CHR 0x0A \<notin> set (s_bin2hex S h)" using hex(4) by blast
    moreover have "CHR 0x0A \<notin> set p" using assms(3) isspace_consts(2) unfolding good_path_def by blast
    ultimately show "CHR 0x0A \<notin> set (s_bin2hex S h @ ''  '' @ p)" by simp
    show "length (s_bin2hex S h @ ''  '' @ p) < 1023" using assms(3) hex(1) by (simp add: good_path_def)
  qed
  then show "fgets 1024 (db_line S (h, p) @ rest) = Some (db_line S (h, p), rest)"
    using hex(2) by (simp add: fgets_def db_line_def)
  show "cstr (db_line S (h, p)) = db_line S (h, p)"
    by (rule cstr_id) (use hex(4) assms(3) in \<open>auto simp: db_line_def good_path_def\<close>)
  have "hd (db_line S (h, p)) \<in> set (s_bin2hex S h)" using hex(2) by (simp add: db_line_def)
  with hex(4) show "hd (db_line S (h, p)) \<noteq> CHR ''#''" "hd (db_line S (h, p)) \<noteq> CHR 0x0A" by auto
qed

definition entry_status :: "'g int_env \<Rightarrow> fs \<Rightarrow> bytes \<times> path \<Rightarrow> integrity_status" where
  "entry_status v files e =
     (if files (snd e) = None then INTEGRITY_MISSING
      else case hash_path v files (snd e) of
             Inl _ \<Rightarrow> INTEGRITY_ERROR
           | Inr h \<Rightarrow> if fst e \<noteq> h then INTEGRITY_MODIFIED else INTEGRITY_OK)"

definition slots_ok :: "integrity_result list \<Rightarrow> bool" where
  "slots_ok results \<longleftrightarrow> (\<forall>r \<in> set results. length (ir_expected r) = INTEGRITY_HASH_LEN)"

text \<open>What one well-formed line does.\<close>

lemma check_line_entry:
  assumes "hex_correct (ie_sodium v)" "length h = 32" "good_path p" "count < length results" "slots_ok results"
  shows "\<exists>r. check_line v files (db_line (ie_sodium v) (h, p)) (results, count, mm) =
      (results[count := r],
       if entry_status v files (h, p) = INTEGRITY_OK then count else Suc count,
       if entry_status v files (h, p) \<in> {INTEGRITY_MISSING, INTEGRITY_MODIFIED} then Suc mm else mm) \<and>
    ir_path r = p \<and> ir_status r = entry_status v files (h, p) \<and> length (ir_expected r) = 32"
proof -
  have len: "length (ir_expected (results ! count)) = 32" using assms(4,5) by (simp add: slots_ok_def)
  have bin: "hex2bin_into (ie_sodium v) (s_bin2hex (ie_sodium v) h)
      (ir_expected ((results ! count)\<lparr>ir_path := strncpy_buf 512 p\<rparr>)) = Some h"
    using hex_plain [OF assms(1,2)] len assms(2) by (simp add: hex2bin_into_def)
  have path: "strncpy_buf 512 p = p" using assms(3) by (simp add: good_path_def)
  show ?thesis
    using fgets_db_line(3,4) [OF assms(1-3)] bin assms(2)
    by (cases "files p"; cases "hash_path v files p")
      (auto simp: check_line_def sscanf_db_line [OF assms(1-3)] entry_status_def path Let_def)
qed

text \<open>The discrepancies of a list of entries, in order, and how many of them are counted.\<close>

definition issues :: "'g int_env \<Rightarrow> fs \<Rightarrow> (bytes \<times> path) list \<Rightarrow> (path \<times> integrity_status) list" where
  "issues v files es =
     filter (\<lambda>i. snd i \<noteq> INTEGRITY_OK) (map (\<lambda>e. (snd e, entry_status v files e)) es)"

definition counted :: "(path \<times> integrity_status) list \<Rightarrow> nat" where
  "counted is = length (filter (\<lambda>i. snd i \<in> {INTEGRITY_MISSING, INTEGRITY_MODIFIED}) is)"

lemma issues_simps:
  "issues v files [] = []"
  "issues v files (e # es) =
     (if entry_status v files e = INTEGRITY_OK then [] else [(snd e, entry_status v files e)]) @ issues v files es"
  by (simp_all add: issues_def)

lemma length_issues: "length (issues v files es) \<le> length es"
  by (simp add: issues_def order_trans [OF length_filter_le])

definition db_entries :: "sodium \<Rightarrow> (bytes \<times> path) list \<Rightarrow> bool" where
  "db_entries S es \<longleftrightarrow> hex_correct S \<and> (\<forall>e \<in> set es. length (fst e) = INTEGRITY_HASH_LEN \<and> good_path (snd e))"

lemma check_loop_entries:
  "db_entries (ie_sodium v) es \<Longrightarrow> slots_ok results \<Longrightarrow> count \<le> length results \<Longrightarrow>
   \<exists>results'. check_loop v files (length results) (concat (map (db_line (ie_sodium v)) es)) (results, count, mm) =
       (results', count + length (take (length results - count) (issues v files es)),
        mm + counted (take (length results - count) (issues v files es))) \<and>
     length results' = length results \<and>
     map (\<lambda>r. (ir_path r, ir_status r))
       (take (count + length (take (length results - count) (issues v files es))) results') =
       map (\<lambda>r. (ir_path r, ir_status r)) (take count results) @
       take (length results - count) (issues v files es)"
proof (induction es arbitrary: results count mm)
  case Nil
  then show ?case by (subst check_loop.simps) (simp add: fgets_def issues_simps counted_def)
next
  case (Cons e es)
  obtain h p where e: "e = (h, p)" by (cases e)
  have wf: "hex_correct (ie_sodium v)" "length h = 32" "good_path p"
    using Cons.prems by (auto simp: db_entries_def e)
  show ?case
  proof (cases "count < length results")
    case False
    then show ?thesis
      using Cons.prems(3) fgets_db_line(1) [OF wf]
      by (subst check_loop.simps) (simp add: e counted_def)
  next
    case True
  note hyp = wf True
  from check_line_entry [OF hyp Cons.prems(2), of files mm] obtain r where
    r: "check_line v files (db_line (ie_sodium v) e) (results, count, mm) =
      (results[count := r],
       if entry_status v files e = INTEGRITY_OK then count else Suc count,
       if entry_status v files e \<in> {INTEGRITY_MISSING, INTEGRITY_MODIFIED} then Suc mm else mm)"
    and r_path: "ir_path r = p" "ir_status r = entry_status v files e" "length (ir_expected r) = 32"
    by (auto simp: e)
  define count' where "count' = (if entry_status v files e = INTEGRITY_OK then count else Suc count)"
  define mm' where "mm' = (if entry_status v files e \<in> {INTEGRITY_MISSING, INTEGRITY_MODIFIED} then Suc mm else mm)"
  have slots: "slots_ok (results[count := r])"
    using Cons.prems(2) r_path(3) set_update_subset_insert [of results count r] by (auto simp: slots_ok_def)
  have step: "check_loop v files (length results) (concat (map (db_line (ie_sodium v)) (e # es))) (results, count, mm) =
      check_loop v files (length results) (concat (map (db_line (ie_sodium v)) es)) (results[count := r], count', mm')"
    using fgets_db_line(1,2) [OF hyp(1-3)] hyp(4) r
    by (subst check_loop.simps) (simp add: e count'_def mm'_def)
  have "db_entries (ie_sodium v) es" "count' \<le> length (results[count := r])"
    using Cons.prems True by (auto simp: db_entries_def count'_def)
  from Cons.IH [OF this(1) slots this(2), of mm'] obtain results' where
    IH: "check_loop v files (length results) (concat (map (db_line (ie_sodium v)) es)) (results[count := r], count', mm') =
        (results', count' + length (take (length results - count') (issues v files es)),
         mm' + counted (take (length results - count') (issues v files es)))"
      "length results' = length results"
      "map (\<lambda>r. (ir_path r, ir_status r))
         (take (count' + length (take (length results - count') (issues v files es))) results') =
        map (\<lambda>r. (ir_path r, ir_status r)) (take count' (results[count := r])) @
        take (length results - count') (issues v files es)"
    by auto
  have "map (\<lambda>r. (ir_path r, ir_status r)) (take count' (results[count := r])) =
      map (\<lambda>r. (ir_path r, ir_status r)) (take count results) @
      (if entry_status v files e = INTEGRITY_OK then [] else [(snd e, entry_status v files e)])"
    using hyp(4) r_path by (simp add: count'_def e take_Suc_conv_app_nth)
  moreover have "take (length results - count) (issues v files (e # es)) =
      (if entry_status v files e = INTEGRITY_OK then [] else [(snd e, entry_status v files e)]) @
      take (length results - count') (issues v files es)"
    using True by (auto simp: issues_simps count'_def Suc_diff_Suc [symmetric])
  ultimately show ?thesis
    using IH step by (intro exI [of _ results']) (auto simp: counted_def count'_def mm'_def)
  qed
qed

lemma check_loop_full: "check_loop v files 0 db acc = acc"
  by (subst check_loop.simps) (auto split: option.splits)

lemma check_loop_header:
  "check_loop v files mx (db_header @ rest) (results, 0, mm) = check_loop v files mx rest (results, 0, mm)"
proof (cases "mx = 0")
  case True
  then show ?thesis by (simp add: check_loop_full)
next
  case False
  then have mx: "0 < mx" by simp
  let ?l1 = "''# SecureZ+ Integrity Database''" and ?l2 = "''# Format: blake2b_hash  filepath''"
  have f: "fgets 1024 (?l1 @ CHR 0x0A # t) = Some (?l1 @ [CHR 0x0A], t)"
    "fgets 1024 (?l2 @ CHR 0x0A # t) = Some (?l2 @ [CHR 0x0A], t)" for t
    using line_split_line [of ?l1 1023 t] line_split_line [of ?l2 1023 t] by (simp_all add: fgets_def)
  have skip: "check_line v files (cstr (?l1 @ [CHR 0x0A])) acc = acc" "check_line v files (cstr (?l2 @ [CHR 0x0A])) acc = acc" for acc
    by (auto simp: check_line_def cstr_def split: prod.splits)
  have "check_loop v files mx (?l1 @ CHR 0x0A # ?l2 @ CHR 0x0A # rest) (results, 0, mm) =
      check_loop v files mx (?l2 @ CHR 0x0A # rest) (results, 0, mm)"
    using mx by (subst check_loop.simps) (simp only: f skip option.case prod.case fst_conv snd_conv if_True)
  also have "\<dots> = check_loop v files mx rest (results, 0, mm)"
    using mx by (subst check_loop.simps) (simp only: f skip option.case prod.case fst_conv snd_conv if_True)
  finally show ?thesis by (simp add: db_header_def)
qed

section \<open>What a check reports\<close>

lemma check_all_entries:
  assumes "files INTEGRITY_DB_PATH = Some (to_bytes (db_header @ concat (map (db_line (ie_sodium v)) es)))"
    and "db_entries (ie_sodium v) es" "slots_ok results"
  defines "reported \<equiv> take (length results) (issues v files es)"
  shows "\<exists>results'. integrity_check_all v True results files =
      (int (counted reported), results', length reported) \<and>
    map (\<lambda>r. (ir_path r, ir_status r)) (take (length reported) results') = reported"
proof -
  from check_loop_entries [OF assms(2,3), of 0 files 0] obtain results' where
    "check_loop v files (length results) (concat (map (db_line (ie_sodium v)) es)) (results, 0, 0) =
       (results', length reported, counted reported)"
    "map (\<lambda>r. (ir_path r, ir_status r)) (take (length reported) results') = reported"
    unfolding reported_def by auto
  then show ?thesis
    using assms(1) by (simp add: integrity_check_all_def check_loop_header del: to_bytes_append)
qed

text \<open>
  C24: against a database of well-formed entries, \<open>integrity_check_all\<close> reports exactly the
  entries whose file is missing, cannot be hashed or has another hash, in the order of the
  database, each with its path and status, and returns the number of missing and modified
  ones among them. It stops when the array of the caller is full: what is reported are the
  first discrepancies, as many as the array has slots.
\<close>

theorem integrity_check_exact:
  assumes "files INTEGRITY_DB_PATH = Some (to_bytes (db_header @ concat (map (db_line (ie_sodium v)) es)))"
    and "db_entries (ie_sodium v) es" "slots_ok results"
  defines "reported \<equiv> take (length results) (issues v files es)"
  shows "\<exists>results'. integrity_check_all v True results files =
      (int (counted reported), results', length reported) \<and>
    map (\<lambda>r. (ir_path r, ir_status r)) (take (length reported) results') = reported"
  unfolding reported_def by (rule check_all_entries [of files v es results, OF assms(1-3)])

lemma counted_zero:
  "counted is = 0 \<longleftrightarrow> (\<forall>i \<in> set is. snd i \<notin> {INTEGRITY_MISSING, INTEGRITY_MODIFIED})"
  by (auto simp: counted_def filter_empty_conv)

lemma entry_status_range:
  "entry_status v files e \<in> {INTEGRITY_OK, INTEGRITY_MISSING, INTEGRITY_MODIFIED, INTEGRITY_ERROR}"
  by (auto simp: entry_status_def split: sum.splits if_splits)

lemma issues_status:
  "i \<in> set (issues v files es) \<Longrightarrow> snd i \<in> {INTEGRITY_MISSING, INTEGRITY_MODIFIED, INTEGRITY_ERROR}"
  using entry_status_range [of v files] by (fastforce simp: issues_def)

text \<open>
  C40: the verdict of \<open>--check\<close>. It exits with 0 and an empty report exactly if every reported
  discrepancy is a file that cannot be read: "all files verified" is also said when none of
  them could be read. As long as the discrepancies fit in the array, this is the case exactly
  if no file of the database is missing or modified; beyond that, unreadable files that fill
  the array hide modified ones that come later in the database.
\<close>

theorem integrity_check_verdict:
  assumes "files INTEGRITY_DB_PATH = Some (to_bytes (db_header @ concat (map (db_line (ie_sodium v)) es)))"
    and "db_entries (ie_sodium v) es" "slots_ok results"
  shows "(integrity_check_main v True results files = (0, []) \<longleftrightarrow>
      (\<forall>i \<in> set (take (length results) (issues v files es)). snd i = INTEGRITY_ERROR)) \<and>
    (integrity_check_main v True results files = (0, []) \<longleftrightarrow> fst (integrity_check_main v True results files) = 0) \<and>
    (length (issues v files es) \<le> length results \<longrightarrow>
      (integrity_check_main v True results files = (0, []) \<longleftrightarrow>
       (\<forall>e \<in> set es. entry_status v files e \<in> {INTEGRITY_OK, INTEGRITY_ERROR})))"
proof -
  let ?R = "take (length results) (issues v files es)"
  from check_all_entries [of files v es results, OF assms] obtain results' where
    r: "integrity_check_all v True results files = (int (counted ?R), results', length ?R)" by blast
  have main: "integrity_check_main v True results files = (0, []) \<longleftrightarrow> counted ?R = 0"
    "fst (integrity_check_main v True results files) = 0 \<longleftrightarrow> counted ?R = 0"
    by (auto simp: integrity_check_main_def r)
  have zero: "counted ?R = 0 \<longleftrightarrow> (\<forall>i \<in> set ?R. snd i = INTEGRITY_ERROR)"
    using issues_status [of _ v files es] by (fastforce simp: counted_zero dest: in_set_takeD)
  have all: "(\<forall>i \<in> set (issues v files es). snd i = INTEGRITY_ERROR) \<longleftrightarrow>
      (\<forall>e \<in> set es. entry_status v files e \<in> {INTEGRITY_OK, INTEGRITY_ERROR})"
    by (auto simp: issues_def)
  show ?thesis using main zero all by simp
qed

section \<open>Building, then checking\<close>

lemma hash_and_store_line:
  "hash_and_store v files p = Inr l \<Longrightarrow> \<exists>h. hash_path v files p = Inr h \<and> l = db_line (ie_sodium v) (h, p)"
  by (auto simp: hash_and_store_def db_line_def crypto_bin_to_hex_def split: sum.splits)

lemma hash_path_ok:
  assumes "hash_path v files p = Inr h"
  shows "files p \<noteq> None" "gh_sized (ie_gh v) \<Longrightarrow> length h = INTEGRITY_HASH_LEN"
  using assms
  by (auto simp: hash_path_def crypto_hash_file_def gh_sized_def split: option.splits if_splits)

lemma hash_path_cong: "f p = g p \<Longrightarrow> hash_path v f p = hash_path v g p"
  by (simp add: hash_path_def crypto_hash_file_def)

definition scanned :: "'g int_env \<Rightarrow> fs \<Rightarrow> string \<times> nat \<Rightarrow> string \<times> nat \<Rightarrow> bool" where
  "scanned v files acc acc' \<longleftrightarrow>
     (\<exists>es. fst acc' = fst acc @ concat (map (db_line (ie_sodium v)) es) \<and> snd acc' = snd acc + length es \<and>
        (\<forall>e \<in> set es. hash_path v files (snd e) = Inr (fst e) \<and> ie_kind v (snd e) = Some KReg))"

lemma scanned_refl: "scanned v files acc acc"
  by (auto simp: scanned_def intro: exI [of _ "[]"])

lemma scanned_trans: "scanned v files a b \<Longrightarrow> scanned v files b c \<Longrightarrow> scanned v files a c"
proof -
  assume "scanned v files a b" "scanned v files b c"
  then obtain es fs where "fst b = fst a @ concat (map (db_line (ie_sodium v)) es)" "snd b = snd a + length es"
    "\<forall>e \<in> set es. hash_path v files (snd e) = Inr (fst e) \<and> ie_kind v (snd e) = Some KReg"
    "fst c = fst b @ concat (map (db_line (ie_sodium v)) fs)" "snd c = snd b + length fs"
    "\<forall>e \<in> set fs. hash_path v files (snd e) = Inr (fst e) \<and> ie_kind v (snd e) = Some KReg"
    unfolding scanned_def by blast
  then show ?thesis unfolding scanned_def by (intro exI [of _ "es @ fs"]) auto
qed

lemma scanned_line:
  "hash_and_store v files p = Inr l \<Longrightarrow> ie_kind v p = Some KReg \<Longrightarrow> scanned v files acc (fst acc @ l, Suc (snd acc))"
proof -
  assume "hash_and_store v files p = Inr l" and kind: "ie_kind v p = Some KReg"
  then obtain h where "hash_path v files p = Inr h" "l = db_line (ie_sodium v) (h, p)"
    using hash_and_store_line by blast
  with kind show ?thesis unfolding scanned_def by (intro exI [of _ "[(h, p)]"]) simp
qed

lemma scan_scanned:
  "scan_directory_recursive n v files dir acc = Some acc' \<Longrightarrow> scanned v files acc acc'"
  "scan_entries n v files dir es acc = Some acc' \<Longrightarrow> scanned v files acc acc'"
proof (induction n v files dir acc and n v files dir es acc arbitrary: acc' and acc'
    rule: scan_directory_recursive_scan_entries.induct)
  case (4 n v files dir e es acc)
  let ?full = "snprintf_buf 512 (dir @ ''/'' @ e)"
  show ?case
  proof (cases "e = ''.'' \<or> e = ''..''")
    case True
    then show ?thesis using "4.IH"(1) "4.prems" by simp
  next
    case False
    consider "ie_kind v ?full \<in> {None, Some KOther}" | "ie_kind v ?full = Some KDir" | "ie_kind v ?full = Some KReg"
      by (cases "ie_kind v ?full"; cases "the (ie_kind v ?full)") auto
    then show ?thesis
    proof cases
      case 1
      then have "scan_entries n v files dir es acc = Some acc'" using "4.prems" False by (auto simp: Let_def)
      then show ?thesis using "4.IH"(2,7) False 1 by (cases acc') auto
    next
      case 2
      then obtain a where a: "scan_directory_recursive n v files ?full acc = Some a"
        "scan_entries n v files dir es a = Some acc'"
        using "4.prems" False by (auto simp: Let_def split: option.splits)
      then show ?thesis using "4.IH"(3,4) False 2 by (blast intro: scanned_trans)
    next
      case 3
      show ?thesis
      proof (cases "hash_and_store v files ?full")
        case (Inl x)
        then show ?thesis using "4.IH"(5) "4.prems" False 3 by (auto simp: Let_def)
      next
        case (Inr l)
        then have "scanned v files (fst acc @ l, Suc (snd acc)) acc'"
          using "4.IH"(6) "4.prems" False 3 by (auto simp: Let_def)
        then show ?thesis using scanned_line [OF Inr 3] scanned_trans by blast
      qed
    qed
  qed
qed (auto simp: scanned_refl split: option.splits)

lemma scan_all_scanned: "scan_all n v files ds acc = Some acc' \<Longrightarrow> scanned v files acc acc'"
proof (induction ds arbitrary: acc)
  case (Cons d ds)
  then obtain a where "scan_directory_recursive n v files d acc = Some a" "scan_all n v files ds a = Some acc'"
    by (auto split: option.splits)
  then show ?case using scan_scanned(1) Cons.IH scanned_trans by blast
qed (simp add: scanned_refl)

lemma check_unchanged:
  assumes "integrity_init_database n v True files = Some (Inr (), files')"
    and "hex_correct (ie_sodium v)" "gh_sized (ie_gh v)"
    and "\<forall>p. ie_kind v p = Some KReg \<longrightarrow> good_path p \<and> p \<noteq> INTEGRITY_DB_PATH"
  shows "\<forall>results. slots_ok results \<longrightarrow>
    (\<exists>results'. integrity_check_all v True results files' = (0, results', 0))"
proof -
  from assms(1) obtain db cnt where "scan_all n v files watched_dirs (db_header, 0) = Some (db, cnt)"
    and files': "files' = files(INTEGRITY_DB_PATH \<mapsto> to_bytes db)"
    by (auto simp: integrity_init_database_def split: option.splits)
  from scan_all_scanned [OF this(1)] obtain es where
    db: "db = db_header @ concat (map (db_line (ie_sodium v)) es)"
    and es: "\<forall>e \<in> set es. hash_path v files (snd e) = Inr (fst e) \<and> ie_kind v (snd e) = Some KReg"
    by (auto simp: scanned_def)
  have "length (fst e) = 32" if "e \<in> set es" for e
    using es that assms(3) hash_path_ok(2) by blast
  then have wf: "db_entries (ie_sodium v) es"
    using es assms(2,4) by (auto simp: db_entries_def)
  have "entry_status v files' e = INTEGRITY_OK" if "e \<in> set es" for e
  proof -
    have "files' (snd e) = files (snd e)" using es assms(4) that by (auto simp: files')
    moreover have h: "hash_path v files (snd e) = Inr (fst e)" using es that by blast
    ultimately have "hash_path v files' (snd e) = Inr (fst e)" "files' (snd e) \<noteq> None"
      using hash_path_cong [of files' "snd e" files v] hash_path_ok(1) [OF h] by auto
    then show ?thesis by (simp add: entry_status_def)
  qed
  then have "issues v files' es = []" by (auto simp: issues_def)
  moreover have "files' INTEGRITY_DB_PATH = Some (to_bytes (db_header @ concat (map (db_line (ie_sodium v)) es)))"
    by (simp add: files' db)
  ultimately have "\<exists>results'. integrity_check_all v True results files' = (0, results', 0)"
    if "slots_ok results" for results
    using check_all_entries [of files' v es results] wf that by (auto simp: counted_def)
  then show ?thesis by blast
qed

text \<open>
  A system that has not changed since \<open>integrity_init_database\<close> passes the check: no issue is
  reported and \<open>integrity_check_all\<close> returns 0, provided the paths of the hashed files have no
  white space (the check reads a path up to the first one) and are not the database itself.
\<close>

theorem integrity_init_then_check:
  assumes "integrity_init_database n v True files = Some (Inr (), files')"
    and "hex_correct (ie_sodium v)" "gh_sized (ie_gh v)"
    and "\<forall>p. ie_kind v p = Some KReg \<longrightarrow> good_path p \<and> p \<noteq> INTEGRITY_DB_PATH"
  shows "\<forall>results. slots_ok results \<longrightarrow>
    (\<exists>results'. integrity_check_all v True results files' = (0, results', 0))"
  by (rule check_unchanged [OF assms])

section \<open>Does the scan end?\<close>

lemma scan_terminates_from:
  assumes cut: "\<And>d es e. ie_entries v d = Some es \<Longrightarrow> e \<in> set es \<Longrightarrow> e \<noteq> ''.'' \<Longrightarrow> e \<noteq> ''..'' \<Longrightarrow>
      ie_kind v (snprintf_buf 512 (d @ ''/'' @ e)) = Some KDir \<Longrightarrow> length (d @ ''/'' @ e) < 512"
  shows "512 \<le> n + length dir \<Longrightarrow> \<exists>r. scan_directory_recursive (Suc n) v files dir acc = Some r"
proof (induction n arbitrary: dir acc)
  have entries: "\<exists>r. scan_entries n v files dir es acc = Some r"
    if "\<And>e acc. e \<in> set es \<Longrightarrow> e \<noteq> ''.'' \<Longrightarrow> e \<noteq> ''..'' \<Longrightarrow>
        ie_kind v (snprintf_buf 512 (dir @ ''/'' @ e)) = Some KDir \<Longrightarrow>
        \<exists>r. scan_directory_recursive n v files (snprintf_buf 512 (dir @ ''/'' @ e)) acc = Some r" for n dir es acc
    using that
  proof (induction es arbitrary: acc)
    case (Cons e es)
    have rest: "\<exists>r. scan_entries n v files dir es acc = Some r" for acc
      by (rule Cons.IH) (use Cons.prems in auto)
    have "e \<noteq> ''.'' \<longrightarrow> e \<noteq> ''..'' \<longrightarrow> ie_kind v (snprintf_buf 512 (dir @ ''/'' @ e)) = Some KDir \<longrightarrow>
        (\<exists>r. scan_directory_recursive n v files (snprintf_buf 512 (dir @ ''/'' @ e)) acc = Some r)"
      using Cons.prems by simp
    with rest show ?case
      by (auto simp: Let_def split: option.splits file_kind.splits sum.splits)
  qed simp
  {
    case 0
    then have long: "512 \<le> length dir" by simp
    show ?case
    proof (cases "ie_entries v dir")
      case (Some es)
      then have "\<exists>r. scan_entries 0 v files dir es acc = Some r"
        by (intro entries) (use cut long in force)
      then show ?thesis using Some by simp
    qed simp
  next
    case (Suc n)
    show ?case
    proof (cases "ie_entries v dir")
      case (Some es)
      have "\<exists>r. scan_entries (Suc n) v files dir es acc = Some r"
      proof (rule entries)
        fix e acc
        assume e: "e \<in> set es" "e \<noteq> ''.''" "e \<noteq> ''..''"
          "ie_kind v (snprintf_buf 512 (dir @ ''/'' @ e)) = Some KDir"
        have "length (dir @ ''/'' @ e) < 512" by (rule cut [OF Some e])
        then have "snprintf_buf 512 (dir @ ''/'' @ e) = dir @ ''/'' @ e" by simp
        then show "\<exists>r. scan_directory_recursive (Suc n) v files (snprintf_buf 512 (dir @ ''/'' @ e)) acc = Some r"
          using Suc.IH [of "dir @ ''/'' @ e" acc] Suc.prems by simp
      qed
      then show ?thesis using Some by simp
    qed simp
  }
qed

lemma scan_diverges:
  assumes "length dir = 511" "ie_entries v dir = Some (e # es)" "e \<noteq> ''.''" "e \<noteq> ''..''" "ie_kind v dir = Some KDir"
  shows "scan_directory_recursive n v files dir acc = None"
proof (induction n arbitrary: acc)
  case (Suc n)
  have "snprintf_buf 512 (dir @ ''/'' @ e) = dir" using assms(1) by (simp add: snprintf_buf_def)
  with Suc assms show ?case by (cases n) (simp_all add: Let_def)
qed simp


section \<open>Examples\<close>

definition int_env0 :: "bytes int_env" where
  "int_env0 = \<lparr>ie_sodium = sodium_example, ie_gh = gh_example, ie_open = (\<lambda>p. p \<noteq> ''/etc/shadow''),
     ie_err = (\<lambda>p. None),
     ie_entries = (\<lambda>d. if d = ''/bin'' then Some [''.'', ''..'', ''ls''] else None),
     ie_kind = (\<lambda>p. if p = ''/bin/ls'' then Some KReg else None)\<rparr>"

definition slot0 :: integrity_result where
  "slot0 = \<lparr>ir_path = [], ir_expected = replicate 32 0, ir_actual = replicate 32 0, ir_status = INTEGRITY_OK\<rparr>"

definition db_files0 :: "(bytes \<times> path) list \<Rightarrow> fs" where
  "db_files0 es = [''/bin/ls'' \<mapsto> [1, 2], ''/etc/shadow'' \<mapsto> [4],
     INTEGRITY_DB_PATH \<mapsto> to_bytes (db_header @ concat (map (db_line sodium_example) es))]"

definition entries0 :: "(bytes \<times> path) list" where
  "entries0 = [(pad_to 32 [9], ''/bin/ls''), (pad_to 32 [1], ''/bin/rm''), (pad_to 32 [4], ''/etc/shadow'')]"

lemma db_path_neq [simp]: "INTEGRITY_DB_PATH \<noteq> ''/bin/ls''" "''/bin/ls'' \<noteq> INTEGRITY_DB_PATH"
  "''/bin/rm'' \<noteq> INTEGRITY_DB_PATH" "''/etc/shadow'' \<noteq> INTEGRITY_DB_PATH" "INTEGRITY_DB_PATH \<noteq> ''/etc/shadow''"
  by (simp_all add: INTEGRITY_DB_PATH_def)

lemma env0_facts [simp]: "ie_sodium int_env0 = sodium_example" "ie_gh int_env0 = gh_example"
  by (simp_all add: int_env0_def)

lemma good_paths0: "good_path ''/bin/ls''" "good_path ''/bin/rm''" "good_path ''/etc/shadow''"
  by (simp_all add: good_path_def isspace_def)

lemma entries0_ok: "db_entries sodium_example entries0" "slots_ok (replicate n slot0)"
  by (simp_all add: db_entries_def entries0_def sodium_example_hex good_paths0 slots_ok_def slot0_def)

lemma db_files0_db:
  "db_files0 es INTEGRITY_DB_PATH = Some (to_bytes (db_header @ concat (map (db_line (ie_sodium int_env0)) es)))"
  by (simp add: db_files0_def)

lemma status0:
  "entry_status int_env0 (db_files0 es) (h, ''/bin/ls'') = (if h = pad_to 32 [1, 2] then INTEGRITY_OK else INTEGRITY_MODIFIED)"
  "entry_status int_env0 (db_files0 es) (h, ''/bin/rm'') = INTEGRITY_MISSING"
  "entry_status int_env0 (db_files0 es) (h, ''/etc/shadow'') = INTEGRITY_ERROR"
proof -
  have "hash_path int_env0 (db_files0 es) ''/bin/ls'' = Inr (pad_to 32 [1, 2])"
    using hash_file_example [of "db_files0 es" "''/bin/ls''" "[1, 2]"]
    by (simp add: hash_path_def int_env0_def db_files0_def)
  then show "entry_status int_env0 (db_files0 es) (h, ''/bin/ls'') = (if h = pad_to 32 [1, 2] then INTEGRITY_OK else INTEGRITY_MODIFIED)"
    by (simp add: entry_status_def db_files0_def)
  show "entry_status int_env0 (db_files0 es) (h, ''/bin/rm'') = INTEGRITY_MISSING"
    by (simp add: entry_status_def db_files0_def)
  have "hash_path int_env0 (db_files0 es) ''/etc/shadow'' = Inl EOpen"
    by (simp add: hash_path_def int_env0_def crypto_hash_file_def)
  then show "entry_status int_env0 (db_files0 es) (h, ''/etc/shadow'') = INTEGRITY_ERROR"
    by (simp add: entry_status_def db_files0_def)
qed

lemma pad_neq: "pad_to 32 [9] \<noteq> pad_to 32 [1, 2]"
  by (simp add: pad_to_def)

theorem integrity_check_exact_witness:
  "\<exists>results'. integrity_check_all int_env0 True (replicate 4 slot0) (db_files0 entries0) = (2, results', 3) \<and>
     map (\<lambda>r. (ir_path r, ir_status r)) (take 3 results') =
     [(''/bin/ls'', INTEGRITY_MODIFIED), (''/bin/rm'', INTEGRITY_MISSING), (''/etc/shadow'', INTEGRITY_ERROR)]"
proof -
  have i: "issues int_env0 (db_files0 entries0) entries0 =
     [(''/bin/ls'', INTEGRITY_MODIFIED), (''/bin/rm'', INTEGRITY_MISSING), (''/etc/shadow'', INTEGRITY_ERROR)]"
    by (subst (2) entries0_def) (simp add: issues_simps status0 pad_neq)
  from integrity_check_exact [of "db_files0 entries0" int_env0 entries0 "replicate 4 slot0",
      OF db_files0_db _ entries0_ok(2)] entries0_ok(1)
  show ?thesis by (simp add: i counted_def eval_nat_numeral)
qed

theorem integrity_check_verdict_witness:
  "integrity_check_main int_env0 True [slot0]
     (db_files0 [(pad_to 32 [0], ''/etc/shadow''), (pad_to 32 [9], ''/bin/ls'')]) = (0, [])"
proof -
  let ?es = "[(pad_to 32 [0], ''/etc/shadow''), (pad_to 32 [9], ''/bin/ls'')]"
  have "db_entries (ie_sodium int_env0) ?es"
    by (simp add: db_entries_def sodium_example_hex good_paths0)
  moreover have "slots_ok [slot0]" using entries0_ok(2) [of 1] by simp
  ultimately show ?thesis
    using integrity_check_verdict [of "db_files0 ?es" int_env0 ?es "[slot0]", OF db_files0_db]
    by (simp add: status0 issues_simps pad_neq)
qed

theorem integrity_init_then_check_witness:
  "\<exists>files'. integrity_init_database 2 int_env0 True [''/bin/ls'' \<mapsto> [1, 2]] = Some (Inr (), files') \<and>
    (\<forall>results. slots_ok results \<longrightarrow>
      (\<exists>results'. integrity_check_all int_env0 True results files' = (0, results', 0)))"
proof -
  let ?f = "[''/bin/ls'' \<mapsto> [1, 2]]"
  have "hash_and_store int_env0 ?f ''/bin/ls'' = Inr (db_line sodium_example (pad_to 32 [1, 2], ''/bin/ls''))"
    using hash_file_example [of ?f "''/bin/ls''" "[1, 2]"]
    by (simp add: hash_and_store_def hash_path_def db_line_def crypto_bin_to_hex_def int_env0_def)
  then have "scan_all (Suc (Suc 0)) int_env0 ?f watched_dirs (db_header, 0) =
      Some (db_header @ db_line sodium_example (pad_to 32 [1, 2], ''/bin/ls''), 1)"
    by (simp add: watched_dirs_def int_env0_def Let_def)
  then have init: "integrity_init_database 2 int_env0 True ?f =
      Some (Inr (), ?f(INTEGRITY_DB_PATH \<mapsto> to_bytes (db_header @ db_line sodium_example (pad_to 32 [1, 2], ''/bin/ls''))))"
    by (simp add: integrity_init_database_def numeral_2_eq_2)
  have "\<forall>p. ie_kind int_env0 p = Some KReg \<longrightarrow> good_path p \<and> p \<noteq> INTEGRITY_DB_PATH"
    using good_paths0 by (simp add: int_env0_def)
  with integrity_init_then_check [OF init] sodium_example_hex gh_example_sized init show ?thesis by auto
qed


end
