(* ===== verification/Integrity_Tool.thy ===== *)
theory Integrity_Tool
  imports Integrity
begin

text \<open>
  The program around the checker (\<open>signal_handler\<close>, \<open>integrity_monitor_daemon\<close> and \<open>main\<close> in
  \<open>crypticengine/src/integrity.c\<close>): what the monitor watches and writes to the system log, and
  the command line \<open>--init\<close>, \<open>--check\<close>, \<open>--daemon\<close>. The kernel's answers are arguments: whether
  \<open>inotify_init\<close> succeeds, which directories can be watched, what the reads of the descriptor
  give, and before which of them a signal arrives.
\<close>

section \<open>The monitor\<close>

definition IN_MOVED_FROM :: u32 where "IN_MOVED_FROM = 0x40"
definition IN_MOVED_TO :: u32 where "IN_MOVED_TO = 0x80"

definition watch_mask :: u32 where
  "watch_mask = IN_MODIFY OR IN_CREATE OR IN_DELETE OR IN_MOVED_FROM OR IN_MOVED_TO"

datatype tamper = Deleted | Modified | Moved

datatype log_entry =
    LogStarted
  | LogInitFailed
  | LogWatching path
  | LogCannotWatch path
  | LogTamper tamper string

definition event_kind :: "u32 \<Rightarrow> tamper" where
  "event_kind msk =
     (if msk AND IN_DELETE \<noteq> 0 then Deleted
      else if msk AND (IN_MODIFY OR IN_CREATE) \<noteq> 0 then Modified
      else Moved)"

definition log_events :: "(u32 \<times> string) list \<Rightarrow> log_entry list" where
  "log_events evs =
     map (\<lambda>(msk, name). LogTamper (event_kind msk) name) (filter (\<lambda>(msk, name). length name > 0) evs)"

text \<open>
  What one turn of the loop meets: a signal, whose handler clears \<open>running\<close> (the \<open>read\<close> it
  interrupts is restarted or fails, and the loop ends when the turn is over), or a \<open>read\<close>.
\<close>

record turn =
  tu_read :: inotify_read
  tu_signal :: bool

definition signal_handler :: "bool \<Rightarrow> bool" where
  "signal_handler running = False"

fun monitor_loop :: "bool \<Rightarrow> turn list \<Rightarrow> log_entry list" where
  "monitor_loop running [] = []"
| "monitor_loop running (t # ts) =
     (if \<not> running then []
      else
        let running' = (if tu_signal t then signal_handler running else running) in
        case tu_read t of
          ReadEintr \<Rightarrow> monitor_loop running' ts
        | ReadError \<Rightarrow> []
        | ReadEvents evs \<Rightarrow> log_events evs @ monitor_loop running' ts)"

text \<open>The messages of \<open>integrity_monitor_daemon\<close> with no callback, as \<open>main\<close> calls it.\<close>

definition monitor_daemon :: "bool \<Rightarrow> (path \<Rightarrow> bool) \<Rightarrow> turn list \<Rightarrow> log_entry list" where
  "monitor_daemon init_ok watch_ok ts =
     LogStarted #
     (if \<not> init_ok then [LogInitFailed]
      else map (\<lambda>d. if watch_ok d then LogWatching d else LogCannotWatch d) watched_dirs @
           monitor_loop True ts)"

section \<open>main\<close>

datatype tool_output =
    SodiumFailed
  | Usage string
  | InitResult "unit res"
  | AllVerified
  | Issues "(string \<times> string) list"
  | Monitored "log_entry list"
  | UnknownOption string

record 'g tool_env =
  te_int :: "'g int_env"
  te_sodium_ok :: bool
  te_fopen_ok :: bool
  te_results :: "integrity_result list"
  te_inotify_ok :: bool
  te_watch_ok :: "path \<Rightarrow> bool"
  te_turns :: "turn list"

text \<open>
  The exit status, what was printed or logged, and the files; \<open>te_results\<close> is the array of 1024
  slots on the stack of \<open>main\<close>, with whatever it holds. \<open>n\<close> bounds the depth of the scan.
\<close>

definition integrity_main ::
  "nat \<Rightarrow> 'g tool_env \<Rightarrow> string list \<Rightarrow> fs \<Rightarrow> (int \<times> tool_output \<times> fs) option" where
  "integrity_main n e argv files =
     (if \<not> te_sodium_ok e then Some (1, SodiumFailed, files)
      else if length argv < 2 then Some (1, Usage (hd argv), files)
      else if argv ! 1 = ''--init'' then
        map_option (\<lambda>(r, files'). (if rc r = 0 then 0 else 1, InitResult r, files'))
          (integrity_init_database n (te_int e) (te_fopen_ok e) files)
      else if argv ! 1 = ''--check'' then
        (case integrity_check_main (te_int e) (te_fopen_ok e) (te_results e) files of
           (status, report) \<Rightarrow>
             Some (status, if status = 0 then AllVerified else Issues report, files))
      else if argv ! 1 = ''--daemon'' then
        Some (0, Monitored (monitor_daemon (te_inotify_ok e) (te_watch_ok e) (te_turns e)), files)
      else Some (1, UnknownOption (argv ! 1), files))"

section \<open>What is logged\<close>

lemma event_kind_status:
  "event_status msk = INTEGRITY_MISSING \<longleftrightarrow> event_kind msk = Deleted"
  by (auto simp: event_status_def event_kind_def)

lemma monitor_loop_stopped: "monitor_loop False ts = []"
  by (cases ts) simp_all

text \<open>
  The monitor logs every change it reads. As long as no read fails and no signal arrives,
  each event that has a name is in the log, with its name and kind, in the order in which the
  kernel gave them; the handler of a signal ends the loop after the events of that turn.
\<close>

theorem monitor_logs_every_event:
  assumes "\<forall>t \<in> set ts. tu_read t \<noteq> ReadError \<and> \<not> tu_signal t" "tu_read u = ReadEvents evs" "tu_signal u"
  shows "monitor_daemon True watch_ok (ts @ u # rest) =
    LogStarted # map (\<lambda>d. if watch_ok d then LogWatching d else LogCannotWatch d) watched_dirs @
    log_events (concat (map (\<lambda>t. case tu_read t of ReadEvents es \<Rightarrow> es | _ \<Rightarrow> []) ts) @ evs)"
proof -
  have "monitor_loop True (ts @ u # rest) =
      log_events (concat (map (\<lambda>t. case tu_read t of ReadEvents es \<Rightarrow> es | _ \<Rightarrow> []) ts) @ evs)"
    using assms
  proof (induction ts)
    case Nil
    then show ?case by (simp add: signal_handler_def monitor_loop_stopped)
  next
    case (Cons t ts)
    then show ?case by (cases "tu_read t") (simp_all add: log_events_def)
  qed
  then show ?thesis by (simp add: monitor_daemon_def)
qed

theorem monitor_logs_every_event_witness:
  "monitor_daemon True (\<lambda>d. d \<noteq> ''/boot'')
     ([\<lparr>tu_read = ReadEintr, tu_signal = False\<rparr>] @
      \<lparr>tu_read = ReadEvents [(0x200, ''passwd''), (0x40, ''hosts''), (2, [])], tu_signal = True\<rparr> # []) =
   [LogStarted, LogWatching ''/bin'', LogWatching ''/sbin'', LogWatching ''/usr/bin'', LogWatching ''/usr/sbin'',
    LogWatching ''/etc'', LogCannotWatch ''/boot'', LogTamper Deleted ''passwd'', LogTamper Moved ''hosts'']"
  by (subst monitor_logs_every_event [where evs = "[(0x200, ''passwd''), (0x40, ''hosts''), (2, [])]"])
    (simp_all add: watched_dirs_def log_events_def event_kind_def IN_DELETE_def IN_MODIFY_def IN_CREATE_def)

section \<open>The tool\<close>


definition tool_env0 :: "bytes tool_env" where
  "tool_env0 = \<lparr>te_int = int_env0, te_sodium_ok = True, te_fopen_ok = True, te_results = replicate 1024 slot0,
     te_inotify_ok = True, te_watch_ok = (\<lambda>_. True), te_turns = []\<rparr>"


end
