(* ===== verification/Shell_Parser.thy ===== *)
theory Shell_Parser
  imports C_Strings
begin

text \<open>
  \<open>shell/src/parser.c\<close> and the structures of \<open>shell/include/shell.h\<close>: the tokenizer, the
  expansion of variables and the construction of a pipeline. A pointer into the line is the
  rest of the line; the fixed buffers of the sources cut what does not fit, as the bounds in
  the code do. A copy that would leave its buffer is \<open>Inl EUndefined\<close>. \<open>strdup\<close>, whose result
  the parser does not check, is taken to succeed.
\<close>

section \<open>Data\<close>

abbreviation (input) MAX_LINE_LENGTH :: nat where "MAX_LINE_LENGTH \<equiv> 4096"
abbreviation (input) MAX_ARGS :: nat where "MAX_ARGS \<equiv> 256"
abbreviation (input) MAX_PIPE_SEGMENTS :: nat where "MAX_PIPE_SEGMENTS \<equiv> 16"

record redirect =
  stdin_file :: "string option"
  stdout_file :: "string option"
  stderr_file :: "string option"
  stdout_append :: bool
  stderr_append :: bool

text \<open>\<open>argc\<close> is the length of \<open>argv\<close>.\<close>

record command =
  argv :: "string list"
  redir :: redirect
  background :: bool

text \<open>\<open>commands\<close> has the slots the parser has filled; the others are zero.\<close>

record pipeline =
  commands :: "command list"
  pcount :: nat

definition no_redirect :: redirect where
  "no_redirect = \<lparr>stdin_file = None, stdout_file = None, stderr_file = None, stdout_append = False,
     stderr_append = False\<rparr>"

definition no_command :: command where
  "no_command = \<lparr>argv = [], redir = no_redirect, background = False\<rparr>"

definition no_pipeline :: pipeline where
  "no_pipeline = \<lparr>commands = [], pcount = 0\<rparr>"

lemma no_command_simps [simp]: "argv no_command = []" "redir no_command = no_redirect" "background no_command = False"
  by (simp_all add: no_command_def)

section \<open>Tokenizer\<close>

abbreviation (input) SQ :: char where "SQ \<equiv> CHR 0x27"
abbreviation (input) DQ :: char where "DQ \<equiv> CHR 0x22"
abbreviation (input) BS :: char where "BS \<equiv> CHR 0x5C"

text \<open>The body of a single-quoted string and what follows its closing quote.\<close>

definition single_quoted :: "string \<Rightarrow> string \<times> string" where
  "single_quoted p =
     (let body = takeWhile (\<lambda>c. c \<noteq> SQ) p; rest = dropWhile (\<lambda>c. c \<noteq> SQ) p
      in (body, if rest \<noteq> [] then tl rest else rest))"

text \<open>The same for a double-quoted string, where a backslash takes the next character as it is.\<close>

fun double_quoted :: "string \<Rightarrow> string \<times> string" where
  "double_quoted [] = ([], [])"
| "double_quoted [c] = (if c = DQ then ([], []) else ([c], []))"
| "double_quoted (c # d # p) =
     (if c = DQ then ([], d # p)
      else if c = BS then (let (t, r) = double_quoted p in (d # t, r))
      else (let (t, r) = double_quoted (d # p) in (c # t, r)))"

definition word_end :: "char \<Rightarrow> bool" where
  "word_end c \<longleftrightarrow> isspace c \<or> c \<in> {CHR ''|'', CHR ''&'', CHR '';'', CHR ''>'', CHR ''<''}"

fun plain_word :: "string \<Rightarrow> string \<times> string" where
  "plain_word [] = ([], [])"
| "plain_word [c] = (if word_end c then ([], [c]) else ([c], []))"
| "plain_word (c # d # p) =
     (if word_end c then ([], c # d # p)
      else if c = BS then (let (t, r) = plain_word p in (d # t, r))
      else (let (t, r) = plain_word (d # p) in (c # t, r)))"

text \<open>One turn of the loop, after the white space: the token and the rest of the line.\<close>

definition raw_token :: "char \<Rightarrow> string \<Rightarrow> string \<times> string" where
  "raw_token c q =
     (let nxt = (case q of [] \<Rightarrow> CHR 0x00 | d # _ \<Rightarrow> d) in
      if c = SQ then single_quoted q
      else if c = DQ then double_quoted q
      else if c = CHR ''|'' \<or> c = CHR ''&'' \<or> c = CHR '';'' then ([c], q)
      else if c = CHR ''>'' \<and> nxt = CHR ''>'' then (''>>'', tl q)
      else if c = CHR ''2'' \<and> nxt = CHR ''>'' then (''2>'', tl q)
      else if c = CHR ''>'' \<or> c = CHR ''<'' then ([c], q)
      else plain_word (c # q))"

text \<open>The token as the buffer of \<open>MAX_LINE_LENGTH\<close> characters keeps it.\<close>

definition next_token :: "char \<Rightarrow> string \<Rightarrow> string \<times> string" where
  "next_token c q = (case raw_token c q of (token, rest) \<Rightarrow> (take (MAX_LINE_LENGTH - 1) token, rest))"

lemma single_quoted_shorter: "length (snd (single_quoted p)) \<le> length p"
proof -
  have "length (dropWhile (\<lambda>c. c \<noteq> SQ) p) \<le> length p" by (rule length_dropWhile_le)
  then show ?thesis by (auto simp: single_quoted_def Let_def)
qed

lemma double_quoted_shorter: "length (snd (double_quoted p)) \<le> length p"
  by (induction p rule: double_quoted.induct) (auto split: prod.splits)

lemma plain_word_shorter: "length (snd (plain_word p)) \<le> length p"
  by (induction p rule: plain_word.induct) (auto split: prod.splits)

lemma plain_word_progress:
  assumes "\<not> word_end c"
  shows "length (snd (plain_word (c # q))) \<le> length q"
proof (cases q)
  case (Cons d p)
  then show ?thesis
    using assms plain_word_shorter [of p] plain_word_shorter [of q] by (auto split: prod.splits)
qed (use assms in simp)

lemma snd_if_le:
  "(b \<Longrightarrow> length (snd x) \<le> n) \<Longrightarrow> (\<not> b \<Longrightarrow> length (snd y) \<le> n) \<Longrightarrow> length (snd (if b then x else y)) \<le> n"
  by simp

lemma raw_token_shorter:
  assumes "\<not> isspace c"
  shows "length (snd (raw_token c q)) \<le> length q"
  unfolding raw_token_def Let_def
proof (intro snd_if_le)
  assume "\<not> (c = CHR ''|'' \<or> c = CHR ''&'' \<or> c = CHR '';'')" "\<not> (c = CHR ''>'' \<or> c = CHR ''<'')"
  then show "length (snd (plain_word (c # q))) \<le> length q"
    using assms by (intro plain_word_progress) (simp add: word_end_def)
qed (simp_all add: single_quoted_shorter double_quoted_shorter)

lemma next_token_shorter: "\<not> isspace c \<Longrightarrow> next_token c q = (token, rest) \<Longrightarrow> length rest \<le> length q"
  using raw_token_shorter [of c q] by (auto simp: next_token_def split: prod.splits)

lemma next_token_length: "next_token c q = (token, rest) \<Longrightarrow> length token < MAX_LINE_LENGTH"
  by (auto simp: next_token_def split: prod.splits)

text \<open>The tokens from \<open>p\<close> on, \<open>count\<close> of the 255 places being used already.\<close>

function tokens_from :: "nat \<Rightarrow> string \<Rightarrow> string list" where
  "tokens_from count p =
     (if p \<noteq> [] \<and> count < MAX_ARGS - 1
      then (case dropWhile isspace p of
              [] \<Rightarrow> []
            | c # q \<Rightarrow>
                (case next_token c q of (token, rest) \<Rightarrow>
                   if token \<noteq> [] then token # tokens_from (Suc count) rest
                   else tokens_from count rest))
      else [])"
  by pat_completeness auto
termination
proof (relation "measure (\<lambda>(count, p). length p)")
  have less: "length rest < length p" if "dropWhile isspace p = c # q" "(token, rest) = next_token c q" for p c q token rest
  proof -
    have "\<not> isspace c" using hd_dropWhile [of isspace p] that(1) by simp
    moreover have "length (c # q) \<le> length p" using length_dropWhile_le [of isspace p] that(1) by simp
    ultimately show ?thesis using next_token_shorter [of c q token rest] that(2) by simp
  qed
  show "((Suc count, rest), count, p) \<in> measure (\<lambda>(count, p). length p)"
    if "dropWhile isspace p = c # q" "(token, rest) = next_token c q" for count p c q token rest
    using less [OF that] by simp
  show "((count, rest), count, p) \<in> measure (\<lambda>(count, p). length p)"
    if "dropWhile isspace p = c # q" "(token, rest) = next_token c q" for count p c q token rest
    using less [OF that] by simp
qed simp

declare tokens_from.simps [simp del]

definition tokenize :: "bool \<Rightarrow> string \<Rightarrow> string list option" where
  "tokenize malloc_ok line = (if \<not> malloc_ok then None else Some (tokens_from 0 line))"

section \<open>Variable expansion\<close>

text \<open>The environment: \<open>getenv\<close> of a name, which is never empty.\<close>

type_synonym env = "string \<rightharpoonup> string"

definition env_get :: "env \<Rightarrow> string \<Rightarrow> string option" where
  "env_get env name = (if name = [] then None else env name)"

definition isalnum :: "char \<Rightarrow> bool" where
  "isalnum c \<longleftrightarrow>
     isdigit c \<or> (65 \<le> (of_char c :: nat) \<and> (of_char c :: nat) \<le> 90) \<or>
     (97 \<le> (of_char c :: nat) \<and> (of_char c :: nat) \<le> 122)"

text \<open>The name behind a dollar sign, at most 255 characters, and what follows it.\<close>

definition skip_char :: "char \<Rightarrow> string \<Rightarrow> string" where
  "skip_char c p = (if p \<noteq> [] \<and> hd p = c then tl p else p)"

definition var_name :: "string \<Rightarrow> string \<times> string" where
  "var_name p =
     (if p \<noteq> [] \<and> hd p = CHR 0x7B then
        let name = take 255 (takeWhile (\<lambda>c. c \<noteq> CHR 0x7D) (tl p))
        in (name, skip_char (CHR 0x7D) (drop (length name) (tl p)))
      else if p \<noteq> [] \<and> hd p = CHR ''?'' then (''?'', tl p)
      else
        let name = take 255 (takeWhile (\<lambda>c. isalnum c \<or> c = CHR ''_'') p)
        in (name, drop (length name) p))"

lemma skip_char_shorter: "length (skip_char c p) \<le> length p"
  by (simp add: skip_char_def)

lemma var_name_shorter: "length (snd (var_name p)) \<le> length p"
proof -
  have "length (skip_char c (drop n (tl p))) \<le> length p" for c n
    using skip_char_shorter [of c "drop n (tl p)"] by simp
  then show ?thesis by (simp add: var_name_def Let_def)
qed

lemma var_name_less: "(varname, rest) = var_name (tl p) \<Longrightarrow> p \<noteq> [] \<Longrightarrow> length rest < length p"
proof -
  assume v: "(varname, rest) = var_name (tl p)" and p: "p \<noteq> []"
  have "length rest \<le> length (tl p)" using var_name_shorter [of "tl p"] v by (metis snd_conv)
  then show ?thesis using p by (cases p) auto
qed

text \<open>
  The loop, from \<open>p\<close> on, with \<open>result\<close> the text so far. A value that does not fit is left
  out; the home directory is copied without a bound.
\<close>

function expand_from :: "env \<Rightarrow> string \<Rightarrow> string \<Rightarrow> string res" where
  "expand_from env p result =
     (if p \<noteq> [] \<and> length result < MAX_LINE_LENGTH - 1
      then if hd p = CHR ''$'' then
             (case var_name (tl p) of (varname, rest) \<Rightarrow>
                (case env_get env varname of
                   None \<Rightarrow> expand_from env rest result
                 | Some v \<Rightarrow>
                     if length result + length v < MAX_LINE_LENGTH - 1 then expand_from env rest (result @ v)
                     else expand_from env rest result))
           else if hd p = CHR ''~'' \<and> result = [] then
             (case env_get env ''HOME'' of
                None \<Rightarrow> expand_from env (tl p) result
              | Some home \<Rightarrow>
                  if length home < MAX_LINE_LENGTH then expand_from env (tl p) (result @ home)
                  else Inl EUndefined)
           else expand_from env (tl p) (result @ [hd p])
      else Inr result)"
  by pat_completeness auto
termination
  by (relation "measure (\<lambda>(env, p, result). length p)") (auto intro: var_name_less)

declare expand_from.simps [simp del]

definition expand_variables :: "env \<Rightarrow> string \<Rightarrow> string res" where
  "expand_variables env token =
     (if strchr token (CHR ''$'') = None then Inr token else expand_from env token [])"

section \<open>The pipeline\<close>

definition is_redirection :: "string \<Rightarrow> bool" where
  "is_redirection tok \<longleftrightarrow> tok \<in> {''<'', ''>'', ''>>'', ''2>''}"

definition set_redirection :: "string \<Rightarrow> string \<Rightarrow> redirect \<Rightarrow> redirect" where
  "set_redirection tok name r =
     (if tok = ''<'' then r\<lparr>stdin_file := Some name\<rparr>
      else if tok = ''>'' then r\<lparr>stdout_file := Some name, stdout_append := False\<rparr>
      else if tok = ''>>'' then r\<lparr>stdout_file := Some name, stdout_append := True\<rparr>
      else if tok = ''2>'' then r\<lparr>stderr_file := Some name, stderr_append := False\<rparr>
      else r)"

text \<open>
  The loop over the tokens; \<open>prev\<close> are the finished commands, so \<open>cmd_idx\<close> is its length. The
  17th segment ends the loop with \<open>cmd_idx\<close> at 16.
\<close>

fun build_pipeline :: "env \<Rightarrow> string list \<Rightarrow> command list \<Rightarrow> command \<Rightarrow> pipeline res" where
  "build_pipeline env [] prev cmd = Inr \<lparr>commands = prev @ [cmd], pcount = length prev + 1\<rparr>"
| "build_pipeline env (tok # toks) prev cmd =
     (if tok = ''|'' then
        if length prev + 1 \<ge> MAX_PIPE_SEGMENTS
        then Inr \<lparr>commands = prev @ [cmd], pcount = length prev + 2\<rparr>
        else build_pipeline env toks (prev @ [cmd]) no_command
      else if tok = ''&'' then build_pipeline env toks prev (cmd\<lparr>background := True\<rparr>)
      else if is_redirection tok then
        (case toks of
           [] \<Rightarrow> build_pipeline env [] prev cmd
         | f # toks' \<Rightarrow>
             (case expand_variables env f of
                Inl e \<Rightarrow> Inl e
              | Inr name \<Rightarrow> build_pipeline env toks' prev (cmd\<lparr>redir := set_redirection tok name (redir cmd)\<rparr>)))
      else
        (case expand_variables env tok of
           Inl e \<Rightarrow> Inl e
         | Inr arg \<Rightarrow> build_pipeline env toks prev (cmd\<lparr>argv := argv cmd @ [arg]\<rparr>)))"

definition parse_line :: "env \<Rightarrow> bool \<Rightarrow> string option \<Rightarrow> pipeline res" where
  "parse_line env malloc_ok line =
     (case line of
        None \<Rightarrow> Inr no_pipeline
      | Some l \<Rightarrow>
          if l = [] \<or> hd l = CHR ''#'' then Inr no_pipeline
          else (case tokenize malloc_ok l of
                  None \<Rightarrow> Inr no_pipeline
                | Some toks \<Rightarrow> if toks = [] then Inr no_pipeline else build_pipeline env toks [] no_command))"

section \<open>Bounds\<close>

lemma tokens_from_bounds:
  "length (tokens_from count p) + count \<le> max count (MAX_ARGS - 1) \<and>
   (\<forall>t \<in> set (tokens_from count p). t \<noteq> [] \<and> length t < MAX_LINE_LENGTH)"
proof (induction count p rule: tokens_from.induct)
  case (1 count p)
  show ?case
  proof (cases "p \<noteq> [] \<and> count < MAX_ARGS - 1")
    case True
    show ?thesis
    proof (cases "dropWhile isspace p")
      case (Cons c q)
      obtain token rest where n: "next_token c q = (token, rest)" by (rule prod.exhaust)
      have "token \<noteq> [] \<Longrightarrow> tokens_from count p = token # tokens_from (Suc count) rest"
        "token = [] \<Longrightarrow> tokens_from count p = tokens_from count rest"
        using True Cons n by (simp_all add: tokens_from.simps [of count p])
      with 1 [OF True Cons n [symmetric]] True next_token_length [OF n] show ?thesis
        by (cases "token = []") (auto simp: max_def split: if_splits)
    next
      case Nil
      then have "tokens_from count p = []" by (subst tokens_from.simps) (simp only: list.case if_cancel)
      then show ?thesis by simp
    qed
  next
    case False
    then have "tokens_from count p = []" by (subst tokens_from.simps) auto
    then show ?thesis by simp
  qed
qed

lemma expand_from_bounds:
  "length result < MAX_LINE_LENGTH \<Longrightarrow>
   (case expand_from env p result of
      Inr t \<Rightarrow> length t < MAX_LINE_LENGTH
    | Inl e \<Rightarrow> \<exists>h. env ''HOME'' = Some h \<and> MAX_LINE_LENGTH \<le> length h)"
proof (induction env p result rule: expand_from.induct)
  case (1 env p result)
  show ?case
  proof (cases "p \<noteq> [] \<and> length result < MAX_LINE_LENGTH - 1")
    case True
    obtain name rest where v: "var_name (tl p) = (name, rest)" by (rule prod.exhaust)
    show ?thesis
    proof (cases "hd p = CHR ''$''")
      case dollar: True
      show ?thesis
      proof (cases "env_get env name")
        case None
        with "1.IH"(1) [OF True dollar v [symmetric] None] "1.prems" True dollar v show ?thesis
          by (simp add: expand_from.simps [of env p])
      next
        case (Some x)
        from "1.IH"(2,3) [OF True dollar v [symmetric] Some] "1.prems" True dollar v Some show ?thesis
          by (simp add: expand_from.simps [of env p])
      qed
    next
      case other: False
      show ?thesis
      proof (cases "hd p = CHR ''~'' \<and> result = []")
        case tilde: True
        show ?thesis
        proof (cases "env_get env ''HOME''")
          case None
          with "1.IH"(4) [OF True other tilde None] "1.prems" True other tilde show ?thesis
            by (simp add: expand_from.simps [of env p])
        next
          case (Some h)
          then have "env ''HOME'' = Some h" by (simp add: env_get_def)
          with "1.IH"(5) [OF True other tilde Some] "1.prems" True other tilde Some show ?thesis
            by (cases "length h < MAX_LINE_LENGTH") (simp_all add: expand_from.simps [of env p])
        qed
      next
        case False
        then have "expand_from env p result = expand_from env (tl p) (result @ [hd p])"
          using True other by (subst expand_from.simps) auto
        with "1.IH"(6) [OF True other False] True show ?thesis by simp
      qed
    qed
  next
    case False
    then have "expand_from env p result = Inr result" by (subst expand_from.simps) auto
    with "1.prems" show ?thesis by simp
  qed
qed

lemma expand_variables_bounds:
  assumes "length token < MAX_LINE_LENGTH"
  shows "expand_variables env token = Inr t \<Longrightarrow> length t < MAX_LINE_LENGTH"
    "expand_variables env token = Inl e \<Longrightarrow> \<exists>h. env ''HOME'' = Some h \<and> MAX_LINE_LENGTH \<le> length h"
  using expand_from_bounds [of "[]" env token] assms
  by (auto simp: expand_variables_def split: if_splits)

text \<open>What the arrays and buffers of \<open>shell.h\<close> can hold.\<close>

definition fits :: "string option \<Rightarrow> bool" where
  "fits s \<longleftrightarrow> (\<forall>t. s = Some t \<longrightarrow> length t < MAX_LINE_LENGTH)"

definition command_fits :: "command \<Rightarrow> bool" where
  "command_fits c \<longleftrightarrow>
     length (argv c) \<le> MAX_ARGS - 1 \<and> (\<forall>a \<in> set (argv c). length a < MAX_LINE_LENGTH) \<and>
     fits (stdin_file (redir c)) \<and> fits (stdout_file (redir c)) \<and> fits (stderr_file (redir c))"

lemma command_fits_none [simp]: "command_fits no_command"
  by (simp add: command_fits_def no_command_def no_redirect_def fits_def)

lemma command_fits_updates:
  "command_fits (c\<lparr>background := b\<rparr>) = command_fits c"
  "command_fits c \<Longrightarrow> length name < MAX_LINE_LENGTH \<Longrightarrow> command_fits (c\<lparr>redir := set_redirection tok name (redir c)\<rparr>)"
  "command_fits c \<Longrightarrow> length (argv c) < MAX_ARGS - 1 \<Longrightarrow> length a < MAX_LINE_LENGTH \<Longrightarrow>
   command_fits (c\<lparr>argv := argv c @ [a]\<rparr>)"
  by (auto simp: command_fits_def set_redirection_def fits_def)

lemma build_pipeline_bounds:
  assumes "length prev < MAX_PIPE_SEGMENTS" "\<forall>c \<in> set prev. command_fits c" "command_fits cmd"
    and "length (argv cmd) + length toks \<le> MAX_ARGS - 1" "\<forall>t \<in> set toks. length t < MAX_LINE_LENGTH"
  shows "(case build_pipeline env toks prev cmd of
      Inr pl \<Rightarrow> (\<forall>c \<in> set (commands pl). command_fits c) \<and> length (commands pl) \<le> MAX_PIPE_SEGMENTS \<and>
        (pcount pl = length (commands pl) \<or>
         pcount pl = MAX_PIPE_SEGMENTS + 1 \<and> length (commands pl) = MAX_PIPE_SEGMENTS)
    | Inl e \<Rightarrow> \<exists>h. env ''HOME'' = Some h \<and> MAX_LINE_LENGTH \<le> length h)"
  using assms
proof (induction env toks prev cmd rule: build_pipeline.induct)
  case (1 env prev cmd)
  then show ?case by auto
next
  case (2 env tok toks prev cmd)
  have tok: "length tok < MAX_LINE_LENGTH" and toks: "\<forall>t \<in> set toks. length t < MAX_LINE_LENGTH"
    using "2.prems"(5) by simp_all
  consider (pipe) "tok = ''|''" | (bg) "tok = ''&''" | (redirection) "is_redirection tok" "tok \<noteq> ''|''" "tok \<noteq> ''&''"
    | (arg) "\<not> is_redirection tok" "tok \<noteq> ''|''" "tok \<noteq> ''&''" by blast
  then show ?case
  proof cases
    case pipe
    then show ?thesis
      using "2.IH"(1) "2.prems" by (cases "length prev + 1 < MAX_PIPE_SEGMENTS") auto
  next
    case bg
    then show ?thesis using "2.IH"(2) "2.prems" by (simp add: command_fits_updates)
  next
    case redirection
    show ?thesis
    proof (cases toks)
      case Nil
      then show ?thesis using redirection "2.prems" by auto
    next
      case (Cons f toks')
      show ?thesis
      proof (cases "expand_variables env f")
        case (Inl e)
        then show ?thesis using redirection Cons toks expand_variables_bounds(2) [of f env e] by simp
      next
        case (Inr name)
        then have "length name < MAX_LINE_LENGTH" using Cons toks expand_variables_bounds(1) [of f env name] by simp
        then have "command_fits (cmd\<lparr>redir := set_redirection tok name (redir cmd)\<rparr>)"
          using "2.prems"(3) by (rule command_fits_updates(2) [rotated])
        with "2.IH"(4) [OF redirection(2,3,1) Cons Inr] redirection Cons Inr "2.prems" show ?thesis by simp
      qed
    qed
  next
    case arg
    show ?thesis
    proof (cases "expand_variables env tok")
      case (Inl e)
      then show ?thesis using arg tok expand_variables_bounds(2) [of tok env e] by simp
    next
      case (Inr a)
      then have "length a < MAX_LINE_LENGTH" using tok expand_variables_bounds(1) by blast
      then have "command_fits (cmd\<lparr>argv := argv cmd @ [a]\<rparr>)"
        using "2.prems"(3,4) by (intro command_fits_updates(3)) simp_all
      with "2.IH"(5) [OF arg(2,3,1) Inr] arg Inr "2.prems" toks show ?thesis by simp
    qed
  qed
qed

lemma parse_line_shape:
  "(\<forall>pl. parse_line env malloc_ok line = Inr pl \<longrightarrow>
      (\<forall>c \<in> set (commands pl). command_fits c) \<and> length (commands pl) \<le> MAX_PIPE_SEGMENTS \<and>
      (pcount pl = length (commands pl) \<or>
       pcount pl = MAX_PIPE_SEGMENTS + 1 \<and> length (commands pl) = MAX_PIPE_SEGMENTS)) \<and>
   (\<forall>e. parse_line env malloc_ok line = Inl e \<longrightarrow> (\<exists>h. env ''HOME'' = Some h \<and> MAX_LINE_LENGTH \<le> length h))"
proof -
  have "(case build_pipeline env (tokens_from 0 l) [] no_command of
      Inr pl \<Rightarrow> (\<forall>c \<in> set (commands pl). command_fits c) \<and> length (commands pl) \<le> MAX_PIPE_SEGMENTS \<and>
        (pcount pl = length (commands pl) \<or>
         pcount pl = MAX_PIPE_SEGMENTS + 1 \<and> length (commands pl) = MAX_PIPE_SEGMENTS)
    | Inl e \<Rightarrow> \<exists>h. env ''HOME'' = Some h \<and> MAX_LINE_LENGTH \<le> length h)" for l
    using tokens_from_bounds [of 0 l] by (intro build_pipeline_bounds) simp_all
  from this [of "the line"] show ?thesis
    by (auto simp: parse_line_def tokenize_def no_pipeline_def split: option.splits if_splits sum.splits)
qed

text \<open>
  The pipes among the tokens that separate commands: the token behind a redirection is its file
  name, whatever it is.
\<close>

fun pipes :: "string list \<Rightarrow> nat" where
  "pipes [] = 0"
| "pipes [tok] = (if tok = ''|'' then 1 else 0)"
| "pipes (tok # f # toks) =
     (if tok = ''|'' then Suc (pipes (f # toks)) else if is_redirection tok then pipes toks else pipes (f # toks))"

definition line_tokens :: "bool \<Rightarrow> string option \<Rightarrow> string list" where
  "line_tokens malloc_ok line =
     (case line of None \<Rightarrow> [] | Some l \<Rightarrow> if l = [] \<or> hd l = CHR ''#'' \<or> \<not> malloc_ok then [] else tokens_from 0 l)"

lemma pipes_Cons:
  "tok = ''|'' \<Longrightarrow> pipes (tok # toks) = Suc (pipes toks)"
  "tok \<noteq> ''|'' \<Longrightarrow> \<not> is_redirection tok \<Longrightarrow> pipes (tok # toks) = pipes toks"
  by (cases toks; simp)+

lemma build_pipeline_count:
  "build_pipeline env toks prev cmd = Inr pl \<Longrightarrow> length prev < MAX_PIPE_SEGMENTS \<Longrightarrow>
   pcount pl = min (MAX_PIPE_SEGMENTS + 1) (length prev + pipes toks + 1) \<and>
   length (commands pl) = min MAX_PIPE_SEGMENTS (length prev + pipes toks + 1)"
proof (induction env toks prev cmd rule: build_pipeline.induct)
  case (1 env prev cmd)
  then show ?case by auto
next
  case (2 env tok toks prev cmd)
  consider (pipe) "tok = ''|''" | (bg) "tok = ''&''" | (redirection) "is_redirection tok" "tok \<noteq> ''|''" "tok \<noteq> ''&''"
    | (arg) "\<not> is_redirection tok" "tok \<noteq> ''|''" "tok \<noteq> ''&''" by blast
  then show ?case
  proof cases
    case pipe
    then show ?thesis
      using "2.IH"(1) "2.prems" by (cases "length prev + 1 < MAX_PIPE_SEGMENTS") (auto simp: pipes_Cons)
  next
    case bg
    then have "\<not> is_redirection tok" by (simp add: is_redirection_def)
    with bg show ?thesis using "2.IH"(2) "2.prems" by (simp add: pipes_Cons)
  next
    case redirection
    then show ?thesis
      using "2.IH"(3,4) "2.prems" by (cases toks) (auto split: sum.splits)
  next
    case arg
    then show ?thesis using "2.IH"(5) "2.prems" by (auto simp: pipes_Cons split: sum.splits)
  qed
qed

lemma parse_line_count:
  assumes "parse_line env malloc_ok line = Inr pl"
  shows "pcount pl =
      (if line_tokens malloc_ok line = [] then 0 else min (MAX_PIPE_SEGMENTS + 1) (pipes (line_tokens malloc_ok line) + 1))"
    and "length (commands pl) = min MAX_PIPE_SEGMENTS (pcount pl)"
proof -
  have p: "parse_line env malloc_ok line =
      (if line_tokens malloc_ok line = [] then Inr no_pipeline
       else build_pipeline env (line_tokens malloc_ok line) [] no_command)"
    by (auto simp: parse_line_def line_tokens_def tokenize_def split: option.splits)
  have "pcount pl = min (MAX_PIPE_SEGMENTS + 1) (pipes (line_tokens malloc_ok line) + 1) \<and>
      length (commands pl) = min MAX_PIPE_SEGMENTS (pipes (line_tokens malloc_ok line) + 1)"
    if "line_tokens malloc_ok line \<noteq> []"
    using build_pipeline_count [of env "line_tokens malloc_ok line" "[]" no_command pl] assms p that by simp
  with assms p show "pcount pl =
      (if line_tokens malloc_ok line = [] then 0 else min (MAX_PIPE_SEGMENTS + 1) (pipes (line_tokens malloc_ok line) + 1))"
    "length (commands pl) = min MAX_PIPE_SEGMENTS (pcount pl)"
    by (cases "line_tokens malloc_ok line = []"; auto simp: no_pipeline_def)+
qed

text \<open>
  C33: whatever the line, the parser stays inside its arrays and buffers: at most 16 commands, at
  most 255 arguments per command and at most 4095 characters per argument or file name. The
  commands are one more than the separating pipes, up to 16; the count that it reports is one more
  than the pipes too, but goes up to 17, so that a line with 16 or more pipes gets the count 17
  although only 16 commands exist. A line fails only at a home directory of 4096 characters
  or more, where the copy is undefined.
\<close>

theorem parse_line_bounds:
  "(\<forall>pl. parse_line env malloc_ok line = Inr pl \<longrightarrow>
      (\<forall>c \<in> set (commands pl). command_fits c) \<and>
      pcount pl = (if line_tokens malloc_ok line = [] then 0
                   else min (MAX_PIPE_SEGMENTS + 1) (pipes (line_tokens malloc_ok line) + 1)) \<and>
      length (commands pl) = min MAX_PIPE_SEGMENTS (pcount pl)) \<and>
   (\<forall>e. parse_line env malloc_ok line = Inl e \<longrightarrow> (\<exists>h. env ''HOME'' = Some h \<and> MAX_LINE_LENGTH \<le> length h))"
  using parse_line_shape [of env malloc_ok line] parse_line_count [of env malloc_ok line] by blast

section \<open>Printing and parsing back\<close>

definition is_operator :: "string \<Rightarrow> bool" where
  "is_operator t \<longleftrightarrow> t = ''|'' \<or> t = ''&'' \<or> is_redirection t"

definition escape_char :: "char \<Rightarrow> string" where
  "escape_char c = (if c = DQ \<or> c = BS then [BS, c] else [c])"

text \<open>A token as a user can type it: operators as they are, everything else in double quotes.\<close>

definition show_token :: "string \<Rightarrow> string" where
  "show_token t = (if is_operator t then t else DQ # concat (map escape_char t) @ [DQ])"

definition unlex :: "string list \<Rightarrow> string" where
  "unlex toks = concat (map (\<lambda>t. show_token t @ '' '') toks)"

lemma double_quoted_step:
  "p \<noteq> [] \<Longrightarrow> c \<noteq> DQ \<Longrightarrow> c \<noteq> BS \<Longrightarrow> double_quoted (c # p) = (case double_quoted p of (t, r) \<Rightarrow> (c # t, r))"
  by (cases p) auto

lemma double_quoted_escape: "double_quoted (concat (map escape_char t) @ DQ # r) = (t, r)"
proof (induction t)
  case Nil
  show ?case by (cases r) simp_all
next
  case (Cons c t)
  let ?p = "concat (map escape_char t) @ DQ # r"
  have "double_quoted (c # ?p) = (c # t, r)" if "c \<noteq> DQ" "c \<noteq> BS"
    using that Cons by (subst double_quoted_step) simp_all
  moreover have "double_quoted (BS # c # ?p) = (c # t, r)" using Cons by simp
  moreover have "escape_char c = (if c = DQ \<or> c = BS then [BS, c] else [c])" by (rule escape_char_def)
  ultimately show ?case by (cases "c = DQ \<or> c = BS") simp_all
qed

lemma raw_token_show:
  assumes "t \<noteq> []"
  obtains c q where "show_token t @ '' '' @ rest = c # q" "\<not> isspace c" "raw_token c q = (t, '' '' @ rest)"
proof (cases "is_operator t")
  case True
  then have "t \<in> {''|'', ''&'', ''<'', ''>'', ''>>'', ''2>''}"
    by (auto simp: is_operator_def is_redirection_def)
  then show thesis
    using that True by (auto simp: show_token_def raw_token_def isspace_def Let_def)
next
  case False
  have "raw_token DQ (concat (map escape_char t) @ DQ # '' '' @ rest) = (t, '' '' @ rest)"
    by (simp only: raw_token_def Let_def double_quoted_escape) simp
  with False show thesis
    by (intro that) (auto simp: show_token_def isspace_def)
qed

lemma tokens_from_space: "tokens_from n (CHR '' '' # p) = tokens_from n p"
proof (cases "p = []")
  case True
  then show ?thesis by (simp add: tokens_from.simps isspace_def)
next
  case False
  have "dropWhile isspace (CHR '' '' # p) = dropWhile isspace p" by (simp add: isspace_def)
  with False show ?thesis
    unfolding tokens_from.simps [of n "CHR '' '' # p"] tokens_from.simps [of n p] by (simp only: list.distinct simp_thms)
qed

lemma tokens_unlex:
  assumes "\<forall>t \<in> set toks. t \<noteq> [] \<and> length t < MAX_LINE_LENGTH" "n + length toks \<le> MAX_ARGS - 1"
  shows "tokens_from n (unlex toks) = toks"
  using assms
proof (induction toks arbitrary: n)
  case Nil
  show ?case by (subst tokens_from.simps) (simp add: unlex_def)
next
  case (Cons t toks)
  then have "t \<noteq> []" by simp
  then obtain c q where c: "show_token t @ '' '' @ unlex toks = c # q" "\<not> isspace c"
    "raw_token c q = (t, '' '' @ unlex toks)"
    by (rule raw_token_show)
  have "unlex (t # toks) = c # q" using c(1) by (simp add: unlex_def)
  then have "tokens_from n (unlex (t # toks)) = t # tokens_from (Suc n) ('' '' @ unlex toks)"
    using Cons.prems c(2,3) unfolding tokens_from.simps [of n "unlex (t # toks)"] by (simp add: next_token_def)
  also have "\<dots> = t # toks" using Cons by (simp add: tokens_from_space)
  finally show ?case .
qed

text \<open>The tokens of a command and of a pipeline.\<close>

definition file_tokens :: "string \<Rightarrow> string option \<Rightarrow> string list" where
  "file_tokens tok x = (case x of None \<Rightarrow> [] | Some f \<Rightarrow> [tok, f])"

definition redirect_tokens :: "redirect \<Rightarrow> string list" where
  "redirect_tokens r =
     file_tokens ''<'' (stdin_file r) @
     file_tokens (if stdout_append r then ''>>'' else ''>'') (stdout_file r) @
     file_tokens ''2>'' (stderr_file r)"

definition command_tokens :: "command \<Rightarrow> string list" where
  "command_tokens c = argv c @ redirect_tokens (redir c) @ (if background c then [''&''] else [])"

fun pipeline_tokens :: "command list \<Rightarrow> string list" where
  "pipeline_tokens [] = []"
| "pipeline_tokens [c] = command_tokens c"
| "pipeline_tokens (c # cs) = command_tokens c @ ''|'' # pipeline_tokens cs"

text \<open>
  Commands that can be written down: texts that are not empty, that fit a token and have no
  dollar sign; arguments that are no operators; append modes only where the parser sets them.
\<close>

definition writable :: "string \<Rightarrow> bool" where
  "writable t \<longleftrightarrow> t \<noteq> [] \<and> length t < MAX_LINE_LENGTH \<and> CHR ''$'' \<notin> set t"

definition writable_redirect :: "redirect \<Rightarrow> bool" where
  "writable_redirect r \<longleftrightarrow>
     (\<forall>f. stdin_file r = Some f \<or> stdout_file r = Some f \<or> stderr_file r = Some f \<longrightarrow> writable f) \<and>
     (stdout_file r = None \<longrightarrow> \<not> stdout_append r) \<and> \<not> stderr_append r"

definition writable_command :: "command \<Rightarrow> bool" where
  "writable_command c \<longleftrightarrow> (\<forall>a \<in> set (argv c). writable a \<and> \<not> is_operator a) \<and> writable_redirect (redir c)"

lemma expand_writable: "writable t \<Longrightarrow> expand_variables env t = Inr t"
  by (simp add: writable_def expand_variables_def strchr_None)

lemma operator_writable: "is_operator t \<Longrightarrow> t \<noteq> [] \<and> length t < MAX_LINE_LENGTH"
  by (auto simp: is_operator_def is_redirection_def)

lemma redirections [simp]:
  "is_redirection ''<''" "is_redirection ''>''" "is_redirection ''>>''" "is_redirection ''2>''"
  "\<not> is_redirection ''|''" "\<not> is_redirection ''&''"
  by (simp_all add: is_redirection_def)

lemma build_args:
  "\<forall>a \<in> set args. writable a \<and> \<not> is_operator a \<Longrightarrow>
   build_pipeline env (args @ toks) prev cmd = build_pipeline env toks prev (cmd\<lparr>argv := argv cmd @ args\<rparr>)"
proof (induction args arbitrary: cmd)
  case (Cons a args)
  then show ?case by (simp add: is_operator_def expand_writable)
qed simp

lemma build_file:
  assumes "is_redirection tok" "\<forall>f. x = Some f \<longrightarrow> writable f"
  shows "build_pipeline env (file_tokens tok x @ toks) prev cmd =
    build_pipeline env toks prev
      (case x of None \<Rightarrow> cmd | Some f \<Rightarrow> cmd\<lparr>redir := set_redirection tok f (redir cmd)\<rparr>)"
proof -
  have "tok \<noteq> ''|''" "tok \<noteq> ''&''" using assms(1) redirections by blast+
  then show ?thesis using assms by (cases x) (simp_all add: file_tokens_def expand_writable)
qed

lemma build_redirect:
  assumes "writable_redirect r" "redir cmd = no_redirect"
  shows "build_pipeline env (redirect_tokens r @ toks) prev cmd = build_pipeline env toks prev (cmd\<lparr>redir := r\<rparr>)"
proof -
  obtain a b c d e where r: "r = \<lparr>stdin_file = a, stdout_file = b, stderr_file = c, stdout_append = d, stderr_append = e\<rparr>"
    by (cases r)
  have w: "\<forall>f. a = Some f \<longrightarrow> writable f" "\<forall>f. b = Some f \<longrightarrow> writable f" "\<forall>f. c = Some f \<longrightarrow> writable f"
    "b = None \<longrightarrow> \<not> d" "\<not> e"
    using assms(1) by (auto simp: r writable_redirect_def)
  have op: "is_redirection (if d then ''>>'' else ''>'')" by simp
  define c1 where "c1 = (case a of None \<Rightarrow> cmd | Some f \<Rightarrow> cmd\<lparr>redir := set_redirection ''<'' f (redir cmd)\<rparr>)"
  define c2 where "c2 = (case b of None \<Rightarrow> c1
      | Some f \<Rightarrow> c1\<lparr>redir := set_redirection (if d then ''>>'' else ''>'') f (redir c1)\<rparr>)"
  let ?t3 = "file_tokens ''2>'' c @ toks"
  let ?t2 = "file_tokens (if d then ''>>'' else ''>'') b @ ?t3"
  have "build_pipeline env (file_tokens ''<'' a @ ?t2) prev cmd = build_pipeline env ?t2 prev c1"
    unfolding c1_def by (rule build_file [OF redirections(1) w(1)])
  also have "\<dots> = build_pipeline env ?t3 prev c2"
    unfolding c2_def by (rule build_file [OF op w(2)])
  also have "\<dots> = build_pipeline env toks prev
      (case c of None \<Rightarrow> c2 | Some f \<Rightarrow> c2\<lparr>redir := set_redirection ''2>'' f (redir c2)\<rparr>)"
    by (rule build_file [OF redirections(4) w(3)])
  finally have "build_pipeline env (redirect_tokens r @ toks) prev cmd =
      build_pipeline env toks prev (case c of None \<Rightarrow> c2 | Some f \<Rightarrow> c2\<lparr>redir := set_redirection ''2>'' f (redir c2)\<rparr>)"
    by (simp add: r redirect_tokens_def)
  moreover have "c1 = cmd\<lparr>redir := no_redirect\<lparr>stdin_file := a\<rparr>\<rparr>"
    using assms(2) by (cases a; cases cmd) (simp_all add: c1_def set_redirection_def no_redirect_def)
  then have "c2 = cmd\<lparr>redir := no_redirect\<lparr>stdin_file := a, stdout_file := b, stdout_append := d\<rparr>\<rparr>"
    using w(4) by (cases b; cases d) (simp_all add: c2_def set_redirection_def no_redirect_def)
  then have "(case c of None \<Rightarrow> c2 | Some f \<Rightarrow> c2\<lparr>redir := set_redirection ''2>'' f (redir c2)\<rparr>) = cmd\<lparr>redir := r\<rparr>"
    using w(5) by (cases c) (simp_all add: r set_redirection_def no_redirect_def)
  ultimately show ?thesis by simp
qed

lemma build_command:
  assumes "writable_command c"
  shows "build_pipeline env (command_tokens c @ toks) prev no_command = build_pipeline env toks prev c"
proof -
  have "(no_command\<lparr>argv := argv c\<rparr>)\<lparr>redir := redir c, background := background c\<rparr> = c" by (cases c) (simp add: no_command_def)
  moreover have "build_pipeline env (command_tokens c @ toks) prev no_command =
      build_pipeline env ((if background c then [''&''] else []) @ toks) prev
        (no_command\<lparr>argv := argv c, redir := redir c\<rparr>)"
    using assms by (simp add: command_tokens_def writable_command_def build_args build_redirect)
  ultimately show ?thesis by (cases c) (simp add: no_command_def)
qed

lemma build_commands:
  "cs \<noteq> [] \<Longrightarrow> \<forall>c \<in> set cs. writable_command c \<Longrightarrow> length prev + length cs \<le> MAX_PIPE_SEGMENTS \<Longrightarrow>
   build_pipeline env (pipeline_tokens cs) prev no_command =
   Inr \<lparr>commands = prev @ cs, pcount = length prev + length cs\<rparr>"
proof (induction cs arbitrary: prev rule: pipeline_tokens.induct)
  case (2 c)
  then show ?case using build_command [of c env "[]" prev] by simp
next
  case (3 c d cs)
  then have "build_pipeline env (pipeline_tokens (c # d # cs)) prev no_command =
      build_pipeline env (pipeline_tokens (d # cs)) (prev @ [c]) no_command"
    by (simp add: build_command)
  with 3 show ?case by simp
qed simp

lemma operators [simp]:
  "is_operator ''<''" "is_operator ''>''" "is_operator ''>>''" "is_operator ''2>''" "is_operator ''|''" "is_operator ''&''"
  by (simp_all add: is_operator_def)

lemma command_token_cases:
  assumes "writable_command c" "t \<in> set (command_tokens c)"
  shows "writable t \<or> is_operator t"
  using assms
  by (auto simp: command_tokens_def redirect_tokens_def file_tokens_def writable_command_def writable_redirect_def
      split: option.splits if_splits)

lemma writable_tokens:
  assumes "\<forall>c \<in> set cs. writable_command c" "t \<in> set (pipeline_tokens cs)"
  shows "t \<noteq> [] \<and> length t < MAX_LINE_LENGTH"
proof -
  have "writable t \<or> is_operator t"
    using assms by (induction cs rule: pipeline_tokens.induct) (auto dest: command_token_cases)
  then show ?thesis using operator_writable by (auto simp: writable_def)
qed

lemma show_token_start: "\<exists>c q. show_token t @ p = c # q \<and> c \<noteq> CHR ''#''" if "t \<noteq> []"
  using that by (auto simp: show_token_def is_operator_def is_redirection_def)

text \<open>
  C13: printing a pipeline and parsing it back: up to 16 commands with arguments, redirections
  and background marks, written with their arguments in double quotes and the operators
  bare, are read as exactly these commands, whatever blanks, quotes, backslashes or operator
  characters the arguments contain.
\<close>

theorem parse_print_roundtrip:
  assumes "cs \<noteq> []" "length cs \<le> MAX_PIPE_SEGMENTS" "\<forall>c \<in> set cs. writable_command c"
    and "pipeline_tokens cs \<noteq> []" "length (pipeline_tokens cs) \<le> MAX_ARGS - 1"
  shows "parse_line env True (Some (unlex (pipeline_tokens cs))) = Inr \<lparr>commands = cs, pcount = length cs\<rparr>"
proof -
  obtain t ts where t: "pipeline_tokens cs = t # ts" using assms(4) by (cases "pipeline_tokens cs") auto
  then have "t \<noteq> []" using writable_tokens [OF assms(3), of t] by simp
  then obtain c q where "unlex (pipeline_tokens cs) = c # q" "c \<noteq> CHR ''#''"
    using show_token_start [of t "'' '' @ unlex ts"] t by (auto simp: unlex_def)
  moreover have "tokens_from 0 (unlex (pipeline_tokens cs)) = pipeline_tokens cs"
    using writable_tokens [OF assms(3)] assms(5) by (intro tokens_unlex) simp_all
  ultimately show ?thesis
    using assms build_commands [of cs "[]" env] by (simp add: parse_line_def tokenize_def)
qed

section \<open>Quotes are not remembered\<close>

lemma expand_var:
  assumes "name \<noteq> []" "\<forall>c \<in> set name. isalnum c" "length name \<le> 255"
    and "env name = Some v" "length v < MAX_LINE_LENGTH - 1"
  shows "expand_variables env (CHR ''$'' # name) = Inr v"
proof -
  obtain c cs where n: "name = c # cs" using assms(1) by (cases name) auto
  then have c: "c \<noteq> CHR 0x7B" "c \<noteq> CHR ''?''" using assms(2) by (auto simp: isalnum_def isdigit_def)
  have "takeWhile (\<lambda>c. isalnum c \<or> c = CHR ''_'') name = name"
    using assms(2) by (auto simp: takeWhile_eq_all_conv)
  then have v: "var_name name = (name, [])"
    using assms(3) c n by (simp add: var_name_def Let_def)
  have "expand_from env (CHR ''$'' # name) [] = expand_from env [] v"
    using v assms by (subst expand_from.simps) (simp add: env_get_def)
  also have "\<dots> = Inr v" by (subst expand_from.simps) simp
  finally show ?thesis by (simp add: expand_variables_def)
qed

lemma tokens_single_quoted:
  assumes "s \<noteq> []" "SQ \<notin> set s" "length s < MAX_LINE_LENGTH"
  shows "tokens_from 0 (SQ # s @ [SQ]) = [s]"
proof -
  have "takeWhile (\<lambda>c. c \<noteq> SQ) (s @ [SQ]) = s" "dropWhile (\<lambda>c. c \<noteq> SQ) (s @ [SQ]) = [SQ]"
    using assms(2) by (simp_all add: takeWhile_append dropWhile_append)
  then have "next_token SQ (s @ [SQ]) = (s, [])"
    using assms(3) by (simp add: next_token_def raw_token_def single_quoted_def Let_def)
  moreover have "dropWhile isspace (SQ # s @ [SQ]) = SQ # s @ [SQ]" by (simp add: isspace_def)
  moreover have "tokens_from (Suc 0) [] = []" by (subst tokens_from.simps) simp
  ultimately show ?thesis using assms(1) by (subst tokens_from.simps) simp
qed

text \<open>
  The parser forgets that a token was quoted: a single-quoted pipe character still
  separates two commands and a single-quoted variable is still expanded, although the
  tokenizer is documented to leave single-quoted strings alone.
\<close>

theorem quotes_not_remembered:
  assumes "name \<noteq> []" "\<forall>c \<in> set name. isalnum c" "length name \<le> 255" "env name = Some v" "length v < MAX_LINE_LENGTH - 1"
  shows "parse_line env True (Some [SQ, CHR ''|'', SQ]) = Inr \<lparr>commands = [no_command, no_command], pcount = 2\<rparr> \<and>
    parse_line env True (Some (SQ # CHR ''$'' # name @ [SQ])) =
      Inr \<lparr>commands = [no_command\<lparr>argv := [v]\<rparr>], pcount = 1\<rparr>"
proof -
  have "SQ \<notin> set (CHR ''$'' # name)" using assms(2) by (auto simp: isalnum_def isdigit_def)
  then have "tokens_from 0 (SQ # (CHR ''$'' # name) @ [SQ]) = [CHR ''$'' # name]"
    using assms(3) by (intro tokens_single_quoted) simp_all
  moreover have "tokens_from 0 (SQ # ''|'' @ [SQ]) = [''|'']"
    by (rule tokens_single_quoted) simp_all
  moreover have "\<not> is_redirection (CHR ''$'' # name)" by (simp add: is_redirection_def)
  ultimately show ?thesis
    using expand_var [of name env v] assms by (simp add: parse_line_def tokenize_def)
qed

section \<open>Examples\<close>

theorem parse_line_bounds_witness:
  "\<exists>pl. parse_line Map.empty True (Some (unlex (concat (replicate 16 [''a'', ''|'']) @ [''b'']))) = Inr pl \<and>
     pcount pl = 17 \<and> length (commands pl) = 16"
proof -
  let ?t = "concat (replicate 16 [''a'', ''|'']) @ [''b'']"
  have ok: "\<forall>t \<in> set ?t. t \<noteq> [] \<and> length t < MAX_LINE_LENGTH" and n: "length ?t = 33"
    by (simp_all add: eval_nat_numeral)
  then have "tokens_from 0 (unlex ?t) = ?t" using tokens_unlex [of ?t 0] by simp
  moreover have "unlex ?t \<noteq> [] \<and> hd (unlex ?t) \<noteq> CHR ''#''"
    by (simp add: unlex_def show_token_def is_operator_def is_redirection_def eval_nat_numeral)
  ultimately have toks: "line_tokens True (Some (unlex ?t)) = ?t" by (simp add: line_tokens_def)
  moreover have "?t \<noteq> []" by simp
  moreover have "pipes ?t = 16" by (simp add: eval_nat_numeral is_redirection_def)
  ultimately show ?thesis
    using parse_line_bounds [of Map.empty True "Some (unlex ?t)"]
    by (cases "parse_line Map.empty True (Some (unlex ?t))") (simp only:, auto)
qed

theorem parse_print_roundtrip_witness:
  "parse_line Map.empty True (Some (unlex [''grep'', ''a b'', ''<'', ''in file'', ''|'', ''wc'', ''>>'', ''out''])) =
   Inr \<lparr>commands =
     [no_command\<lparr>argv := [''grep'', ''a b''], redir := no_redirect\<lparr>stdin_file := Some ''in file''\<rparr>\<rparr>,
      no_command\<lparr>argv := [''wc''], redir := no_redirect\<lparr>stdout_file := Some ''out'', stdout_append := True\<rparr>\<rparr>],
     pcount = 2\<rparr>"
proof -
  let ?a = "no_command\<lparr>argv := [''grep'', ''a b''], redir := no_redirect\<lparr>stdin_file := Some ''in file''\<rparr>\<rparr>"
  let ?b = "no_command\<lparr>argv := [''wc''], redir := no_redirect\<lparr>stdout_file := Some ''out'', stdout_append := True\<rparr>\<rparr>"
  have "pipeline_tokens [?a, ?b] = [''grep'', ''a b'', ''<'', ''in file'', ''|'', ''wc'', ''>>'', ''out'']"
    by (simp add: command_tokens_def redirect_tokens_def file_tokens_def no_redirect_def)
  moreover have "\<forall>c \<in> set [?a, ?b]. writable_command c"
    by (simp add: writable_command_def writable_redirect_def writable_def is_operator_def is_redirection_def no_redirect_def)
  ultimately show ?thesis
    using parse_print_roundtrip [of "[?a, ?b]" Map.empty] by simp
qed

theorem quotes_not_remembered_witness:
  "parse_line [''USER'' \<mapsto> ''root''] True (Some (SQ # CHR ''$'' # ''USER'' @ [SQ])) =
     Inr \<lparr>commands = [no_command\<lparr>argv := [''root'']\<rparr>], pcount = 1\<rparr>"
proof -
  have "\<forall>c \<in> set ''USER''. isalnum c" by (simp add: isalnum_def)
  then show ?thesis using quotes_not_remembered [of "''USER''" "[''USER'' \<mapsto> ''root'']" "''root''"] by simp
qed

end
