(* ===== verification/Shell_State.thy ===== *)
theory Shell_State
  imports Shell_Parser
begin

text \<open>
  The state the commands of the shell work on: \<open>ShellState\<close> of \<open>shell/include/shell.h\<close>, and
  around it what a command can touch: the environment variables, the rest of the standard
  input, the static buffer of \<open>prompt_password\<close>, what was printed, the working directory of the
  process (\<open>None\<close> when it has no name any more), the history of readline, the ends of pipes that
  are open in the process of the shell and the number of pipes it has made, which names the next
  one, and the daemon at the other end of the socket, whose state
  is a type parameter. A message is printed as its text in
  plain letters and its arguments.
\<close>

section \<open>ShellState\<close>

record shell_state =
  cwd :: string
  user :: string
  hostname :: string
  home :: string
  is_root :: bool
  in_secure_session :: bool
  tor_active :: bool
  vpn_active :: bool
  git_branch :: string
  running :: bool
  last_exit_code :: int

text \<open>What the character arrays of the structure can hold.\<close>

definition state_ok :: "shell_state \<Rightarrow> bool" where
  "state_ok s \<longleftrightarrow>
     length (cwd s) < 1024 \<and> length (user s) < 64 \<and> length (hostname s) < 64 \<and>
     length (home s) < 256 \<and> length (git_branch s) < 64"

datatype message = Out string "string list" | Err string "string list"

text \<open>An open file descriptor: one of the three the shell was started with, an end of a pipe, a file.\<close>

datatype descriptor =
    Inherited nat
  | PipeR nat
  | PipeW nat
  | FileR path
  | FileW path bool

record 'd world =
  w_state :: shell_state
  w_env :: env
  w_stdin :: string
  w_password :: string
  w_out :: "message list"
  w_wd :: "path option"
  w_history :: "string list"
  w_pipes :: "descriptor list"
  w_npipes :: nat
  w_daemon :: 'd

definition say :: "message list \<Rightarrow> 'd world \<Rightarrow> 'd world" where
  "say ms w = w\<lparr>w_out := w_out w @ ms\<rparr>"

lemma say_simps [simp]:
  "w_state (say ms w) = w_state w" "w_env (say ms w) = w_env w" "w_stdin (say ms w) = w_stdin w"
  "w_password (say ms w) = w_password w" "w_daemon (say ms w) = w_daemon w" "w_out (say ms w) = w_out w @ ms"
  "w_wd (say ms w) = w_wd w" "w_history (say ms w) = w_history w" "w_pipes (say ms w) = w_pipes w"
  "w_npipes (say ms w) = w_npipes w"
  by (simp_all add: say_def)

text \<open>A \<open>fgets\<close> of at most \<open>n - 1\<close> characters from the standard input.\<close>

definition read_line :: "nat \<Rightarrow> 'd world \<Rightarrow> string option \<times> 'd world" where
  "read_line n w =
     (case fgets n (w_stdin w) of
        None \<Rightarrow> (None, w)
      | Some (l, rest) \<Rightarrow> (Some (cstr l), w\<lparr>w_stdin := rest\<rparr>))"

lemma read_line_simps [simp]:
  "w_wd (snd (read_line n w)) = w_wd w" "w_history (snd (read_line n w)) = w_history w"
  "w_pipes (snd (read_line n w)) = w_pipes w" "w_npipes (snd (read_line n w)) = w_npipes w"
  "w_state (snd (read_line n w)) = w_state w" "w_env (snd (read_line n w)) = w_env w"
  "w_password (snd (read_line n w)) = w_password w" "w_daemon (snd (read_line n w)) = w_daemon w"
  by (simp_all add: read_line_def split: option.splits prod.splits)

section \<open>The password prompt\<close>

text \<open>
  \<open>prompt_password\<close> returns a pointer to its static buffer, or null at the end of the input;
  the model returns whether it is non-null and leaves the text in the buffer, which the next
  call overwrites. Whoever holds the pointer sees the new text. The terminal attributes are
  not modelled.
\<close>

definition prompt_password :: "string \<Rightarrow> 'd world \<Rightarrow> bool \<times> 'd world" where
  "prompt_password prompt w =
     (case read_line 256 (say [Err prompt []] w) of
        (None, w1) \<Rightarrow> (False, w1)
      | (Some l, w1) \<Rightarrow> (True, w1\<lparr>w_password := strip_newline l\<rparr>))"

lemma prompt_password_simps [simp]:
  "w_state (snd (prompt_password p w)) = w_state w" "w_env (snd (prompt_password p w)) = w_env w"
  "w_daemon (snd (prompt_password p w)) = w_daemon w"
  by (simp_all add: prompt_password_def read_line_def split: option.splits prod.splits)

text \<open>A line typed at the prompt.\<close>

definition typed :: "string \<Rightarrow> bool" where
  "typed pw \<longleftrightarrow> length pw < 255 \<and> CHR 0x0A \<notin> set pw \<and> CHR 0x00 \<notin> set pw"

lemma prompt_typed:
  assumes "typed pw" "w_stdin w = pw @ CHR 0x0A # rest"
  shows "prompt_password p w = (True, (say [Err p []] w)\<lparr>w_stdin := rest, w_password := pw\<rparr>)"
proof -
  have "fgets 256 (pw @ CHR 0x0A # rest) = Some (pw @ [CHR 0x0A], rest)"
    using assms(1) line_split_line [of pw 255 rest] by (simp add: fgets_def typed_def)
  moreover have "cstr (pw @ [CHR 0x0A]) = pw @ [CHR 0x0A]" using assms(1) by (simp add: typed_def)
  moreover have "strip_newline (pw @ [CHR 0x0A]) = pw" using assms(1) by (simp add: typed_def strip_newline_line)
  ultimately show ?thesis using assms(2) by (simp add: prompt_password_def read_line_def)
qed

section \<open>Examples\<close>

definition state0 :: shell_state where
  "state0 = \<lparr>cwd = ''/home/ann'', user = ''ann'', hostname = ''sz'', home = ''/home/ann'', is_root = False,
     in_secure_session = False, tor_active = False, vpn_active = False, git_branch = [], running = True,
     last_exit_code = 0\<rparr>"

definition world0 :: "string \<Rightarrow> 'd \<Rightarrow> 'd world" where
  "world0 inp d = \<lparr>w_state = state0, w_env = Map.empty, w_stdin = inp, w_password = [], w_out = [],
     w_wd = Some (cwd state0), w_history = [], w_pipes = [], w_npipes = 0, w_daemon = d\<rparr>"

lemma world0_simps [simp]:
  "w_stdin (world0 inp d) = inp" "w_daemon (world0 inp d) = d" "w_state (world0 inp d) = state0"
  "w_out (world0 inp d) = []"
  by (simp_all add: world0_def)

end
