(* ===== verification/Shell_Client.thy ===== *)
theory Shell_Client
  imports Shell_State
begin

text \<open>
  The commands of the shell that talk to the daemon: \<open>shell/src/crypto_cmds.c\<close> and
  \<open>shell/src/session_cmds.c\<close>. The daemon is a parameter \<open>serve\<close>: what the single \<open>read\<close> on the
  socket finds after a request was written (\<open>None\<close>: the connection was closed without an
  answer), and its state afterwards.
\<close>

section \<open>Daemon communication\<close>

record client_env =
  cl_socket_ok :: bool
  cl_connect_ok :: bool
  cl_strdup_ok :: bool

type_synonym 'd server = "string \<Rightarrow> 'd \<Rightarrow> string option \<times> 'd"

definition send_daemon_cmd :: "client_env \<Rightarrow> 'd server \<Rightarrow> string \<Rightarrow> 'd world \<Rightarrow> string option \<times> 'd world" where
  "send_daemon_cmd v serve json_cmd w =
     (if \<not> cl_socket_ok v \<or> \<not> cl_connect_ok v then (None, w)
      else case serve json_cmd (w_daemon w) of (answer, d) \<Rightarrow>
        let buf = take 4095 (case answer of None \<Rightarrow> [] | Some s \<Rightarrow> s); w' = w\<lparr>w_daemon := d\<rparr> in
        if buf = [] \<or> \<not> cl_strdup_ok v then (None, w') else (Some (cstr buf), w'))"

definition send_cmd :: "client_env \<Rightarrow> 'd server \<Rightarrow> string \<Rightarrow> 'd world \<Rightarrow> string option \<times> 'd world" where
  "send_cmd v serve json w =
     (if \<not> cl_socket_ok v \<or> \<not> cl_connect_ok v then (None, w)
      else case serve json (w_daemon w) of (answer, d) \<Rightarrow>
        let buf = take 4095 (case answer of None \<Rightarrow> [] | Some s \<Rightarrow> s); w' = w\<lparr>w_daemon := d\<rparr> in
        if buf = [] \<or> \<not> cl_strdup_ok v then (None, w') else (Some (cstr buf), w'))"

lemma send_simps [simp]:
  "w_state (snd (send_daemon_cmd v serve j w)) = w_state w" "w_env (snd (send_daemon_cmd v serve j w)) = w_env w"
  "w_state (snd (send_cmd v serve j w)) = w_state w" "w_env (snd (send_cmd v serve j w)) = w_env w"
  by (simp_all add: send_daemon_cmd_def send_cmd_def Let_def split: prod.splits)

definition resolve_path :: "path \<Rightarrow> shell_state \<Rightarrow> path" where
  "resolve_path p state =
     (if p \<noteq> [] \<and> hd p = CHR ''/'' then strncpy_buf 1024 p else snprintf_buf 1024 (cwd state @ ''/'' @ p))"

definition says_ok :: "string \<Rightarrow> bool" where
  \<open>says_ok resp \<longleftrightarrow> strstr resp ''"ok"'' \<noteq> None\<close>

text \<open>What most commands do with the answer.\<close>

definition report :: "message \<Rightarrow> message \<Rightarrow> message \<Rightarrow> string option \<times> 'd world \<Rightarrow> int \<times> 'd world" where
  "report good bad down r =
     (case r of
        (Some resp, w) \<Rightarrow> (0, say [if says_ok resp then good else bad] w)
      | (None, w) \<Rightarrow> (1, say [down] w))"

definition not_running :: message where
  "not_running = Err ''CrypticEngine daemon not running.'' []"

section \<open>Crypto commands\<close>

definition encrypt_request :: "path \<Rightarrow> string \<Rightarrow> string" where
  \<open>encrypt_request p pw =
     snprintf_buf 4096 (''{"cmd":"encrypt","path":"'' @ p @ ''","password":"'' @ pw @ ''"}'')\<close>

definition decrypt_request :: "path \<Rightarrow> string \<Rightarrow> string" where
  \<open>decrypt_request p pw =
     snprintf_buf 4096 (''{"cmd":"decrypt","path":"'' @ p @ ''","password":"'' @ pw @ ''"}'')\<close>

text \<open>
  Both \<open>pw\<close> and \<open>confirm\<close> point to the buffer of \<open>prompt_password\<close>: after the second prompt they
  are read from there.
\<close>

definition cmd_encrypt :: "client_env \<Rightarrow> 'd server \<Rightarrow> string list \<Rightarrow> 'd world \<Rightarrow> int \<times> 'd world" where
  "cmd_encrypt v serve args w =
     (if length args < 2 then (1, say [Err ''Usage: encrypt <file>'' []] w)
      else case prompt_password ''Encryption password: '' w of
        (pw_p, w1) \<Rightarrow>
          if \<not> pw_p \<or> length (w_password w1) = 0 then (1, say [Err ''Cancelled.'' []] w1)
          else case prompt_password ''Confirm password: '' w1 of
            (confirm_p, w2) \<Rightarrow>
              let pw = w_password w2; confirm = w_password w2 in
              if \<not> confirm_p \<or> pw \<noteq> confirm then (1, say [Err ''Passwords don't match.'' []] w2)
              else
                let p = resolve_path (args ! 1) (w_state w2) in
                report (Out ''Encrypted: %s -> %s.szenc'' [args ! 1, args ! 1]) (Out ''Encryption failed'' [])
                  (Err ''CrypticEngine daemon not running. Start with: sudo systemctl start crypticd'' [])
                  (send_daemon_cmd v serve (encrypt_request p pw) w2))"

definition cmd_decrypt :: "client_env \<Rightarrow> 'd server \<Rightarrow> string list \<Rightarrow> 'd world \<Rightarrow> int \<times> 'd world" where
  "cmd_decrypt v serve args w =
     (if length args < 2 then (1, say [Err ''Usage: decrypt <file.szenc>'' []] w)
      else case prompt_password ''Decryption password: '' w of
        (pw_p, w1) \<Rightarrow>
          if \<not> pw_p then (1, w1)
          else
            let p = resolve_path (args ! 1) (w_state w1) in
            report (Out ''Decrypted successfully'' []) (Out ''Decryption failed - wrong password?'' []) not_running
              (send_daemon_cmd v serve (decrypt_request p (w_password w1)) w1))"

definition cmd_lock :: "client_env \<Rightarrow> 'd server \<Rightarrow> string list \<Rightarrow> 'd world \<Rightarrow> int \<times> 'd world" where
  \<open>cmd_lock v serve args w =
     (if length args < 2 then (1, say [Err ''Usage: lock <folder>'' []] w)
      else
        let p = resolve_path (args ! 1) (w_state w) in
        report (Out ''Folder locked: %s'' [args ! 1]) (Out ''Lock failed (is fscrypt set up?)'' []) not_running
          (send_daemon_cmd v serve (snprintf_buf 4096 (''{"cmd":"lock","path":"'' @ p @ ''"}'')) w))\<close>

definition cmd_unlock :: "client_env \<Rightarrow> 'd server \<Rightarrow> string list \<Rightarrow> 'd world \<Rightarrow> int \<times> 'd world" where
  \<open>cmd_unlock v serve args w =
     (if length args < 2 then (1, say [Err ''Usage: unlock <folder>'' []] w)
      else case prompt_password ''Folder password: '' w of
        (pw_p, w1) \<Rightarrow>
          if \<not> pw_p then (1, w1)
          else
            let p = resolve_path (args ! 1) (w_state w1) in
            report (Out ''Folder unlocked: %s'' [args ! 1]) (Out ''Unlock failed'' []) not_running
              (send_daemon_cmd v serve
                (snprintf_buf 4096 (''{"cmd":"unlock","path":"'' @ p @ ''","password":"'' @ w_password w1 @ ''"}'')) w1))\<close>

definition cmd_hash :: "client_env \<Rightarrow> 'd server \<Rightarrow> string list \<Rightarrow> 'd world \<Rightarrow> int \<times> 'd world" where
  \<open>cmd_hash v serve args w =
     (if length args < 2 then (1, say [Err ''Usage: hash <file>'' []] w)
      else
        let p = resolve_path (args ! 1) (w_state w) in
        (case send_daemon_cmd v serve (snprintf_buf 4096 (''{"cmd":"hash","path":"'' @ p @ ''"}'')) w of
           (None, w1) \<Rightarrow> (1, say [not_running] w1)
         | (Some resp, w1) \<Rightarrow>
             (0, (case strstr resp ''"hash":"'' of
                    None \<Rightarrow> say [Out ''Hash failed'' []] w1
                  | Some s \<Rightarrow>
                      let hash_start = drop 8 s in
                      (case strchr hash_start (CHR 0x22) of
                         None \<Rightarrow> w1
                       | Some hash_end \<Rightarrow>
                           say [Out ''BLAKE2b: %s'' [take (length hash_start - length hash_end) hash_start],
                                Out ''File:    %s'' [args ! 1]] w1)))))\<close>

text \<open>\<open>strncmp(confirm, "yes", 3) != 0\<close> on a line of at most 15 characters.\<close>

definition cmd_wipe :: "client_env \<Rightarrow> 'd server \<Rightarrow> string list \<Rightarrow> 'd world \<Rightarrow> int \<times> 'd world" where
  \<open>cmd_wipe v serve args w =
     (if length args < 2 then (1, say [Err ''Usage: wipe <file>'' []] w)
      else
        case read_line 16 (say [Out ''PERMANENTLY delete '%s'?'' [args ! 1],
               Out ''This overwrites 3x then unlinks. UNRECOVERABLE.'' [], Out ''Type 'yes' to confirm: '' []] w) of
          (confirm, w1) \<Rightarrow>
            if (case confirm of None \<Rightarrow> True | Some c \<Rightarrow> take 3 c \<noteq> ''yes'')
            then (0, say [Out ''Cancelled.'' []] w1)
            else
              let p = resolve_path (args ! 1) (w_state w1) in
              report (Out ''Securely wiped: %s'' [args ! 1]) (Out ''Wipe failed'' []) not_running
                (send_daemon_cmd v serve (snprintf_buf 4096 (''{"cmd":"wipe","path":"'' @ p @ ''"}'')) w1))\<close>

text \<open>The subcommands of \<open>vault\<close> say nothing when the daemon does not answer, and return 0.\<close>

definition report_quiet :: "message \<Rightarrow> message \<Rightarrow> string option \<times> 'd world \<Rightarrow> int \<times> 'd world" where
  "report_quiet good bad r =
     (case r of
        (Some resp, w) \<Rightarrow> (0, say [if says_ok resp then good else bad] w)
      | (None, w) \<Rightarrow> (0, w))"

definition cmd_vault :: "client_env \<Rightarrow> 'd server \<Rightarrow> string list \<Rightarrow> 'd world \<Rightarrow> int \<times> 'd world" where
  \<open>cmd_vault v serve args w =
     (if length args < 2 then (1, say [Err ''Usage: vault <create|open|close|list> [args]'' []] w)
      else if args ! 1 = ''create'' then
        if length args < 4 then (1, say [Err ''Usage: vault create <name> <size_mb>'' []] w)
        else (case prompt_password ''Vault password: '' w of
          (pw_p, w1) \<Rightarrow>
            if \<not> pw_p then (1, w1)
            else (case prompt_password ''Confirm password: '' w1 of
              (confirm_p, w2) \<Rightarrow>
                let pw = w_password w2; confirm = w_password w2 in
                if \<not> confirm_p \<or> pw \<noteq> confirm then (1, say [Err ''Passwords don't match.'' []] w2)
                else
                  report_quiet (Out ''Vault '%s' created (%sMB)'' [args ! 2, args ! 3]) (Out ''Vault creation failed'' [])
                    (send_daemon_cmd v serve
                      (snprintf_buf 4096 (''{"cmd":"container_create","name":"'' @ args ! 2 @ ''","size":'' @ args ! 3 @
                         '',"password":"'' @ pw @ ''"}'')) w2)))
      else if args ! 1 = ''open'' then
        if length args < 3 then (1, say [Err ''Usage: vault open <name>'' []] w)
        else (case prompt_password ''Vault password: '' w of
          (pw_p, w1) \<Rightarrow>
            if \<not> pw_p then (1, w1)
            else
              report_quiet (Out ''Vault '%s' opened at /mnt/securez-vault/%s'' [args ! 2, args ! 2])
                (Out ''Wrong password or vault not found'' [])
                (send_daemon_cmd v serve
                  (snprintf_buf 4096 (''{"cmd":"container_open","name":"'' @ args ! 2 @ ''","password":"'' @ w_password w1 @ ''"}'')) w1))
      else if args ! 1 = ''close'' then
        if length args < 3 then (1, say [Err ''Usage: vault close <name>'' []] w)
        else
          report_quiet (Out ''Vault '%s' closed'' [args ! 2]) (Out ''Close failed'' [])
            (send_daemon_cmd v serve (snprintf_buf 4096 (''{"cmd":"container_close","name":"'' @ args ! 2 @ ''"}'')) w)
      else if args ! 1 = ''list'' then
        (case send_daemon_cmd v serve ''{"cmd":"container_list"}'' w of
           (None, w1) \<Rightarrow> (0, w1)
         | (Some resp, w1) \<Rightarrow> (0, say [Out ''Vaults:%s'' [resp]] w1))
      else (1, say [Err ''vault: unknown subcommand %s'' [args ! 1]] w))\<close>

section \<open>Session commands\<close>

text \<open>A session of the listing as it is displayed; a dash stands for a name that is not found.\<close>

definition session_entry :: "string \<Rightarrow> int \<times> string \<times> int" where
  \<open>session_entry p =
     (atoi (drop 5 p),
      (case strstr p ''"name":"'' of
         None \<Rightarrow> [CHR 0xE2, CHR 0x80, CHR 0x94]
       | Some n \<Rightarrow>
           let s = drop 8 n in
           (case strchr s (CHR 0x22) of
              None \<Rightarrow> [CHR 0xE2, CHR 0x80, CHR 0x94]
            | Some e \<Rightarrow>
                let len = length s - length e in take (if len \<ge> 64 then 64 - 1 else len) s)),
      (case strstr p ''"pid":'' of None \<Rightarrow> 0 | Some q \<Rightarrow> atoi (drop 6 q)))\<close>

lemma strstr_not_longer: "strstr s n = Some t \<Longrightarrow> length t \<le> length s"
  by (auto dest: strstr_Some)

function session_entries :: "string \<Rightarrow> (int \<times> string \<times> int) list" where
  \<open>session_entries p =
     (case strstr p ''"id":'' of
        None \<Rightarrow> []
      | Some q \<Rightarrow> session_entry q # session_entries (tl q))\<close>
  by pat_completeness auto
termination
proof (relation "measure length")
  show "(tl q, p) \<in> measure length" if \<open>strstr p ''"id":'' = Some q\<close> for p q
  proof -
    have \<open>is_prefix ''"id":'' q\<close> "length q \<le> length p"
      using strstr_Some [OF that] strstr_not_longer [OF that] by simp_all
    then show ?thesis by (cases q) auto
  qed
qed simp

declare session_entries.simps [simp del]

definition show_entry :: "int \<times> string \<times> int \<Rightarrow> message" where
  "show_entry e = (case e of (i, name, pid) \<Rightarrow> Out ''%-6d %-20s %-10d'' [fmt_d i, name, fmt_d pid])"

definition confirmed :: "string option \<Rightarrow> bool" where
  "confirmed c = (case c of None \<Rightarrow> False | Some l \<Rightarrow> l \<noteq> [] \<and> hd l = CHR ''y'')"

definition cmd_securesession :: "client_env \<Rightarrow> 'd server \<Rightarrow> string list \<Rightarrow> 'd world \<Rightarrow> int \<times> 'd world" where
  \<open>cmd_securesession v serve args w =
     (if length args < 2 then (1, say [Out ''Usage: securesession <start|end|status>'' []] w)
      else if args ! 1 = ''start'' then
        (case read_line 8 (say [Out ''Starting Secure Session'' [], Out ''Continue? [y/N]: '' []] w) of
           (confirm, w1) \<Rightarrow>
             if \<not> confirmed confirm then (0, say [Out ''Cancelled.'' []] w1)
             else report (Out ''Secure session started!'' []) (Out ''Failed to start session (need root?)'' []) not_running
                    (send_cmd v serve ''{"cmd":"session_start"}'' w1))
      else if args ! 1 = ''end'' then
        let i = (if length args > 2 then atoi (args ! 2) else 1) in
        (case read_line 8 (say [Out ''Ending session %d - ALL DATA WILL BE WIPED'' [fmt_d i], Out ''Confirm? [y/N]: '' []] w) of
           (confirm, w1) \<Rightarrow>
             if \<not> confirmed confirm then (0, say [Out ''Cancelled.'' []] w1)
             else report_quiet (Out ''Session destroyed - RAM wiped'' []) (Out ''Session not found'' [])
                    (send_cmd v serve (snprintf_buf 256 (''{"cmd":"session_end","id":'' @ fmt_d i @ ''}'')) w1))
      else if args ! 1 = ''status'' then
        (case send_cmd v serve ''{"cmd":"session_list"}'' w of
           (None, w1) \<Rightarrow> (1, say [not_running] w1)
         | (Some resp, w1) \<Rightarrow>
             let count = (case strstr resp ''"count":'' of None \<Rightarrow> 0 | Some c \<Rightarrow> atoi (drop 8 c)) in
             if count = 0 then (0, say [Out ''No active secure sessions.'' []] w1)
             else (0, say (Out ''Active Secure Sessions: %d'' [fmt_d count] #
                       (case strstr resp ''"sessions":['' of
                          None \<Rightarrow> []
                        | Some s \<Rightarrow> map show_entry (session_entries s))) w1))
      else (1, say [Err ''securesession: unknown subcommand %s'' [args ! 1]] w))\<close>

text \<open>
  \<open>run\<close>: \<open>ru_readable\<close> is the outcome of \<open>access\<close>; the fallback without a daemon forks and
  executes \<open>nxe-loader\<close>: \<open>ru_fork\<close> is the result of \<open>fork\<close>, \<open>ru_status\<close> the exit status of the
  loader, or nothing when it was killed.
\<close>

record run_env =
  ru_readable :: bool
  ru_fork :: int
  ru_status :: "int option"

definition nxe_request :: "path \<Rightarrow> string option \<Rightarrow> string" where
  \<open>nxe_request p pw =
     (let has_pw = (case pw of None \<Rightarrow> False | Some t \<Rightarrow> length t > 0) in
      snprintf_buf 4096 (''{"cmd":"nxe_load","path":"'' @ p @ ''"'' @
        (if has_pw then '',"password":"'' else []) @ (if has_pw then the pw else []) @ (if has_pw then ''"'' else []) @ ''}''))\<close>

definition cmd_run_nxe :: "client_env \<Rightarrow> 'd server \<Rightarrow> run_env \<Rightarrow> string list \<Rightarrow> 'd world \<Rightarrow> int \<times> 'd world" where
  "cmd_run_nxe v serve u args w =
     (if length args < 2 then (1, say [Err ''Usage: run <app.nxe> [args...]'' []] w)
      else if \<not> ru_readable u then (1, say [Err ''Cannot read: %s'' [args ! 1]] w)
      else
        let (go, w1) =
          (if strrchr (args ! 1) (CHR ''.'') \<noteq> Some ''.nxe''
           then (case read_line 8 (say [Err ''File doesn't have .nxe extension. Continue? [y/N]: '' []] w) of
                   (confirm, w1) \<Rightarrow> (confirmed confirm, w1))
           else (True, w)) in
        if \<not> go then (0, w1)
        else (case prompt_password ''Password (or Enter if not encrypted): ''
                     (say [Out ''Loading .nxe binary: %s'' [args ! 1]] w1) of
          (pw_p, w2) \<Rightarrow>
            (case send_cmd v serve (nxe_request (args ! 1) (if pw_p then Some (w_password w2) else None)) w2 of
               (Some resp, w3) \<Rightarrow>
                 (0, say [if says_ok resp then Out ''.nxe loaded and executing'' [] else Out ''.nxe load failed'' []] w3)
             | (None, w3) \<Rightarrow>
                 if ru_fork u > 0 then (case ru_status u of Some s \<Rightarrow> (s, w3) | None \<Rightarrow> (1, w3))
                 else (0, w3))))"

section \<open>Interface: what every command keeps\<close>

text \<open>
  The commands reach the world through four operations only: they print, read a line, fill the
  buffer of the password prompt and make the daemon serve a request. What these keep, every
  command keeps.
\<close>

locale world_link =
  fixes serve :: "'d server"
    and P :: "'d world \<Rightarrow> bool"
  assumes says: "P w \<Longrightarrow> P (say ms w)"
    and reads: "P w \<Longrightarrow> P (snd (read_line n w))"
    and buffers: "P w \<Longrightarrow> P (w\<lparr>w_password := t\<rparr>)"
    and serves: "P w \<Longrightarrow> P (w\<lparr>w_daemon := snd (serve j (w_daemon w))\<rparr>)"
begin

lemma send_keeps:
  assumes "P w"
  shows "P (snd (send_daemon_cmd v serve j w))" "P (snd (send_cmd v serve j w))"
  using serves [OF assms, of j]
  by (auto simp: send_daemon_cmd_def send_cmd_def Let_def assms split: prod.splits)

lemma report_keeps:
  "P (snd r) \<Longrightarrow> P (snd (report good bad down r))" "P (snd r) \<Longrightarrow> P (snd (report_quiet good bad r))"
  by (auto simp: report_def report_quiet_def intro: says split: prod.splits option.splits)

lemma read_keeps: "P w \<Longrightarrow> read_line n w = (b, w1) \<Longrightarrow> P w1"
  using reads [of w n] by simp

lemma read_say_keeps: "P w \<Longrightarrow> read_line n (say ms w) = (b, w1) \<Longrightarrow> P w1"
  by (blast intro: read_keeps says)

lemma prompt_keeps: "P w \<Longrightarrow> prompt_password p w = (b, w1) \<Longrightarrow> P w1"
proof -
  assume w: "P w" and p: "prompt_password p w = (b, w1)"
  obtain l w2 where r: "read_line 256 (say [Err p []] w) = (l, w2)" by (rule prod.exhaust)
  have "P w2" by (rule read_say_keeps [OF w r])
  then show "P w1" using p r buffers [of w2] by (cases l) (auto simp: prompt_password_def)
qed

lemma sent_keeps:
  "P w \<Longrightarrow> send_daemon_cmd v serve j w = (r, w1) \<Longrightarrow> P w1" "P w \<Longrightarrow> send_cmd v serve j w = (r, w1) \<Longrightarrow> P w1"
  using send_keeps [of w v j] by simp_all

lemmas keeps = says report_keeps send_keeps

lemma crypto_commands_keep:
  assumes "P w"
  shows "P (snd (cmd_encrypt v serve args w))" "P (snd (cmd_decrypt v serve args w))"
    "P (snd (cmd_lock v serve args w))" "P (snd (cmd_unlock v serve args w))"
    "P (snd (cmd_hash v serve args w))" "P (snd (cmd_wipe v serve args w))"
proof -
  show "P (snd (cmd_encrypt v serve args w))"
    using assms by (auto simp: cmd_encrypt_def Let_def intro!: keeps dest: prompt_keeps split: prod.splits)
  show "P (snd (cmd_decrypt v serve args w))"
    using assms by (auto simp: cmd_decrypt_def Let_def intro!: keeps dest: prompt_keeps split: prod.splits)
  show "P (snd (cmd_lock v serve args w))" using assms by (auto simp: cmd_lock_def Let_def intro!: keeps)
  show "P (snd (cmd_unlock v serve args w))"
    using assms by (auto simp: cmd_unlock_def Let_def intro!: keeps dest: prompt_keeps split: prod.splits)
  show "P (snd (cmd_hash v serve args w))"
    using assms by (auto simp: cmd_hash_def Let_def intro!: says dest: sent_keeps split: prod.splits option.splits)
  show "P (snd (cmd_wipe v serve args w))"
    using assms by (auto simp: cmd_wipe_def Let_def intro!: keeps dest: read_say_keeps split: prod.splits option.splits)
qed

lemma vault_keeps:
  assumes "P w"
  shows "P (snd (cmd_vault v serve args w))"
  using assms
  by (auto simp: cmd_vault_def Let_def intro!: keeps dest: prompt_keeps sent_keeps split: prod.splits option.splits)

lemma session_commands_keep:
  assumes "P w"
  shows "P (snd (cmd_securesession v serve args w))" "P (snd (cmd_run_nxe v serve u args w))"
proof -
  have r: "P w1" if "read_line 8 (say ms w) = (c, w1)" for ms c w1 by (rule read_say_keeps [OF assms that])
  have s: "P w1" if "send_cmd v serve j w = (c, w1)" for j c w1 by (rule sent_keeps(2) [OF assms that])
  show "P (snd (cmd_securesession v serve args w))"
  proof (cases "args ! 1 = ''status''")
    case True
    then show ?thesis
      using assms by (auto simp: cmd_securesession_def Let_def intro!: says dest!: s split: prod.splits option.splits)
  next
    case False
    then show ?thesis
      using assms by (auto simp: cmd_securesession_def Let_def intro!: keeps dest!: r split: prod.splits)
  qed
  obtain go w1 where go: "(if strrchr (args ! 1) (CHR ''.'') \<noteq> Some ''.nxe''
      then (case read_line 8 (say [Err ''File doesn't have .nxe extension. Continue? [y/N]: '' []] w) of
              (confirm, w1) \<Rightarrow> (confirmed confirm, w1))
      else (True, w)) = (go, w1)" by (rule prod.exhaust)
  then have w1: "P w1" using assms by (auto dest: read_say_keeps split: if_splits prod.splits)
  obtain pw_p w2 where p: "prompt_password ''Password (or Enter if not encrypted): ''
      (say [Out ''Loading .nxe binary: %s'' [args ! 1]] w1) = (pw_p, w2)" by (rule prod.exhaust)
  have w2: "P w2" by (rule prompt_keeps [OF says [OF w1] p])
  obtain resp w3 where q: "send_cmd v serve (nxe_request (args ! 1) (if pw_p then Some (w_password w2) else None)) w2 =
      (resp, w3)" by (rule prod.exhaust)
  have "P w3" by (rule sent_keeps(2) [OF w2 q])
  then show "P (snd (cmd_run_nxe v serve u args w))"
    unfolding cmd_run_nxe_def go Let_def prod.case p q
    using says [OF assms] says [OF \<open>P w3\<close>] w1 by (cases resp; cases "ru_status u") simp_all
qed

end

text \<open>A daemon with an invariant is one instance.\<close>

locale daemon_link =
  fixes serve :: "'d server"
    and inv :: "'d \<Rightarrow> bool"
  assumes served: "inv d \<Longrightarrow> inv (snd (serve j d))"

sublocale daemon_link \<subseteq> world_link serve "\<lambda>w. inv (w_daemon w)"
  by unfold_locales (simp_all add: served)

text \<open>
  The other is the frame: the commands for the daemon change nothing of the shell itself, and take
  from the standard input without putting anything back.
\<close>

definition same_shell :: "'d world \<Rightarrow> 'd world \<Rightarrow> bool" where
  "same_shell w w' \<longleftrightarrow>
     w_state w' = w_state w \<and> w_env w' = w_env w \<and> w_wd w' = w_wd w \<and> w_history w' = w_history w \<and>
     w_pipes w' = w_pipes w \<and> w_npipes w' = w_npipes w \<and> length (w_stdin w') \<le> length (w_stdin w)"

lemma read_line_stdin: "length (w_stdin (snd (read_line n w))) \<le> length (w_stdin w)"
  using line_split_append [of "n - 1" "w_stdin w"]
  by (auto simp: read_line_def fgets_def split: option.splits prod.splits if_splits)

interpretation fr: world_link serve "same_shell w0" for serve w0
proof unfold_locales
  show "same_shell w0 (snd (read_line n w))" if "same_shell w0 w" for n w
    using that read_line_stdin [of n w] read_line_simps [of n w]
    by (auto simp: same_shell_def intro: order_trans)
qed (simp_all add: same_shell_def)

lemma same_shell_refl [simp, intro]: "same_shell w w"
  by (simp add: same_shell_def)

section \<open>Example\<close>

definition client_env0 :: client_env where
  "client_env0 = \<lparr>cl_socket_ok = True, cl_connect_ok = True, cl_strdup_ok = True\<rparr>"

end
