(* ===== verification/Shell_Builtins.thy ===== *)
theory Shell_Builtins
  imports Shell_Client "HOL-Library.Signed_Division"
begin

text \<open>
  \<open>shell/src/builtins.c\<close> and \<open>shell/src/system_cmds.c\<close> with \<open>shell/include/commands.h\<close>: the registry
  of commands, the builtins, the status commands, and the call of a handler. What the operating
  system answers is a record \<open>shell_sys\<close>. \<open>strdup\<close> and \<open>setenv\<close> are taken to find memory. The
  contents that a failed \<open>getcwd\<close> leaves in its buffer are not specified, so using them is
  \<open>Inl EUndefined\<close>.
\<close>

section \<open>The operating system\<close>

text \<open>\<open>struct sysinfo\<close> and \<open>struct utsname\<close>, with the fields the commands print.\<close>

record sys_info =
  si_uptime :: int
  si_totalram :: u64
  si_freeram :: u64
  si_totalswap :: u64

record uts_name =
  uts_sysname :: string
  uts_release :: string
  uts_machine :: string
  uts_nodename :: string

text \<open>
  \<open>sy_chdir\<close> maps the working directory and the argument of \<open>chdir\<close> to the text of the error or the
  new working directory; \<open>sy_environ\<close> is the order of \<open>environ\<close>; \<open>sy_file\<close> is the text of a file
  that can be opened for reading.
\<close>

record shell_sys =
  sy_chdir :: "path option \<Rightarrow> path \<Rightarrow> string + path option"
  sy_access :: "path \<Rightarrow> nat \<Rightarrow> bool"
  sy_environ :: "env \<Rightarrow> string list"
  sy_system :: "string \<Rightarrow> int"
  sy_file :: "path \<Rightarrow> string option"
  sy_socket :: bool
  sy_connect :: "string \<Rightarrow> nat \<Rightarrow> bool"
  sy_sysinfo :: "sys_info option"
  sy_uname :: "uts_name option"
  sy_nproc :: int
  sy_run :: "path \<Rightarrow> run_env"

abbreviation (input) F_OK :: nat where "F_OK \<equiv> 0"
abbreviation (input) X_OK :: nat where "X_OK \<equiv> 1"

text \<open>\<open>getcwd(buf, n)\<close>; \<open>None\<close> when it fails and the buffer is unspecified.\<close>

definition getcwd :: "nat \<Rightarrow> 'd world \<Rightarrow> path option" where
  "getcwd n w = (case w_wd w of None \<Rightarrow> None | Some d \<Rightarrow> if length d < n then Some d else None)"

text \<open>\<open>setenv(name, value, 1)\<close> refuses a name that is empty or has an equals sign.\<close>

definition setenv :: "string \<Rightarrow> string \<Rightarrow> env \<Rightarrow> env" where
  "setenv name val e = (if name = [] \<or> CHR ''='' \<in> set name then e else e(name \<mapsto> val))"

section \<open>The registry\<close>

datatype command_category = CAT_BUILTIN | CAT_CRYPTO | CAT_SESSION | CAT_SYSTEM

text \<open>A function pointer is the name of the function.\<close>

datatype cmd_handler =
    H_cd | H_exit | H_help | H_pwd | H_echo | H_clear | H_export | H_history | H_type | H_alias
  | H_encrypt | H_decrypt | H_lock | H_unlock | H_hash | H_wipe | H_vault
  | H_securesession | H_run_nxe | H_status | H_sysinfo

record command_entry =
  ce_name :: string
  ce_handler :: cmd_handler
  ce_help :: string
  ce_category :: command_category

text \<open>The registry has 64 places.\<close>

definition reg :: "string \<Rightarrow> cmd_handler \<Rightarrow> string \<Rightarrow> command_category \<Rightarrow> command_entry list res \<Rightarrow> command_entry list res" where
  "reg name h help cat r =
     (case r of
        Inl e \<Rightarrow> Inl e
      | Inr es \<Rightarrow>
          if length es < 64
          then Inr (es @ [\<lparr>ce_name = name, ce_handler = h, ce_help = help, ce_category = cat\<rparr>])
          else Inl EUndefined)"

definition registrations :: "(string \<times> cmd_handler \<times> string \<times> command_category) list" where
  "registrations =
     [(''cd'', H_cd, ''Change directory'', CAT_BUILTIN),
      (''exit'', H_exit, ''Exit shell'', CAT_BUILTIN),
      (''help'', H_help, ''Show help'', CAT_BUILTIN),
      (''pwd'', H_pwd, ''Print working directory'', CAT_BUILTIN),
      (''echo'', H_echo, ''Print arguments'', CAT_BUILTIN),
      (''clear'', H_clear, ''Clear screen'', CAT_BUILTIN),
      (''export'', H_export, ''Set environment variable'', CAT_BUILTIN),
      (''history'', H_history, ''Show command history'', CAT_BUILTIN),
      (''type'', H_type, ''Show command type'', CAT_BUILTIN),
      (''alias'', H_alias, ''Create/list aliases'', CAT_BUILTIN),
      (''encrypt'', H_encrypt, ''Encrypt a file'', CAT_CRYPTO),
      (''decrypt'', H_decrypt, ''Decrypt a .szenc file'', CAT_CRYPTO),
      (''lock'', H_lock, ''Lock/encrypt a folder (fscrypt)'', CAT_CRYPTO),
      (''unlock'', H_unlock, ''Unlock a folder (fscrypt)'', CAT_CRYPTO),
      (''hash'', H_hash, ''Hash a file (BLAKE2b)'', CAT_CRYPTO),
      (''wipe'', H_wipe, ''Secure delete a file'', CAT_CRYPTO),
      (''vault'', H_vault, ''Hidden container management'', CAT_CRYPTO),
      (''securesession'', H_securesession, ''Manage secure sessions'', CAT_SESSION),
      (''run'', H_run_nxe, ''Execute .nxe binary'', CAT_SESSION),
      (''status'', H_status, ''Security status overview'', CAT_SYSTEM),
      (''sysinfo'', H_sysinfo, ''System information'', CAT_SYSTEM)]"

definition cmd_register_all :: "command_entry list res" where
  "cmd_register_all = fold (\<lambda>(name, h, help, cat). reg name h help cat) registrations (Inr [])"

definition cmd_find :: "command_entry list \<Rightarrow> string \<Rightarrow> command_entry option" where
  "cmd_find registry name = find (\<lambda>e. ce_name e = name) registry"

definition cmd_get_all :: "command_entry list \<Rightarrow> command_entry list \<times> nat" where
  "cmd_get_all registry = (registry, length registry)"

section \<open>Built-in commands\<close>

text \<open>The target of \<open>cd\<close>, or the error message.\<close>

definition cd_target :: "string list \<Rightarrow> 'd world \<Rightarrow> path option" where
  "cd_target args w =
     (if length args < 2 then Some (home (w_state w))
      else if args ! 1 = ''-'' then env_get (w_env w) ''OLDPWD''
      else if args ! 1 \<noteq> [] \<and> hd (args ! 1) = CHR ''~''
      then Some (snprintf_buf 1024 (home (w_state w) @ tl (args ! 1)))
      else Some (args ! 1))"

definition cmd_cd :: "shell_sys \<Rightarrow> string list \<Rightarrow> 'd world \<Rightarrow> (int \<times> 'd world) res" where
  "cmd_cd sy args w =
     (case cd_target args w of
        None \<Rightarrow> Inr (1, say [Err ''cd: OLDPWD not set'' []] w)
      | Some target \<Rightarrow>
          let oldpwd = getcwd 1024 w in
          (case sy_chdir sy (w_wd w) target of
             Inl msg \<Rightarrow> Inr (1, say [Err ''cd: %s: %s'' [target, msg]] w)
           | Inr wd \<Rightarrow>
               let w1 = w\<lparr>w_wd := wd\<rparr> in
               (case (oldpwd, getcwd 1024 w1) of
                  (Some old, Some new) \<Rightarrow>
                    Inr (0, w1\<lparr>w_env := setenv ''PWD'' new (setenv ''OLDPWD'' old (w_env w)),
                      w_state := (w_state w)\<lparr>cwd := new\<rparr>\<rparr>)
                | _ \<Rightarrow> Inl EUndefined)))"

definition cmd_exit :: "string list \<Rightarrow> 'd world \<Rightarrow> (int \<times> 'd world) res" where
  "cmd_exit args w =
     (let s = (w_state w)\<lparr>running := False\<rparr> in
      if length args > 1
      then Inr (atoi (args ! 1), w\<lparr>w_state := s\<lparr>last_exit_code := atoi (args ! 1)\<rparr>\<rparr>)
      else Inr (last_exit_code s, w\<lparr>w_state := s\<rparr>))"

definition cat_names :: "(command_category \<times> string) list" where
  "cat_names = [(CAT_BUILTIN, ''BUILTIN''), (CAT_CRYPTO, ''CRYPTO''), (CAT_SESSION, ''SESSION''), (CAT_SYSTEM, ''SYSTEM'')]"

definition help_category :: "command_entry list \<Rightarrow> command_category \<times> string \<Rightarrow> message list" where
  "help_category registry c =
     [Out ''%s'' [snd c]] @
     map (\<lambda>e. Out ''%-18s %s'' [ce_name e, ce_help e]) (filter (\<lambda>e. ce_category e = fst c) registry) @
     [Out [] []]"

definition cmd_help :: "command_entry list \<Rightarrow> string list \<Rightarrow> 'd world \<Rightarrow> int \<times> 'd world" where
  "cmd_help registry args w =
     (if length args > 1
      then (0, say [case cmd_find registry (args ! 1) of
                      Some e \<Rightarrow> Out ''%s - %s'' [ce_name e, ce_help e]
                    | None \<Rightarrow> Out ''Unknown command: %s'' [args ! 1]] w)
      else (0, say ([Out ''SecureZ+ Shell Commands'' []] @ concat (map (help_category registry) cat_names) @
                    [Out ''Use help <command> for details.'' [], Out ''External commands (ls, cat, etc.) work normally.'' []]) w))"

definition cmd_pwd :: "'d world \<Rightarrow> int \<times> 'd world" where
  "cmd_pwd w = (0, say [Out ''%s'' [cwd (w_state w)]] w)"

definition cmd_echo :: "string list \<Rightarrow> 'd world \<Rightarrow> int \<times> 'd world" where
  "cmd_echo args w =
     (0, say (map (\<lambda>i. Out ''%s%s'' [args ! i, if i < length args - 1 then '' '' else []]) [1..<length args] @
              [Out [CHR 0x0A] []]) w)"

definition cmd_clear :: "'d world \<Rightarrow> int \<times> 'd world" where
  "cmd_clear w = (0, say [Out (CHR 0x1B # ''[2J'' @ CHR 0x1B # ''[H'') []] w)"

text \<open>One argument of \<open>export\<close>.\<close>

definition export_arg :: "string \<Rightarrow> 'd world \<Rightarrow> 'd world" where
  "export_arg arg w =
     (case strchr arg (CHR ''='') of
        Some eq \<Rightarrow> w\<lparr>w_env := setenv (take (length arg - length eq) arg) (tl eq) (w_env w)\<rparr>
      | None \<Rightarrow>
          (case env_get (w_env w) arg of
             Some val \<Rightarrow> say [Out ''%s=%s'' [arg, val]] w
           | None \<Rightarrow> w))"

definition cmd_export :: "shell_sys \<Rightarrow> string list \<Rightarrow> 'd world \<Rightarrow> int \<times> 'd world" where
  "cmd_export sy args w =
     (if length args < 2
      then (0, say (map (\<lambda>e. Out ''%s'' [e]) (sy_environ sy (w_env w))) w)
      else (0, fold export_arg (tl args) w))"

definition cmd_history_cmd :: "'d world \<Rightarrow> int \<times> 'd world" where
  "cmd_history_cmd w =
     (0, say (map (\<lambda>i. Out ''%4d  %s'' [fmt_nat (i + 1), w_history w ! i]) [0..<length (w_history w)]) w)"

text \<open>The tokens that \<open>strtok(s, ":")\<close> yields one after the other: the non-empty pieces.\<close>

function strtok_all :: "char \<Rightarrow> string \<Rightarrow> string list" where
  "strtok_all d s =
     (case dropWhile (\<lambda>c. c = d) s of
        [] \<Rightarrow> []
      | c # cs \<Rightarrow>
          (c # takeWhile (\<lambda>x. x \<noteq> d) cs) # strtok_all d (dropWhile (\<lambda>x. x \<noteq> d) cs))"
  by pat_completeness auto
termination
proof (relation "measure (\<lambda>(d, s). length s)")
  show "((d, dropWhile (\<lambda>x. x \<noteq> d) cs), d, s) \<in> measure (\<lambda>(d, s). length s)"
    if "dropWhile (\<lambda>c. c = d) s = c # cs" for d s c cs
    using that length_dropWhile_le [of "\<lambda>c. c = d" s] length_dropWhile_le [of "\<lambda>x. x \<noteq> d" cs] by simp
qed simp

declare strtok_all.simps [simp del]

definition type_names :: "command_category \<Rightarrow> string" where
  "type_names c =
     (case c of CAT_BUILTIN \<Rightarrow> ''builtin'' | CAT_CRYPTO \<Rightarrow> ''crypto'' | CAT_SESSION \<Rightarrow> ''session'' | CAT_SYSTEM \<Rightarrow> ''system'')"

definition full_name :: "string \<Rightarrow> path \<Rightarrow> path" where
  "full_name name dir = snprintf_buf 1024 (dir @ ''/'' @ name)"

definition cmd_type :: "shell_sys \<Rightarrow> command_entry list \<Rightarrow> string list \<Rightarrow> 'd world \<Rightarrow> int \<times> 'd world" where
  "cmd_type sy registry args w =
     (if length args < 2 then (1, say [Err ''type: missing argument'' []] w)
      else case cmd_find registry (args ! 1) of
        Some e \<Rightarrow> (0, say [Out ''%s is a shell %s'' [args ! 1, type_names (ce_category e)]] w)
      | None \<Rightarrow>
          (case env_get (w_env w) ''PATH'' of
             None \<Rightarrow> (1, say [Out ''%s: not found'' [args ! 1]] w)
           | Some p \<Rightarrow>
               (case find (\<lambda>full. sy_access sy full X_OK) (map (full_name (args ! 1)) (strtok_all (CHR '':'') p)) of
                  Some full \<Rightarrow> (0, say [Out ''%s is %s'' [args ! 1, full]] w)
                | None \<Rightarrow> (1, say [Out ''%s: not found'' [args ! 1]] w))))"

definition cmd_alias :: "string list \<Rightarrow> 'd world \<Rightarrow> int \<times> 'd world" where
  "cmd_alias args w =
     (if length args < 2 then (0, say [Out ''(aliases not yet persistent)'' []] w)
      else if strchr (args ! 1) (CHR ''='') = None then (1, say [Out ''Usage: alias name=value'' []] w)
      else (0, say [Out ''Alias set (session only): %s'' [args ! 1]] w))"

section \<open>Status commands\<close>

definition on_off :: "string \<Rightarrow> bool \<Rightarrow> string \<Rightarrow> string \<Rightarrow> message" where
  "on_off label b yes no = Out ''%-24s %s'' [label, if b then yes else no]"

definition ptrace_str :: "int \<Rightarrow> string" where
  "ptrace_str p =
     (if p = 0 then ''UNRESTRICTED (0)'' else if p = 1 then ''parent-only (1)''
      else if p = 2 then ''admin-only (2)'' else if p = 3 then ''DISABLED (3)'' else ''unknown'')"

abbreviation (input) MB :: u64 where "MB \<equiv> 1024 * 1024"

definition status_vpn :: "shell_sys \<Rightarrow> bool" where
  "status_vpn sy \<longleftrightarrow> sy_access sy ''/sys/class/net/wg0'' F_OK \<or> sy_access sy ''/sys/class/net/tun0'' F_OK"

definition cmd_status :: "shell_sys \<Rightarrow> 'd world \<Rightarrow> int \<times> 'd world" where
  "cmd_status sy w =
     (let ptrace = (case sy_file sy ''/proc/sys/kernel/yama/ptrace_scope'' of None \<Rightarrow> 0 | Some t \<Rightarrow> atoi t) in
      (0, say ([Out ''SecureZ+ Security Status'' [],
         on_off ''Firewall (nftables):'' (sy_system sy ''nft list ruleset > /dev/null 2>&1'' = 0) ''ACTIVE'' ''INACTIVE'',
         on_off ''Tor Proxy:'' (sy_system sy ''systemctl is-active tor > /dev/null 2>&1'' = 0) ''ACTIVE'' ''inactive'',
         on_off ''VPN:'' (status_vpn sy) ''CONNECTED'' ''disconnected'',
         on_off ''Encrypted DNS:'' (sy_system sy ''systemctl is-active dnscrypt-proxy > /dev/null 2>&1'' = 0) ''ACTIVE'' ''INACTIVE'',
         on_off ''CrypticEngine Daemon:'' (sy_access sy ''/run/crypticd.sock'' F_OK) ''RUNNING'' ''STOPPED'',
         on_off ''AppArmor:'' (sy_system sy ''aa-enabled > /dev/null 2>&1'' = 0) ''ENFORCING'' ''disabled'',
         on_off ''Disk Encryption (LUKS):'' (sy_system sy ''lsblk -o TYPE | grep -q crypt 2>/dev/null'' = 0) ''ENCRYPTED'' ''not detected'',
         Out ''%-24s %s'' [''Ptrace Protection:'', ptrace_str ptrace],
         Out ''Memory'' []] @
         (case sy_sysinfo sy of
            None \<Rightarrow> []
          | Some si \<Rightarrow>
              [Out ''%-24s %lu MB / %lu MB''
                 [''RAM Used:'', fmt_nat (unat ((si_totalram si - si_freeram si) div MB)), fmt_nat (unat (si_totalram si div MB))]]) @
         [Out [] []]) w))"

text \<open>A \<open>long\<close> that is assigned to an \<open>int\<close>.\<close>

definition to_int :: "int \<Rightarrow> int" where
  "to_int i = (i + 2 ^ 31) mod 2 ^ 32 - 2 ^ 31"

text \<open>The three numbers of the uptime; the division of C rounds to zero.\<close>

definition uptime_parts :: "int \<Rightarrow> int \<times> int \<times> int" where
  "uptime_parts uptime = (to_int (uptime sdiv 86400), (uptime smod 86400) sdiv 3600, (uptime smod 3600) sdiv 60)"

text \<open>The results of \<open>uname\<close> and \<open>sysinfo\<close> are not checked.\<close>

definition cmd_sysinfo :: "shell_sys \<Rightarrow> 'd world \<Rightarrow> (int \<times> 'd world) res" where
  "cmd_sysinfo sy w =
     (case (sy_uname sy, sy_sysinfo sy) of
        (Some uts, Some si) \<Rightarrow>
          (case uptime_parts (si_uptime si) of (days, hours, mins) \<Rightarrow>
            Inr (0, say
              [Out ''SecureZ+ OS v1.0 (Fortress)'' [], Out ''System'' [],
               Out ''%-18s %s'' [''OS:'', ''SecureZ+ 1.0 (Fortress)''],
               Out ''%-18s %s %s'' [''Kernel:'', uts_sysname uts, uts_release uts],
               Out ''%-18s %s'' [''Arch:'', uts_machine uts],
               Out ''%-18s %s'' [''Hostname:'', uts_nodename uts],
               Out ''%-18s %dd %dh %dm'' [''Uptime:'', fmt_d days, fmt_d hours, fmt_d mins],
               Out ''Memory'' [],
               Out ''%-18s %lu MB'' [''Total:'', fmt_nat (unat (si_totalram si div MB))],
               Out ''%-18s %lu MB'' [''Used:'', fmt_nat (unat ((si_totalram si - si_freeram si) div MB))],
               Out ''%-18s %lu MB'' [''Free:'', fmt_nat (unat (si_freeram si div MB))],
               Out ''%-18s %lu MB'' [''Swap:'', fmt_nat (unat (si_totalswap si div MB))],
               Out ''Processor'' [], Out ''%-18s %ld cores'' [''CPUs:'', fmt_d (sy_nproc sy)],
               Out ''Shell'' [], Out ''%-18s SecureZ Shell (szshell)'' [''Shell:''],
               Out ''%-18s CrypticEngine v1.0'' [''Security Engine:''], Out [] []] w))
      | _ \<Rightarrow> Inl EUndefined)"

section \<open>Calling a handler\<close>

definition run_handler ::
  "shell_sys \<Rightarrow> client_env \<Rightarrow> 'd server \<Rightarrow> command_entry list \<Rightarrow> cmd_handler \<Rightarrow> string list \<Rightarrow> 'd world \<Rightarrow> (int \<times> 'd world) res" where
  "run_handler sy v serve registry h args w =
     (case h of
        H_cd \<Rightarrow> cmd_cd sy args w
      | H_exit \<Rightarrow> cmd_exit args w
      | H_help \<Rightarrow> Inr (cmd_help registry args w)
      | H_pwd \<Rightarrow> Inr (cmd_pwd w)
      | H_echo \<Rightarrow> Inr (cmd_echo args w)
      | H_clear \<Rightarrow> Inr (cmd_clear w)
      | H_export \<Rightarrow> Inr (cmd_export sy args w)
      | H_history \<Rightarrow> Inr (cmd_history_cmd w)
      | H_type \<Rightarrow> Inr (cmd_type sy registry args w)
      | H_alias \<Rightarrow> Inr (cmd_alias args w)
      | H_encrypt \<Rightarrow> Inr (cmd_encrypt v serve args w)
      | H_decrypt \<Rightarrow> Inr (cmd_decrypt v serve args w)
      | H_lock \<Rightarrow> Inr (cmd_lock v serve args w)
      | H_unlock \<Rightarrow> Inr (cmd_unlock v serve args w)
      | H_hash \<Rightarrow> Inr (cmd_hash v serve args w)
      | H_wipe \<Rightarrow> Inr (cmd_wipe v serve args w)
      | H_vault \<Rightarrow> Inr (cmd_vault v serve args w)
      | H_securesession \<Rightarrow> Inr (cmd_securesession v serve args w)
      | H_run_nxe \<Rightarrow> Inr (cmd_run_nxe v serve (sy_run sy (args ! 1)) args w)
      | H_status \<Rightarrow> Inr (cmd_status sy w)
      | H_sysinfo \<Rightarrow> cmd_sysinfo sy w)"

text \<open>A system without VPN, sockets or programs, where every directory can be entered.\<close>

definition sys0 :: shell_sys where
  "sys0 = \<lparr>sy_chdir = (\<lambda>from d. Inr (Some d)), sy_access = (\<lambda>p m. False), sy_environ = (\<lambda>e. []),
     sy_system = (\<lambda>c. 1), sy_file = (\<lambda>p. None), sy_socket = False, sy_connect = (\<lambda>a p. False),
     sy_sysinfo = None, sy_uname = None, sy_nproc = 1,
     sy_run = (\<lambda>p. \<lparr>ru_readable = False, ru_fork = -1, ru_status = None\<rparr>)\<rparr>"

section \<open>The registry is complete and unambiguous\<close>

definition all_commands :: "command_entry list" where
  "all_commands = map (\<lambda>(name, h, help, cat). \<lparr>ce_name = name, ce_handler = h, ce_help = help, ce_category = cat\<rparr>) registrations"

lemma reg_fold:
  "length es + length rs \<le> 64 \<Longrightarrow>
   fold (\<lambda>(name, h, help, cat). reg name h help cat) rs (Inr es) =
   Inr (es @ map (\<lambda>(name, h, help, cat). \<lparr>ce_name = name, ce_handler = h, ce_help = help, ce_category = cat\<rparr>) rs)"
  by (induction rs arbitrary: es) (auto simp: reg_def)

lemma cmd_register_all_eq: "cmd_register_all = Inr all_commands"
  using reg_fold [of "[]" registrations] by (simp add: cmd_register_all_def all_commands_def registrations_def)

lemma registry_names:
  "map ce_name all_commands =
     [''cd'', ''exit'', ''help'', ''pwd'', ''echo'', ''clear'', ''export'', ''history'', ''type'', ''alias'', ''encrypt'',
      ''decrypt'', ''lock'', ''unlock'', ''hash'', ''wipe'', ''vault'', ''securesession'', ''run'', ''status'', ''sysinfo'']"
  by (simp add: all_commands_def registrations_def)

lemma registry_distinct: "distinct (map ce_name all_commands)"
  unfolding registry_names by simp

lemma find_distinct:
  "distinct (map f xs) \<Longrightarrow> x \<in> set xs \<Longrightarrow> find (\<lambda>y. f y = f x) xs = Some x"
  by (induction xs) (auto simp: image_iff)

lemma cmd_find_registered: "e \<in> set all_commands \<Longrightarrow> cmd_find all_commands (ce_name e) = Some e"
  unfolding cmd_find_def by (rule find_distinct [OF registry_distinct])

lemma cmd_find_Some: "cmd_find r name = Some e \<Longrightarrow> e \<in> set r \<and> ce_name e = name"
  by (auto simp: cmd_find_def find_Some_iff)

section \<open>What the commands keep\<close>

lemma setenv_get [simp]: "name \<noteq> [] \<Longrightarrow> CHR ''='' \<notin> set name \<Longrightarrow> setenv name val e name = Some val"
  by (simp add: setenv_def)

lemma getcwd_Some: "getcwd n w = Some d \<Longrightarrow> w_wd w = Some d \<and> length d < n"
  by (auto simp: getcwd_def split: option.splits if_splits)

text \<open>Everything of the shell but its state, its environment and its working directory.\<close>

definition same_rest :: "'d world \<Rightarrow> 'd world \<Rightarrow> bool" where
  "same_rest w w' \<longleftrightarrow>
     w_history w' = w_history w \<and> w_pipes w' = w_pipes w \<and> w_npipes w' = w_npipes w \<and> length (w_stdin w') \<le> length (w_stdin w)"

lemma same_rest_intros [simp]:
  "same_rest w w" "same_rest w (say ms w)" "same_rest w (w\<lparr>w_env := e\<rparr>)" "same_rest w (w\<lparr>w_state := s\<rparr>)"
  "same_rest w (w\<lparr>w_wd := d, w_state := s, w_env := e\<rparr>)"
  by (simp_all add: same_rest_def)

lemma same_shell_rest: "same_shell w w' \<Longrightarrow> w_state w' = w_state w \<and> same_rest w w'"
  by (simp add: same_shell_def same_rest_def)

lemma export_keeps: "w_state (fold export_arg as w) = w_state w \<and> same_rest w (fold export_arg as w)"
proof (induction as arbitrary: w)
  case (Cons a as)
  have "w_state (export_arg a w) = w_state w \<and> same_rest w (export_arg a w)"
    by (simp add: export_arg_def split: option.splits)
  with Cons [of "export_arg a w"] show ?case by (auto simp: same_rest_def)
qed simp

lemma cmd_cd_cases:
  "cmd_cd sy args w = Inr (r, w') \<Longrightarrow>
   (r = 1 \<and> (\<exists>ms. w' = say ms w)) \<or>
   (r = 0 \<and> (\<exists>target old new. cd_target args w = Some target \<and> sy_chdir sy (w_wd w) target = Inr (Some new) \<and>
      w_wd w = Some old \<and> length old < 1024 \<and> length new < 1024 \<and>
      w' = w\<lparr>w_wd := Some new, w_env := setenv ''PWD'' new (setenv ''OLDPWD'' old (w_env w)),
             w_state := (w_state w)\<lparr>cwd := new\<rparr>\<rparr>))"
  by (auto simp: cmd_cd_def Let_def dest!: getcwd_Some split: option.splits sum.splits)

lemma prints_keep:
  "same_shell w (snd (cmd_help cs args w))" "same_shell w (snd (cmd_pwd w))" "same_shell w (snd (cmd_echo args w))"
  "same_shell w (snd (cmd_clear w))" "same_shell w (snd (cmd_history_cmd w))" "same_shell w (snd (cmd_type sy cs args w))"
  "same_shell w (snd (cmd_alias args w))" "same_shell w (snd (cmd_status sy w))"
  by (simp_all add: cmd_help_def cmd_pwd_def cmd_echo_def cmd_clear_def cmd_history_cmd_def cmd_type_def cmd_alias_def
      cmd_status_def Let_def fr.says split: option.splits)

lemmas client_keep = fr.crypto_commands_keep [OF same_shell_refl] fr.vault_keeps [OF same_shell_refl]
  fr.session_commands_keep [OF same_shell_refl]

text \<open>The handlers that leave the shell as it is.\<close>

lemma run_handler_same:
  assumes "run_handler sy v serve cs h args w = Inr (r, w')" "h \<notin> {H_cd, H_exit, H_export}"
  shows "same_shell w w'"
proof (cases "h = H_sysinfo")
  case True
  then show ?thesis
    using assms by (auto simp: run_handler_def cmd_sysinfo_def fr.says split: option.splits prod.splits)
next
  case False
  then have "\<exists>x. run_handler sy v serve cs h args w = Inr x \<and> same_shell w (snd x)"
    using assms(2) by (cases h) (simp_all add: run_handler_def prints_keep client_keep)
  with assms(1) show ?thesis by auto
qed

lemma run_handler_cases:
  assumes "run_handler sy v serve cs h args w = Inr (r, w')"
  shows "(state_ok (w_state w) \<longrightarrow> state_ok (w_state w')) \<and> same_rest w w'"
proof -
  consider "h = H_cd" | "h = H_exit" | "h = H_export" | "h \<notin> {H_cd, H_exit, H_export}" by blast
  then show ?thesis
  proof cases
    case 1
    with assms show ?thesis by (auto simp: run_handler_def state_ok_def same_rest_def dest!: cmd_cd_cases)
  next
    case 2
    with assms show ?thesis by (auto simp: run_handler_def cmd_exit_def state_ok_def Let_def split: if_splits)
  next
    case 3
    with assms export_keeps [of "tl args" w] show ?thesis
      by (auto simp: run_handler_def cmd_export_def split: if_splits)
  next
    case 4
    from same_shell_rest [OF run_handler_same [OF assms 4]] show ?thesis by simp
  qed
qed

lemmas run_handler_rest = run_handler_cases [THEN conjunct2]

lemma run_handler_keeps:
  assumes "run_handler sy v serve cs h args w = Inr (r, w')" "state_ok (w_state w)"
  shows "state_ok (w_state w') \<and> same_rest w w'"
  using run_handler_cases [OF assms(1)] assms(2) by blast

text \<open>A daemon with an invariant keeps it whatever handler is called.\<close>

lemma prints_daemon [simp]:
  "w_daemon (snd (cmd_help cs args w)) = w_daemon w" "w_daemon (snd (cmd_pwd w)) = w_daemon w"
  "w_daemon (snd (cmd_echo args w)) = w_daemon w" "w_daemon (snd (cmd_clear w)) = w_daemon w"
  "w_daemon (snd (cmd_history_cmd w)) = w_daemon w" "w_daemon (snd (cmd_type sy cs args w)) = w_daemon w"
  "w_daemon (snd (cmd_alias args w)) = w_daemon w" "w_daemon (snd (cmd_status sy w)) = w_daemon w"
  by (simp_all add: cmd_help_def cmd_pwd_def cmd_echo_def cmd_clear_def cmd_history_cmd_def cmd_type_def cmd_alias_def
      cmd_status_def Let_def split: option.splits)

lemma export_daemon [simp]: "w_daemon (snd (cmd_export sy args w)) = w_daemon w"
proof -
  have "w_daemon (fold export_arg as u) = w_daemon u" for as and u :: "'a world"
    by (induction as arbitrary: u) (simp_all add: export_arg_def split: option.splits)
  then show ?thesis by (simp add: cmd_export_def)
qed

lemma fallible_daemon:
  "cmd_cd sy args w = Inr (r, w') \<Longrightarrow> w_daemon w' = w_daemon w" "cmd_exit args w = Inr (r, w') \<Longrightarrow> w_daemon w' = w_daemon w"
  "cmd_sysinfo sy w = Inr (r, w') \<Longrightarrow> w_daemon w' = w_daemon w"
  by (auto simp: cmd_exit_def cmd_sysinfo_def Let_def dest!: cmd_cd_cases split: if_splits option.splits prod.splits)

context daemon_link
begin

lemma run_handler_inv:
  assumes "run_handler sy v serve cs h args w = Inr (r, w')" "inv (w_daemon w)"
  shows "inv (w_daemon w')"
proof (cases "h \<in> {H_cd, H_exit, H_sysinfo}")
  case True
  then show ?thesis using assms by (auto simp: run_handler_def fallible_daemon)
next
  case False
  then have "\<exists>x. run_handler sy v serve cs h args w = Inr x \<and> inv (w_daemon (snd x))"
    using assms(2)
    by (cases h) (simp_all add: run_handler_def crypto_commands_keep vault_keeps session_commands_keep)
  with assms(1) show ?thesis by auto
qed

end

section \<open>Variables\<close>

definition var_char :: "char \<Rightarrow> bool" where
  "var_char c \<longleftrightarrow> isalnum c \<or> c = CHR ''_''"

lemma var_char_plain: "var_char c \<Longrightarrow> c \<noteq> CHR 0x7B \<and> c \<noteq> CHR 0x7D \<and> c \<noteq> CHR ''?'' \<and> c \<noteq> CHR ''=''"
  by (auto simp: var_char_def isalnum_def isdigit_def)

lemma var_name_plain:
  assumes "name \<noteq> []" "\<forall>c \<in> set name. var_char c" "length name \<le> 255"
  shows "var_name name = (name, [])" "var_name (CHR 0x7B # name @ [CHR 0x7D]) = (name, [])"
proof -
  have "hd name \<noteq> CHR 0x7B" "hd name \<noteq> CHR ''?''" using assms(1,2) var_char_plain [of "hd name"] by auto
  moreover have tw: "takeWhile (\<lambda>c. isalnum c \<or> c = CHR ''_'') name = name"
    using assms(2) by (simp add: takeWhile_eq_all_conv var_char_def)
  ultimately show "var_name name = (name, [])" unfolding var_name_def Let_def tw using assms(1,3) by simp
  have "takeWhile (\<lambda>c. c \<noteq> CHR 0x7D) (name @ [CHR 0x7D]) = name"
    using assms(2) by (simp add: takeWhile_append2 var_char_plain)
  then show "var_name (CHR 0x7B # name @ [CHR 0x7D]) = (name, [])"
    using assms(3) by (simp add: var_name_def Let_def skip_char_def)
qed

lemma expand_one:
  assumes "var_name rest = (name, [])" "env_get e name = Some val" "length val < 4095"
  shows "expand_variables e (CHR ''$'' # rest) = Inr val"
proof -
  have "expand_from e (CHR ''$'' # rest) [] = expand_from e [] val"
    using assms by (subst expand_from.simps) simp
  then show ?thesis using expand_from.simps [of e "[]" val] by (simp add: expand_variables_def)
qed

text \<open>
  A variable set with \<open>export NAME=VALUE\<close> is expanded to exactly that value by the parser, both
  as \<open>$NAME\<close> and as \<open>${NAME}\<close>, whatever the value contains, if the name is a usual one of at most
  255 characters and the value is shorter than 4095 characters; other variables keep their values.
\<close>

theorem export_then_expand:
  assumes "name \<noteq> []" "\<forall>c \<in> set name. var_char c" "length name \<le> 255" "length val < 4095"
    and "cmd_export sy [''export'', name @ CHR ''='' # val] w = (r, w')"
  shows "r = 0 \<and> expand_variables (w_env w') (CHR ''$'' # name) = Inr val \<and>
    expand_variables (w_env w') (CHR ''$'' # CHR 0x7B # name @ [CHR 0x7D]) = Inr val \<and>
    (\<forall>other. other \<noteq> name \<longrightarrow> w_env w' other = w_env w other)"
proof -
  have eq: "CHR ''='' \<notin> set name" using assms(2) var_char_plain by blast
  then have "w_env w' = (w_env w)(name \<mapsto> val)" "r = 0"
    using assms(1,5) by (auto simp: cmd_export_def export_arg_def setenv_def)
  moreover from this assms(1) have "env_get (w_env w') name = Some val" by (simp add: env_get_def)
  ultimately show ?thesis
    using expand_one [OF var_name_plain(1) [OF assms(1-3)]] expand_one [OF var_name_plain(2) [OF assms(1-3)]] assms(4)
    by simp
qed

theorem export_then_expand_witness:
  "expand_variables (w_env (snd (cmd_export sys0 [''export'', ''X_1=a b=c''] (world0 [] ())))) ''$X_1'' = Inr ''a b=c''"
  using export_then_expand [of "''X_1''" "''a b=c''" sys0 "world0 [] ()" 0
      "snd (cmd_export sys0 [''export'', ''X_1=a b=c''] (world0 [] ()))"]
  by (simp add: var_char_def isalnum_def isdigit_def cmd_export_def prod_eq_iff)

section \<open>Changing directories\<close>

text \<open>
  What \<open>chdir\<close> promises for the absolute name of a directory that is still there.
\<close>

definition chdir_back :: "shell_sys \<Rightarrow> path \<Rightarrow> bool" where
  "chdir_back sy d \<longleftrightarrow> (\<forall>from. sy_chdir sy from d = Inr (Some d))"

text \<open>
  After a successful \<open>cd\<close> the state, the variable \<open>PWD\<close> and the process agree on the working
  directory; if the old directory can still be entered, \<open>cd -\<close> goes back to it, with all three
  as before, and a second \<open>cd -\<close> returns to the new one.
\<close>

theorem cd_minus_returns:
  assumes "cmd_cd sy args w = Inr (0, w1)" "w_wd w = Some old" "chdir_back sy old" "w_wd w1 = Some new" "chdir_back sy new"
  shows "cwd (w_state w1) = new \<and> w_env w1 ''PWD'' = Some new \<and>
    (\<exists>w2. cmd_cd sy [''cd'', ''-''] w1 = Inr (0, w2) \<and> w_wd w2 = Some old \<and> cwd (w_state w2) = old \<and>
      w_env w2 ''PWD'' = Some old \<and>
      (\<exists>w3. cmd_cd sy [''cd'', ''-''] w2 = Inr (0, w3) \<and> w_wd w3 = Some new \<and> cwd (w_state w3) = new))"
proof -
  have step: "cmd_cd sy [''cd'', ''-''] u =
      Inr (0, u\<lparr>w_wd := Some b, w_env := setenv ''PWD'' b (setenv ''OLDPWD'' a (w_env u)), w_state := (w_state u)\<lparr>cwd := b\<rparr>\<rparr>)"
    if "w_env u ''OLDPWD'' = Some b" "w_wd u = Some a" "length a < 1024" "length b < 1024" "chdir_back sy b" for u :: "'a world" and a b
    using that by (simp add: cmd_cd_def cd_target_def env_get_def getcwd_def chdir_back_def)
  from cmd_cd_cases [OF assms(1)] assms(2,4) have len: "length old < 1024" "length new < 1024"
    and w1: "w1 = w\<lparr>w_wd := Some new, w_env := setenv ''PWD'' new (setenv ''OLDPWD'' old (w_env w)),
             w_state := (w_state w)\<lparr>cwd := new\<rparr>\<rparr>" by auto
  then have "w_env w1 ''OLDPWD'' = Some old" "cwd (w_state w1) = new" "w_env w1 ''PWD'' = Some new"
    by (simp_all add: setenv_def)
  moreover note w2 = step [of w1 old new, OF this(1) assms(4) len(2,1) assms(3)]
  moreover define w2' where "w2' = w1\<lparr>w_wd := Some old, w_env := setenv ''PWD'' old (setenv ''OLDPWD'' new (w_env w1)),
      w_state := (w_state w1)\<lparr>cwd := old\<rparr>\<rparr>"
  moreover have "w_env w2' ''OLDPWD'' = Some new" "w_wd w2' = Some old" "cwd (w_state w2') = old" "w_env w2' ''PWD'' = Some old"
    by (simp_all add: w2'_def setenv_def)
  moreover note step [of w2' new old, OF this(1,2) len assms(5)]
  ultimately show ?thesis by auto
qed

theorem cd_minus_returns_witness:
  "\<exists>w1 w2. cmd_cd sys0 [''cd'', ''/tmp''] (world0 [] ()) = Inr (0, w1) \<and> cwd (w_state w1) = ''/tmp'' \<and>
     cmd_cd sys0 [''cd'', ''-''] w1 = Inr (0, w2) \<and> cwd (w_state w2) = ''/home/ann''"
proof -
  let ?w1 = "snd (projr (cmd_cd sys0 [''cd'', ''/tmp''] (world0 [] ())))"
  have "cmd_cd sys0 [''cd'', ''/tmp''] (world0 [] ()) = Inr (0, ?w1)" "w_wd ?w1 = Some ''/tmp''"
    by (simp_all add: cmd_cd_def cd_target_def getcwd_def sys0_def world0_def state0_def)
  moreover have "chdir_back sys0 d" for d by (simp add: chdir_back_def sys0_def)
  moreover have "w_wd (world0 [] ()) = Some ''/home/ann''" by (simp add: world0_def state0_def)
  ultimately show ?thesis using cd_minus_returns [of sys0 "[''cd'', ''/tmp'']" "world0 [] ()" ?w1 "''/home/ann''" "''/tmp''"]
    by blast
qed

section \<open>Uptime\<close>

lemma to_int_id: "int_range i \<Longrightarrow> to_int i = i"
  by (simp add: to_int_def int_range_def)

lemma signed_nonneg: "0 \<le> a \<Longrightarrow> 0 < b \<Longrightarrow> a sdiv b = a div b" "0 \<le> a \<Longrightarrow> 0 < b \<Longrightarrow> a smod b = a mod b" for a b :: int
  by (cases "a = 0"; simp add: signed_divide_int_def signed_modulo_int_def)+

lemma uptime_exact:
  assumes "0 \<le> t" "t < 86400 * 2 ^ 31" "uptime_parts t = (d, h, m)"
  shows "0 \<le> h \<and> h < 24 \<and> 0 \<le> m \<and> m < 60 \<and> (\<exists>s. 0 \<le> s \<and> s < 60 \<and> t = 86400 * d + 3600 * h + 60 * m + s)"
proof -
  have "0 \<le> t div 86400" "t div 86400 < 2 ^ 31" using assms(1,2) by (simp_all add: div_less_iff_less_mult)
  then have "int_range (t div 86400)" by (simp add: int_range_def)
  then have p: "d = t div 86400" "h = t mod 86400 div 3600" "m = t mod 3600 div 60"
    using assms(1,3) by (simp_all add: uptime_parts_def to_int_id signed_nonneg)
  let ?a = "t mod 86400"
  let ?b = "t mod 3600"
  have b: "?b = ?a mod 3600" by (simp add: mod_mod_cancel)
  have "t = 86400 * d + ?a" "?a = 3600 * h + ?b" "?b = 60 * m + ?b mod 60"
    unfolding b p by (simp_all add: b)
  moreover have "0 \<le> ?a" "?a < 86400" "0 \<le> ?b" "?b < 3600" "0 \<le> ?b mod 60" "?b mod 60 < 60" by simp_all
  moreover have "0 \<le> h" "0 \<le> m" unfolding p by (simp_all add: pos_imp_zdiv_nonneg_iff)
  ultimately show ?thesis by (intro conjI exI [of _ "?b mod 60"]) linarith+
qed

end
