(* ===== verification/Shell_Prompt.thy ===== *)
theory Shell_Prompt
  imports Shell_Builtins
begin

text \<open>
  \<open>shell/src/prompt.c\<close>: what the shell finds out about its surroundings before every prompt, and
  the prompt itself, byte by byte with its colours, since its length matters. \<open>strdup\<close> is taken to
  succeed.
\<close>

section \<open>The branch of the enclosing repository\<close>

text \<open>The first line of \<open>.git/HEAD\<close> and what is taken from it; \<open>len\<close> is the size of the buffer.\<close>

definition head_branch :: "nat \<Rightarrow> string \<Rightarrow> string res" where
  "head_branch len line =
     (if is_prefix ''ref: refs/heads/'' line
      then Inr (take (len - 1) (strip_newline (drop (length ''ref: refs/heads/'') line)))
      else
        let hash_len = (if length line > 8 then 7 else length line) in
        if hash_len = 0 then Inl EUndefined
        else Inr (take (if line ! (hash_len - 1) = CHR 0x0A then hash_len - 1 else hash_len) line))"

text \<open>One directory up, unless the only slash is the first character.\<close>

definition parent_dir :: "path \<Rightarrow> path option" where
  "parent_dir d =
     (case strrchr d (CHR ''/'') of
        None \<Rightarrow> None
      | Some last_slash \<Rightarrow> if length last_slash = length d then None else Some (take (length d - length last_slash) d))"

lemma strrchr_Some: "strrchr s c = Some t \<Longrightarrow> \<exists>u. s = u @ t \<and> t \<noteq> [] \<and> hd t = c \<and> c \<notin> set (tl t)"
proof (induction s arbitrary: t)
  case (Cons d ds)
  show ?case
  proof (cases "strrchr ds c")
    case None
    have "strrchr ds c = None \<longleftrightarrow> c \<notin> set ds" by (induction ds) (auto split: option.splits)
    with None Cons.prems show ?thesis by (auto split: if_splits)
  next
    case (Some a)
    with Cons.prems Cons.IH [OF Some] show ?thesis by auto
  qed
qed simp

lemma parent_shorter: "parent_dir d = Some p \<Longrightarrow> length p < length d"
  by (auto simp: parent_dir_def dest!: strrchr_Some split: option.splits if_splits)

function git_loop :: "shell_sys \<Rightarrow> nat \<Rightarrow> path \<Rightarrow> string option res" where
  "git_loop sy len dir =
     (case (case sy_file sy (snprintf_buf 1024 (dir @ ''/.git/HEAD'')) of None \<Rightarrow> None | Some t \<Rightarrow> fgets 256 t) of
        Some (line, _) \<Rightarrow>
          (case head_branch len (cstr line) of Inl e \<Rightarrow> Inl e | Inr b \<Rightarrow> Inr (Some b))
      | None \<Rightarrow>
          (case parent_dir dir of None \<Rightarrow> Inr None | Some up \<Rightarrow> git_loop sy len up))"
  by pat_completeness auto
termination
  by (relation "measure (\<lambda>(sy, len, dir). length dir)") (auto dest: parent_shorter)

declare git_loop.simps [simp del]

definition detect_git_branch :: "shell_sys \<Rightarrow> nat \<Rightarrow> 'd world \<Rightarrow> string option res" where
  "detect_git_branch sy len w =
     (case getcwd 1024 w of None \<Rightarrow> Inr None | Some dir \<Rightarrow> git_loop sy len dir)"

section \<open>The environment\<close>

definition detect_tor :: "shell_sys \<Rightarrow> bool" where
  "detect_tor sy = (if \<not> sy_socket sy then False else sy_connect sy ''127.0.0.1'' 9040)"

definition detect_vpn :: "shell_sys \<Rightarrow> bool" where
  "detect_vpn sy \<longleftrightarrow>
     sy_access sy ''/sys/class/net/wg0'' F_OK \<or> sy_access sy ''/sys/class/net/tun0'' F_OK \<or>
     sy_access sy ''/sys/class/net/nordlynx'' F_OK"

text \<open>\<open>check_counter\<close> is the static counter of the function, an \<open>int\<close> that only grows.\<close>

definition detect_environment :: "shell_sys \<Rightarrow> int \<Rightarrow> 'd world \<Rightarrow> (int \<times> 'd world) res" where
  "detect_environment sy check_counter w =
     (case getcwd 1024 w of
        None \<Rightarrow> Inl EUndefined
      | Some dir \<Rightarrow>
          (case detect_git_branch sy 64 w of
             Inl e \<Rightarrow> Inl e
           | Inr found \<Rightarrow>
               let s = (w_state w)\<lparr>cwd := dir, in_secure_session := (env_get (w_env w) ''SECUREZ_SESSION'' = Some ''1''),
                     git_branch := (case found of None \<Rightarrow> [] | Some b \<Rightarrow> b)\<rparr>;
                   s' = (if check_counter mod 10 = 0
                         then s\<lparr>tor_active := detect_tor sy, vpn_active := detect_vpn sy\<rparr> else s) in
               if int_range (check_counter + 1) then Inr (check_counter + 1, w\<lparr>w_state := s'\<rparr>)
               else Inl EUndefined))"

section \<open>The prompt\<close>

definition colour :: "string \<Rightarrow> string" where
  "colour code = [CHR 0x01, CHR 0x1B, CHR ''[''] @ code @ [CHR ''m'', CHR 0x02]"

abbreviation (input) C_RESET :: string where "C_RESET \<equiv> colour ''0''"
abbreviation (input) C_DIM :: string where "C_DIM \<equiv> colour ''2''"
abbreviation (input) C_RED :: string where "C_RED \<equiv> colour ''31''"
abbreviation (input) C_GREEN :: string where "C_GREEN \<equiv> colour ''32''"
abbreviation (input) C_YELLOW :: string where "C_YELLOW \<equiv> colour ''33''"
abbreviation (input) C_BLUE :: string where "C_BLUE \<equiv> colour ''34''"
abbreviation (input) C_CYAN :: string where "C_CYAN \<equiv> colour ''36''"
abbreviation (input) C_BRED :: string where "C_BRED \<equiv> colour ''1;31''"
abbreviation (input) C_BGREEN :: string where "C_BGREEN \<equiv> colour ''1;32''"
abbreviation (input) C_BYELLOW :: string where "C_BYELLOW \<equiv> colour ''1;33''"
abbreviation (input) C_BCYAN :: string where "C_BCYAN \<equiv> colour ''1;36''"

text \<open>The box characters and the two symbols, in UTF-8.\<close>

definition dash :: string where "dash = [CHR 0xE2, CHR 0x94, CHR 0x80]"
definition top_corner :: string where "top_corner = [CHR 0xE2, CHR 0x94, CHR 0x8C] @ dash @ dash"
definition bottom_corner :: string where "bottom_corner = [CHR 0xE2, CHR 0x94, CHR 0x94] @ dash @ dash @ [CHR 0xE2, CHR 0x95, CHR 0xBC]"
definition padlock :: string where "padlock = [CHR 0xF0, CHR 0x9F, CHR 0x94, CHR 0x92]"
definition shield :: string where "shield = [CHR 0xF0, CHR 0x9F, CHR 0x9B, CHR 0xA1, CHR 0xEF, CHR 0xB8, CHR 0x8F]"

definition shorten_path :: "path \<Rightarrow> path \<Rightarrow> string" where
  "shorten_path dir hm =
     (if is_prefix hm dir then snprintf_buf 512 (''~'' @ drop (length hm) dir) else strncpy_buf 512 dir)"

text \<open>The texts of the calls of \<open>snprintf\<close>, in order.\<close>

definition prompt_head :: "shell_state \<Rightarrow> string" where
  "prompt_head s =
     (let dir = shorten_path (cwd s) (home s); sep = C_DIM @ dash @ C_RESET in
      if in_secure_session s
      then C_BYELLOW @ top_corner @ ''['' @ padlock @ '' SECURE]'' @ C_RESET @ sep @
           C_BYELLOW @ ''['' @ C_RESET @ user s @ ''@session'' @ C_BYELLOW @ '']'' @ C_RESET @ sep @
           C_CYAN @ ''['' @ dir @ '']'' @ C_RESET
      else if is_root s
      then C_BRED @ top_corner @ ''['' @ shield @ '' SecureZ+]'' @ C_RESET @ sep @
           C_BRED @ ''['' @ C_RESET @ C_RED @ ''root'' @ C_RESET @ ''@'' @ hostname s @ C_BRED @ '']'' @ C_RESET @ sep @
           C_RED @ ''['' @ dir @ '']'' @ C_RESET
      else C_BCYAN @ top_corner @ ''['' @ shield @ '' SecureZ+]'' @ C_RESET @ sep @
           C_BGREEN @ ''['' @ C_RESET @ user s @ ''@'' @ hostname s @ C_BGREEN @ '']'' @ C_RESET @ sep @
           C_CYAN @ ''['' @ dir @ '']'' @ C_RESET)"

definition indicator :: "string \<Rightarrow> string \<Rightarrow> string" where
  "indicator col t = C_DIM @ dash @ C_RESET @ col @ ''['' @ t @ '']'' @ C_RESET"

definition prompt_middle :: "shell_state \<Rightarrow> string list" where
  "prompt_middle s =
     (if git_branch s \<noteq> [] then [indicator C_BLUE (git_branch s)] else []) @
     (if tor_active s then [indicator C_YELLOW ''TOR''] else []) @
     (if vpn_active s then [indicator C_GREEN ''VPN''] else [])"

definition prompt_tail :: "shell_state \<Rightarrow> string" where
  "prompt_tail s =
     [CHR 0x0A] @ (if in_secure_session s then C_BYELLOW else if is_root s then C_BRED else C_BCYAN) @
     bottom_corner @ C_RESET @ (if \<not> in_secure_session s \<and> is_root s then '' # '' else '' $ '')"

text \<open>
  \<open>n = snprintf(p, remaining, \<dots>); p += n; remaining -= n;\<close> with the text in the buffer so far and
  the offset of \<open>p\<close>. A pointer beyond the end of the buffer is undefined.
\<close>

abbreviation (input) PROMPT_SIZE :: nat where "PROMPT_SIZE \<equiv> 2048"

definition prompt_put :: "string \<Rightarrow> (string \<times> nat) res \<Rightarrow> (string \<times> nat) res" where
  "prompt_put t b =
     (case b of
        Inl e \<Rightarrow> Inl e
      | Inr (buf, off) \<Rightarrow>
          if off + length t > PROMPT_SIZE then Inl EUndefined
          else Inr (buf @ take (PROMPT_SIZE - off - 1) t, off + length t))"

definition render_prompt :: "shell_state \<Rightarrow> string res" where
  "render_prompt s =
     (case fold prompt_put (prompt_head s # prompt_middle s) (Inr ([], 0)) of
        Inl e \<Rightarrow> Inl e
      | Inr (buf, off) \<Rightarrow> Inr (buf @ take (PROMPT_SIZE - off - 1) (prompt_tail s)))"

section \<open>The prompt fits\<close>

lemma length_colour [simp]: "length (colour c) = length c + 5"
  by (simp add: colour_def)

lemma length_symbols [simp]:
  "length dash = 3" "length top_corner = 9" "length bottom_corner = 12" "length padlock = 4" "length shield = 7"
  by (simp_all add: dash_def top_corner_def bottom_corner_def padlock_def shield_def)

lemma length_shorten_path: "length (shorten_path dir hm) < 512"
  by (simp add: shorten_path_def bounded_copy_length)

lemma length_prompt_head: "state_ok s \<Longrightarrow> length (prompt_head s) < 790"
  using length_shorten_path [of "cwd s" "home s"] by (simp add: prompt_head_def Let_def state_ok_def)

lemma length_prompt_middle: "state_ok s \<Longrightarrow> length (concat (prompt_middle s)) < 160"
  by (simp add: prompt_middle_def indicator_def state_ok_def)

lemma length_prompt_tail: "length (prompt_tail s) < 40"
  by (simp add: prompt_tail_def)

lemma fold_prompt_put:
  "length buf + length (concat ts) < PROMPT_SIZE \<Longrightarrow>
   fold prompt_put ts (Inr (buf, length buf)) = Inr (buf @ concat ts, length buf + length (concat ts))"
proof (induction ts arbitrary: buf)
  case (Cons t ts)
  then have "prompt_put t (Inr (buf, length buf)) = Inr (buf @ t, length (buf @ t))"
    by (simp add: prompt_put_def)
  with Cons.IH [of "buf @ t"] Cons.prems show ?case by simp
qed simp

lemma render_prompt_text:
  assumes "state_ok s"
  shows "render_prompt s = Inr (prompt_head s @ concat (prompt_middle s) @ prompt_tail s)"
    "length (prompt_head s @ concat (prompt_middle s) @ prompt_tail s) < 990"
proof -
  note len = length_prompt_head [OF assms] length_prompt_middle [OF assms] length_prompt_tail [of s]
  then have "length ([] :: string) + length (concat (prompt_head s # prompt_middle s)) < PROMPT_SIZE" by simp
  from fold_prompt_put [OF this] len
  show "render_prompt s = Inr (prompt_head s @ concat (prompt_middle s) @ prompt_tail s)"
    by (simp add: render_prompt_def)
  show "length (prompt_head s @ concat (prompt_middle s) @ prompt_tail s) < 990" using len by simp
qed

lemma head_branch_length: "head_branch 64 line = Inr b \<Longrightarrow> length b < 64"
  by (auto simp: head_branch_def Let_def split: if_splits)

lemma git_loop_length: "git_loop sy 64 dir = Inr (Some b) \<Longrightarrow> length b < 64"
proof (induction sy "64 :: nat" dir rule: git_loop.induct)
  case (1 sy dir)
  show ?case
  proof (cases "case sy_file sy (snprintf_buf 1024 (dir @ ''/.git/HEAD'')) of None \<Rightarrow> None | Some t \<Rightarrow> fgets 256 t")
    case None
    with 1 show ?thesis by (auto simp: git_loop.simps [of sy 64 dir] split: option.splits)
  next
    case (Some lr)
    with 1 show ?thesis
      by (cases lr) (auto simp: git_loop.simps [of sy 64 dir] dest: head_branch_length split: sum.splits)
  qed
qed

lemma detect_environment_Inr:
  assumes "detect_environment sy k w = Inr (k', w')"
  shows "k' = k + 1 \<and> (\<exists>dir found. w_wd w = Some dir \<and> length dir < 1024 \<and> detect_git_branch sy 64 w = Inr found \<and>
    cwd (w_state w') = dir \<and> git_branch (w_state w') = (case found of None \<Rightarrow> [] | Some b \<Rightarrow> b)) \<and>
    (\<exists>s. w' = w\<lparr>w_state := s\<rparr> \<and> user s = user (w_state w) \<and> hostname s = hostname (w_state w) \<and>
      home s = home (w_state w) \<and> running s = running (w_state w) \<and> last_exit_code s = last_exit_code (w_state w))"
proof -
  obtain dir where dir: "getcwd 1024 w = Some dir" using assms by (auto simp: detect_environment_def split: option.splits)
  obtain found where found: "detect_git_branch sy 64 w = Inr found"
    using assms dir by (auto simp: detect_environment_def split: sum.splits)
  show ?thesis
    using assms found getcwd_Some [OF dir] by (auto simp: detect_environment_def dir found Let_def split: if_splits)
qed

lemma detect_environment_ok:
  assumes "detect_environment sy k w = Inr (k', w')" "state_ok (w_state w)"
  shows "state_ok (w_state w')"
proof -
  have "length (git_branch (w_state w')) < 64"
    using detect_environment_Inr [OF assms(1)] git_loop_length
    by (auto simp: detect_git_branch_def split: option.splits)
  then show ?thesis using detect_environment_Inr [OF assms(1)] assms(2) by (auto simp: state_ok_def)
qed

text \<open>
  C32: The arrays of the state of the shell are never overrun between two prompts: after the
  environment was inspected the state still fits its arrays, the prompt that is rendered from it is
  complete, with every indicator that is active and nothing cut off, takes less than 990 of the 2048
  bytes of its buffer, and shows the working directory of the process.
\<close>

theorem prompt_complete:
  assumes "state_ok (w_state w)" "detect_environment sy k w = Inr (k', w')"
  shows "state_ok (w_state w') \<and> w_wd w' = Some (cwd (w_state w')) \<and>
    render_prompt (w_state w') =
      Inr (prompt_head (w_state w') @ concat (prompt_middle (w_state w')) @ prompt_tail (w_state w')) \<and>
    length (projr (render_prompt (w_state w'))) < 990"
proof -
  have "state_ok (w_state w')" by (rule detect_environment_ok [OF assms(2,1)])
  then show ?thesis using render_prompt_text [of "w_state w'"] detect_environment_Inr [OF assms(2)] by auto
qed

theorem prompt_complete_witness:
  "\<exists>k' w'. detect_environment sys0 0 (world0 [] ()) = Inr (k', w') \<and> length (projr (render_prompt (w_state w'))) < 990"
proof -
  have g: "git_loop sys0 64 ''/home/ann'' = Inr None"
    by (simp add: git_loop.simps sys0_def parent_dir_def)
  obtain k' w' where d: "detect_environment sys0 0 (world0 [] ()) = Inr (k', w')"
    using g by (simp add: detect_environment_def getcwd_def detect_git_branch_def world0_def state0_def int_range_def Let_def)
  have "state_ok (w_state (world0 [] ()))" by (simp add: state_ok_def state0_def)
  from prompt_complete [OF this d] d show ?thesis by blast
qed

section \<open>The branch is the one of the nearest repository\<close>

lemma strrchr_slash: "CHR ''/'' \<notin> set c \<Longrightarrow> strrchr (d @ CHR ''/'' # c) (CHR ''/'') = Some (CHR ''/'' # c)"
proof (induction d)
  case Nil
  have "CHR ''/'' \<notin> set c \<Longrightarrow> strrchr c (CHR ''/'') = None" by (induction c) auto
  with Nil show ?case by simp
qed simp

lemma parent_dir_below: "d \<noteq> [] \<Longrightarrow> CHR ''/'' \<notin> set c \<Longrightarrow> parent_dir (d @ CHR ''/'' # c) = Some d"
  by (simp add: parent_dir_def strrchr_slash)

definition no_head :: "shell_sys \<Rightarrow> path \<Rightarrow> bool" where
  "no_head sy dir \<longleftrightarrow> sy_file sy (dir @ ''/.git/HEAD'') \<in> {None, Some []}"

definition below :: "path \<Rightarrow> string list \<Rightarrow> path" where
  "below d cs = d @ concat (map (\<lambda>c. CHR ''/'' # c) cs)"

lemma below_snoc: "below d (cs @ [c]) = below d cs @ CHR ''/'' # c"
  by (simp add: below_def)

lemma git_loop_up:
  assumes "no_head sy dir" "length dir < 1013" "parent_dir dir = Some up"
  shows "git_loop sy len dir = git_loop sy len up"
proof -
  have "snprintf_buf 1024 (dir @ ''/.git/HEAD'') = dir @ ''/.git/HEAD''" using assms(2) by simp
  then show ?thesis
    using assms by (auto simp: git_loop.simps [of sy len dir] no_head_def fgets_def)
qed

lemma git_loop_climbs:
  assumes "d \<noteq> []" "\<forall>c \<in> set cs. CHR ''/'' \<notin> set c" "length (below d cs) < 1013"
    and "\<forall>i \<in> {1..length cs}. no_head sy (below d (take i cs))"
  shows "git_loop sy len (below d cs) = git_loop sy len d"
  using assms(2-4)
proof (induction cs rule: rev_induct)
  case Nil
  then show ?case by (simp add: below_def)
next
  case (snoc c cs)
  have "no_head sy (below d (take i cs))" if "i \<in> {1..length cs}" for i
    using snoc.prems(3) [rule_format, of i] that by simp
  moreover have "length (below d cs) < 1013" using snoc.prems(2) by (simp add: below_snoc)
  ultimately have "git_loop sy len (below d cs) = git_loop sy len d" using snoc.IH snoc.prems(1) by simp
  moreover have "no_head sy (below d (cs @ [c]))"
    using snoc.prems(3) [rule_format, of "length (cs @ [c])"] by simp
  moreover have "parent_dir (below d (cs @ [c])) = Some (below d cs)"
    unfolding below_snoc using assms(1) snoc.prems(1) by (intro parent_dir_below) (auto simp: below_def)
  ultimately show ?case using git_loop_up [of sy "below d (cs @ [c])"] snoc.prems(2) by simp
qed

lemma git_loop_here:
  assumes "sy_file sy (d @ ''/.git/HEAD'') = Some (''ref: refs/heads/'' @ b @ CHR 0x0A # rest)"
    and "length d < 1013" "length b < 239" "CHR 0x0A \<notin> set b" "CHR 0x00 \<notin> set b"
  shows "git_loop sy len d = Inr (Some (take (len - 1) b))"
proof -
  let ?l = "''ref: refs/heads/'' @ b"
  have "snprintf_buf 1024 (d @ ''/.git/HEAD'') = d @ ''/.git/HEAD''" using assms(2) by simp
  moreover have "fgets 256 (?l @ CHR 0x0A # rest) = Some (?l @ [CHR 0x0A], rest)"
    using line_split_line [of ?l 255 rest] assms(3,4) by (simp add: fgets_def)
  moreover have "cstr (?l @ [CHR 0x0A]) = ?l @ [CHR 0x0A]" using assms(5) by (intro cstr_id) simp
  moreover have "head_branch len (?l @ [CHR 0x0A]) = Inr (take (len - 1) b)"
    using strip_newline_line [OF assms(4)] by (simp add: head_branch_def)
  ultimately show ?thesis using assms(1) by (simp add: git_loop.simps [of sy len d])
qed

text \<open>
  Inside a repository the prompt shows the branch of the nearest enclosing one: if directory
  \<open>d\<close> has a \<open>.git/HEAD\<close> that names branch \<open>b\<close> and no directory between \<open>d\<close> and the working directory
  has one, the state gets the first 63 characters of \<open>b\<close>, however deep the working directory is (its
  path must leave room for \<open>/.git/HEAD\<close> in the buffer).
\<close>

theorem git_branch_of_nearest:
  assumes "sy_file sy (d @ ''/.git/HEAD'') = Some (''ref: refs/heads/'' @ b @ CHR 0x0A # rest)"
    and "d \<noteq> []" "\<forall>c \<in> set cs. CHR ''/'' \<notin> set c" "length (below d cs) < 1013"
    and "\<forall>i \<in> {1..length cs}. no_head sy (below d (take i cs))"
    and "length b < 239" "CHR 0x0A \<notin> set b" "CHR 0x00 \<notin> set b"
    and "w_wd w = Some (below d cs)" "0 \<le> k" "k < 2 ^ 31 - 1"
  shows "\<exists>w'. detect_environment sy k w = Inr (k + 1, w') \<and> git_branch (w_state w') = take 63 b"
proof -
  have "length d < 1013" using assms(4) by (simp add: below_def)
  then have "git_loop sy 64 (below d cs) = Inr (Some (take 63 b))"
    using git_loop_climbs [OF assms(2-5)] git_loop_here [OF assms(1) _ assms(6-8)] by simp
  then show ?thesis
    using assms(4,9-11)
    by (simp add: detect_environment_def detect_git_branch_def getcwd_def int_range_def Let_def)
qed

definition git_sys :: shell_sys where
  "git_sys = sys0\<lparr>sy_file := (\<lambda>p. if p = ''/home/ann/.git/HEAD'' then Some (''ref: refs/heads/main'' @ [CHR 0x0A]) else None)\<rparr>"

theorem git_branch_of_nearest_witness:
  "\<exists>w'. detect_environment git_sys 0 ((world0 [] ())\<lparr>w_wd := Some ''/home/ann/src/lib''\<rparr>) = Inr (1, w') \<and>
     git_branch (w_state w') = ''main''"
proof -
  have n: "no_head git_sys (below ''/home/ann'' (take i [''src'', ''lib'']))" if "i \<in> {1..length [''src'', ''lib'']}" for i
  proof -
    have "i = 1 \<or> i = 2" using that by auto
    then show ?thesis by (auto simp: no_head_def git_sys_def below_def)
  qed
  show ?thesis
    using git_branch_of_nearest [of git_sys "''/home/ann''" "''main''" "[]" "[''src'', ''lib'']"
        "(world0 [] ())\<lparr>w_wd := Some ''/home/ann/src/lib''\<rparr>" 0] n
    by (simp add: git_sys_def below_def)
qed

section \<open>Two views of the same system\<close>

text \<open>
  The prompt and the command \<open>status\<close> look for different interfaces: a NordVPN tunnel alone is shown
  by the first and denied by the second.
\<close>

lemma vpn_views_differ:
  "detect_vpn sy \<noteq> status_vpn sy \<longleftrightarrow>
   sy_access sy ''/sys/class/net/nordlynx'' F_OK \<and> \<not> sy_access sy ''/sys/class/net/wg0'' F_OK \<and>
   \<not> sy_access sy ''/sys/class/net/tun0'' F_OK"
  by (auto simp: detect_vpn_def status_vpn_def)

text \<open>
  Home directories are matched as text: a directory below home is abbreviated, and so is a
  neighbour whose name only starts like it.
\<close>

lemma shorten_path_below: "length rest < 511 \<Longrightarrow> shorten_path (hm @ rest) hm = CHR ''~'' # rest"
  by (simp add: shorten_path_def)

end
