(* ===== verification/Shell_Exec.thy ===== *)
theory Shell_Exec
  imports Shell_Prompt
begin

text \<open>
  \<open>shell/src/szshell.c\<close>: tab completion, the execution of pipelines with their descriptors, and the
  main loop. A pipe has a number, its ends are descriptors; a child is the descriptors it has after
  the redirections and what it then runs. How the children run side by side is a parameter (record
  \<open>kernel\<close>): what they print on the terminal, what they read from it, what they make the daemon do,
  and what \<open>waitpid\<close> reports. They are separate processes, so nothing of the memory of the shell is
  theirs to change. Readline is a parameter too.
\<close>

section \<open>Tab completion\<close>

text \<open>The static variables \<open>index\<close> and \<open>len\<close>.\<close>

record gen_state =
  g_index :: nat
  g_len :: nat

text \<open>The \<open>while\<close> loop from position \<open>index\<close> on: the name it returns and the new position.\<close>

fun next_match :: "nat \<Rightarrow> string \<Rightarrow> nat \<Rightarrow> command_entry list \<Rightarrow> string option \<times> nat" where
  "next_match len txt index [] = (None, index)"
| "next_match len txt index (e # es) =
     (if take len (ce_name e) = take len txt then (Some (ce_name e), Suc index) else next_match len txt (Suc index) es)"

definition command_generator :: "command_entry list \<Rightarrow> string \<Rightarrow> bool \<Rightarrow> gen_state \<Rightarrow> string option \<times> gen_state" where
  "command_generator registry txt gen g =
     (let g1 = (if \<not> gen then \<lparr>g_index = 0, g_len = length txt\<rparr> else g) in
      case next_match (g_len g1) txt (g_index g1) (drop (g_index g1) (fst (cmd_get_all registry))) of
        (r, i) \<Rightarrow> (r, g1\<lparr>g_index := i\<rparr>))"

text \<open>
  \<open>rl_completion_matches\<close> calls the generator first with 0, then with other values, until it
  returns nothing; \<open>n\<close> bounds the number of calls.
\<close>

fun collect :: "nat \<Rightarrow> (bool \<Rightarrow> gen_state \<Rightarrow> string option \<times> gen_state) \<Rightarrow> bool \<Rightarrow> gen_state \<Rightarrow> string list option" where
  "collect 0 gen b g = None"
| "collect (Suc n) gen b g =
     (case gen b g of
        (None, _) \<Rightarrow> Some []
      | (Some name, g') \<Rightarrow> (case collect n gen True g' of None \<Rightarrow> None | Some names \<Rightarrow> Some (name # names)))"

definition shell_completion :: "command_entry list \<Rightarrow> nat \<Rightarrow> gen_state \<Rightarrow> string \<Rightarrow> nat \<Rightarrow> string list option" where
  "shell_completion registry n g txt start =
     (if start = 0 then collect n (command_generator registry txt) False g else Some [])"

section \<open>Children\<close>

datatype program = ExitWith nat message | Builtin command_entry | Exec

record child =
  ch_in :: descriptor
  ch_out :: descriptor
  ch_err :: descriptor
  ch_open :: "descriptor list"
  ch_argv :: "string list"
  ch_prog :: program

text \<open>The outcome of \<open>pipe\<close> and \<open>fork\<close> for each segment, and of \<open>fopen\<close> in the child.\<close>

record exec_env =
  ex_pipe :: "nat \<Rightarrow> bool"
  ex_fork :: "nat \<Rightarrow> bool"
  ex_open_r :: "path \<Rightarrow> bool"
  ex_open_w :: "path \<Rightarrow> bool"

definition close_fd :: "descriptor \<Rightarrow> descriptor list \<Rightarrow> descriptor list" where
  "close_fd d ds = filter (\<lambda>x. x \<noteq> d) ds"

text \<open>A redirection to a file: the descriptor, or the name of the file that cannot be opened.\<close>

definition redirect_in :: "exec_env \<Rightarrow> descriptor option \<Rightarrow> redirect \<Rightarrow> path + descriptor" where
  "redirect_in v prev_fd r =
     (case prev_fd of
        Some d \<Rightarrow> Inr d
      | None \<Rightarrow>
          (case stdin_file r of
             None \<Rightarrow> Inr (Inherited 0)
           | Some f \<Rightarrow> if ex_open_r v f then Inr (FileR f) else Inl f))"

definition redirect_out :: "exec_env \<Rightarrow> nat option \<Rightarrow> redirect \<Rightarrow> path + descriptor" where
  "redirect_out v pipefd r =
     (case pipefd of
        Some k \<Rightarrow> Inr (PipeW k)
      | None \<Rightarrow>
          (case stdout_file r of
             None \<Rightarrow> Inr (Inherited 1)
           | Some f \<Rightarrow> if ex_open_w v f then Inr (FileW f (stdout_append r)) else Inl f))"

definition redirect_err :: "exec_env \<Rightarrow> redirect \<Rightarrow> path + descriptor" where
  "redirect_err v r =
     (case stderr_file r of
        None \<Rightarrow> Inr (Inherited 2)
      | Some f \<Rightarrow> if ex_open_w v f then Inr (FileW f (stderr_append r)) else Inl f)"

text \<open>
  The child: it has every descriptor that is open in the shell, and closes what it has moved to
  its standard input and output, and the end of its pipe that it does not use.
\<close>

definition child_fds :: "descriptor option \<Rightarrow> nat option \<Rightarrow> descriptor list \<Rightarrow> descriptor list" where
  "child_fds prev_fd pipefd fds =
     (let fds1 = (case prev_fd of None \<Rightarrow> fds | Some d \<Rightarrow> close_fd d fds) in
      case pipefd of None \<Rightarrow> fds1 | Some k \<Rightarrow> close_fd (PipeW k) (close_fd (PipeR k) fds1))"

definition child_setup ::
  "exec_env \<Rightarrow> command_entry list \<Rightarrow> descriptor option \<Rightarrow> nat option \<Rightarrow> descriptor list \<Rightarrow> command \<Rightarrow> child" where
  "child_setup v registry prev_fd pipefd fds cmd =
     (let c = \<lparr>ch_in = Inherited 0, ch_out = Inherited 1, ch_err = Inherited 2,
               ch_open = child_fds prev_fd pipefd fds, ch_argv = argv cmd, ch_prog = Exec\<rparr>;
          fail = (\<lambda>c f. c\<lparr>ch_prog := ExitWith 1 (Err ''%s'' [f])\<rparr>) in
      case redirect_in v prev_fd (redir cmd) of
        Inl f \<Rightarrow> fail c f
      | Inr i \<Rightarrow>
          let c = c\<lparr>ch_in := i\<rparr> in
          (case redirect_out v pipefd (redir cmd) of
             Inl f \<Rightarrow> fail c f
           | Inr out \<Rightarrow>
               let c = c\<lparr>ch_out := out\<rparr> in
               (case redirect_err v (redir cmd) of
                  Inl f \<Rightarrow> fail c f
                | Inr er \<Rightarrow>
                    let c = c\<lparr>ch_err := er\<rparr> in
                    (case cmd_find registry (hd (argv cmd)) of
                       Some entry \<Rightarrow> c\<lparr>ch_prog := Builtin entry\<rparr>
                     | None \<Rightarrow> c))))"

text \<open>A builtin in a child works on the copy of the memory and ends with the low byte of its result.\<close>

definition child_builtin ::
  "shell_sys \<Rightarrow> client_env \<Rightarrow> 'd server \<Rightarrow> command_entry list \<Rightarrow> command_entry \<Rightarrow> string list \<Rightarrow> 'd world \<Rightarrow> nat res" where
  "child_builtin sy cv serve registry entry args copy =
     (case run_handler sy cv serve registry (ce_handler entry) args copy of
        Inl e \<Rightarrow> Inl e
      | Inr (ret, _) \<Rightarrow> Inr (nat (ret mod 256)))"

section \<open>Starting the children\<close>

text \<open>\<open>pipeline->commands[i]\<close>: the slots behind the parsed ones are zero, and there are 16.\<close>

definition cmd_at :: "pipeline \<Rightarrow> nat \<Rightarrow> command res" where
  "cmd_at pl i =
     (if i < length (commands pl) then Inr (commands pl ! i)
      else if i < MAX_PIPE_SEGMENTS then Inr no_command else Inl EUndefined)"

record spawned =
  sp_error :: "message option"
  sp_kids :: "child list"
  sp_fds :: "descriptor list"
  sp_next :: nat

text \<open>
  The loop over the segments: \<open>fds\<close> are the ends of pipes open in the shell, \<open>next\<close> is the number of
  the next pipe, \<open>kids\<close> the children so far.
\<close>

fun spawn ::
  "exec_env \<Rightarrow> command_entry list \<Rightarrow> pipeline \<Rightarrow> nat list \<Rightarrow> descriptor option \<Rightarrow> descriptor list \<Rightarrow> nat \<Rightarrow> child list \<Rightarrow> spawned res" where
  "spawn v registry pl [] prev_fd fds nxt kids = Inr \<lparr>sp_error = None, sp_kids = kids, sp_fds = fds, sp_next = nxt\<rparr>"
| "spawn v registry pl (i # is) prev_fd fds nxt kids =
     (case cmd_at pl i of
        Inl e \<Rightarrow> Inl e
      | Inr cmd \<Rightarrow>
          if argv cmd = [] then spawn v registry pl is prev_fd fds nxt kids
          else
            let piped = i < pcount pl - 1 in
            if piped \<and> \<not> ex_pipe v i
            then Inr \<lparr>sp_error = Some (Err ''pipe'' []), sp_kids = kids, sp_fds = fds, sp_next = nxt\<rparr>
            else
              let pipefd = (if piped then Some nxt else None);
                  nxt1 = (if piped then Suc nxt else nxt);
                  fds1 = (if piped then fds @ [PipeR nxt, PipeW nxt] else fds) in
              if \<not> ex_fork v i
              then Inr \<lparr>sp_error = Some (Err ''fork'' []), sp_kids = kids, sp_fds = fds1, sp_next = nxt1\<rparr>
              else
                let kid = child_setup v registry prev_fd pipefd fds1 cmd;
                    fds2 = (case prev_fd of None \<Rightarrow> fds1 | Some d \<Rightarrow> close_fd d fds1);
                    fds3 = (if piped then close_fd (PipeW nxt) fds2 else fds2) in
                spawn v registry pl is (if piped then Some (PipeR nxt) else None) fds3 nxt1 (kids @ [kid]))"

section \<open>Waiting\<close>

text \<open>
  What \<open>waitpid\<close> stores: \<open>None\<close> when it fails because the handler of \<open>SIGCHLD\<close> has reaped the child
  before, and the variable keeps its indeterminate value.
\<close>

datatype wait_status = Exited nat | Killed

record 'd kernel =
  ke_out :: "child list \<Rightarrow> message list"
  ke_daemon :: "child list \<Rightarrow> 'd \<Rightarrow> 'd"
  ke_stdin :: "child list \<Rightarrow> string \<Rightarrow> string"
  ke_status :: "child list \<Rightarrow> nat \<Rightarrow> wait_status option"

definition run_kids :: "'d kernel \<Rightarrow> spawned \<Rightarrow> 'd world \<Rightarrow> 'd world" where
  "run_kids ke sp w =
     w\<lparr>w_out := w_out w @ ke_out ke (sp_kids sp), w_daemon := ke_daemon ke (sp_kids sp) (w_daemon w),
       w_stdin := ke_stdin ke (sp_kids sp) (w_stdin w), w_pipes := sp_fds sp, w_npipes := sp_next sp\<rparr>"

definition wait_all :: "'d kernel \<Rightarrow> child list \<Rightarrow> int res" where
  "wait_all ke kids =
     (if kids = [] then Inr 0
      else case ke_status ke kids (length kids - 1) of
        None \<Rightarrow> Inl EUndefined
      | Some (Exited n) \<Rightarrow> Inr (int n)
      | Some Killed \<Rightarrow> Inr 1)"

section \<open>Pipelines\<close>

definition execute_external ::
  "exec_env \<Rightarrow> 'd kernel \<Rightarrow> command_entry list \<Rightarrow> pipeline \<Rightarrow> 'd world \<Rightarrow> (int \<times> 'd world) res" where
  "execute_external v ke registry pl w =
     (case spawn v registry pl [0..<pcount pl] None (w_pipes w) (w_npipes w) [] of
        Inl e \<Rightarrow> Inl e
      | Inr sp \<Rightarrow>
          let w1 = run_kids ke sp w in
          (case sp_error sp of
             Some msg \<Rightarrow> Inr (1, say [msg] w1)
           | None \<Rightarrow>
               (case cmd_at pl 0 of
                  Inl e \<Rightarrow> Inl e
                | Inr first \<Rightarrow>
                    if background first then Inr (0, w1)
                    else (case wait_all ke (sp_kids sp) of
                            Inl e \<Rightarrow> Inl e
                          | Inr last_status \<Rightarrow>
                              Inr (last_status, w1\<lparr>w_state := (w_state w1)\<lparr>last_exit_code := last_status\<rparr>\<rparr>)))))"

definition execute_pipeline ::
  "shell_sys \<Rightarrow> client_env \<Rightarrow> 'd server \<Rightarrow> exec_env \<Rightarrow> 'd kernel \<Rightarrow> command_entry list \<Rightarrow> pipeline \<Rightarrow> 'd world \<Rightarrow> (int \<times> 'd world) res" where
  "execute_pipeline sy cv serve v ke registry pl w =
     (if pcount pl = 0 then Inr (0, w)
      else if pcount pl = 1
      then (case cmd_at pl 0 of
              Inl e \<Rightarrow> Inl e
            | Inr cmd \<Rightarrow>
                if argv cmd = [] then Inr (0, w)
                else (case cmd_find registry (hd (argv cmd)) of
                        Some entry \<Rightarrow> run_handler sy cv serve registry (ce_handler entry) (argv cmd) w
                      | None \<Rightarrow> execute_external v ke registry pl w))
      else execute_external v ke registry pl w)"

section \<open>The main loop\<close>

text \<open>
  What a turn of the loop meets: the system, the socket, the outcomes of \<open>pipe\<close> and \<open>fork\<close>, the
  children, and whether the tokenizer gets memory. It may differ from turn to turn. Readline maps
  the prompt and the rest of the input to the line without its newline (\<open>None\<close> at the end of the
  input) and what remains.
\<close>

record 'd turn_env =
  t_sys :: shell_sys
  t_client :: client_env
  t_exec :: exec_env
  t_kernel :: "'d kernel"
  t_malloc :: bool

type_synonym 'd turns = "int \<Rightarrow> 'd turn_env"

type_synonym readline = "string \<Rightarrow> string \<Rightarrow> string option \<times> string"

text \<open>One turn: whether the loop goes on, the new counter of \<open>detect_environment\<close> and the world.\<close>

definition repl_turn ::
  "'d turns \<Rightarrow> 'd server \<Rightarrow> readline \<Rightarrow> command_entry list \<Rightarrow> int \<Rightarrow> 'd world \<Rightarrow> (bool \<times> int \<times> 'd world) res" where
  "repl_turn ts serve rl registry k w =
     (let t = ts k in
      case detect_environment (t_sys t) k w of
        Inl e \<Rightarrow> Inl e
      | Inr (k1, w1) \<Rightarrow>
          (case render_prompt (w_state w1) of
             Inl e \<Rightarrow> Inl e
           | Inr prompt \<Rightarrow>
               (case rl prompt (w_stdin w1) of
                  (None, rest) \<Rightarrow> Inr (False, k1, say [Out [] []] (w1\<lparr>w_stdin := rest\<rparr>))
                | (Some line, rest) \<Rightarrow>
                    let w2 = w1\<lparr>w_stdin := rest\<rparr> in
                    if line = [] then Inr (True, k1, w2)
                    else
                      let w3 = w2\<lparr>w_history := w_history w2 @ [line]\<rparr> in
                      (case parse_line (w_env w3) (t_malloc t) (Some line) of
                         Inl e \<Rightarrow> Inl e
                       | Inr pl \<Rightarrow>
                           (case execute_pipeline (t_sys t) (t_client t) serve (t_exec t) (t_kernel t) registry pl w3 of
                              Inl e \<Rightarrow> Inl e
                            | Inr (_, w4) \<Rightarrow> Inr (True, k1, w4))))))"

text \<open>\<open>while (state.running)\<close>; \<open>None\<close> when \<open>n\<close> turns were not enough.\<close>

fun repl ::
  "nat \<Rightarrow> 'd turns \<Rightarrow> 'd server \<Rightarrow> readline \<Rightarrow> command_entry list \<Rightarrow> int \<Rightarrow> 'd world \<Rightarrow> 'd world res option" where
  "repl 0 ts serve rl registry k w = None"
| "repl (Suc n) ts serve rl registry k w =
     (if \<not> running (w_state w) then Some (Inr w)
      else case repl_turn ts serve rl registry k w of
        Inl e \<Rightarrow> Some (Inl e)
      | Inr (goes_on, k1, w1) \<Rightarrow>
          if goes_on then repl n ts serve rl registry k1 w1 else Some (Inr w1))"

record start_env =
  st_sodium :: bool
  st_passwd :: "(string \<times> path) option"
  st_uid :: nat
  st_hostname :: string
  st_history :: "path \<Rightarrow> string list"
  st_tty :: bool

definition initial_state :: "start_env \<Rightarrow> path \<Rightarrow> shell_state" where
  "initial_state m dir =
     (let (u, h) = (case st_passwd m of Some p \<Rightarrow> p | None \<Rightarrow> (''user'', ''/tmp'')) in
      \<lparr>cwd = dir, user = strncpy_buf 64 u, hostname = strncpy_buf 64 (st_hostname m), home = strncpy_buf 256 h,
       is_root = (st_uid m = 0), in_secure_session = False, tor_active = False, vpn_active = False,
       git_branch = [], running = True, last_exit_code = 0\<rparr>)"

definition hist_path :: "shell_state \<Rightarrow> path" where
  "hist_path s = snprintf_buf 512 (home s @ ''/.szshell_history'')"

definition banner :: "message list" where
  "banner = [Out [] [], Out ''SecureZ+ OS v1.0 (Fortress)'' [], Out ''Security - Privacy - Control'' [],
     Out ''Type 'help' for available commands'' [], Out [] []]"

text \<open>
  \<open>main\<close>: the exit code, the file and the lines that \<open>write_history\<close> gets, and the world. Before,
  the static state is zero, the history of readline empty.
\<close>

definition szshell_main ::
  "nat \<Rightarrow> start_env \<Rightarrow> 'd turns \<Rightarrow> 'd server \<Rightarrow> readline \<Rightarrow> 'd world \<Rightarrow> (int \<times> (path \<times> string list) option \<times> 'd world) res option" where
  "szshell_main n m ts serve rl w =
     (if \<not> st_sodium m then Some (Inr (1, None, say [Err ''Failed to initialize libsodium'' []] w))
      else case (getcwd 1024 w, cmd_register_all) of
        (Some dir, Inr registry) \<Rightarrow>
          let s = initial_state m dir; h = hist_path s;
              w1 = w\<lparr>w_state := s, w_history := st_history m h\<rparr>;
              w2 = (if st_tty m then say banner w1 else w1) in
          (case repl n ts serve rl registry 0 w2 of
             None \<Rightarrow> None
           | Some (Inl e) \<Rightarrow> Some (Inl e)
           | Some (Inr w3) \<Rightarrow> Some (Inr (last_exit_code (w_state w3), Some (h, w_history w3), w3)))
      | _ \<Rightarrow> Some (Inl EUndefined))"

section \<open>Completion is exact\<close>

definition completes :: "string \<Rightarrow> command_entry \<Rightarrow> bool" where
  "completes txt e \<longleftrightarrow> take (length txt) (ce_name e) = txt"

lemma next_match_none:
  "\<forall>e \<in> set es. \<not> completes txt e \<Longrightarrow> next_match (length txt) txt i es = (None, i + length es)"
  by (induction es arbitrary: i) (auto simp: completes_def)

lemma next_match_some:
  "\<forall>e \<in> set us. \<not> completes txt e \<Longrightarrow> completes txt e \<Longrightarrow>
   next_match (length txt) txt i (us @ e # rest) = (Some (ce_name e), i + length us + 1)"
  by (induction us arbitrary: i) (auto simp: completes_def)

lemma collect_from:
  assumes "length rest < n" "cs = before @ rest"
  shows "collect n (command_generator cs txt) True \<lparr>g_index = length before, g_len = length txt\<rparr> =
    Some (map ce_name (filter (completes txt) rest))"
  using assms
proof (induction n arbitrary: before rest)
  case (Suc n)
  show ?case
  proof (cases "\<exists>e \<in> set rest. completes txt e")
    case False
    then show ?thesis
      using next_match_none [of rest "txt" "length before"] Suc.prems(2)
      by (simp add: command_generator_def cmd_get_all_def)
  next
    case True
    then obtain us e r where r: "rest = us @ e # r" "completes txt e" "\<forall>x \<in> set us. \<not> completes txt x"
      using split_list_first_prop [of rest "completes txt"] by blast
    have "command_generator cs txt True \<lparr>g_index = length before, g_len = length txt\<rparr> =
        (Some (ce_name e), \<lparr>g_index = length (before @ us @ [e]), g_len = length txt\<rparr>)"
      using next_match_some [OF r(3,2), of "length before" r] Suc.prems(2) r(1)
      by (simp add: command_generator_def cmd_get_all_def)
    moreover have "collect n (command_generator cs txt) True \<lparr>g_index = length (before @ us @ [e]), g_len = length txt\<rparr> =
        Some (map ce_name (filter (completes txt) r))"
      using Suc.IH [of r "before @ us @ [e]"] Suc.prems r(1) by simp
    moreover have "filter (completes txt) rest = e # filter (completes txt) r" using r by simp
    ultimately show ?thesis by (simp only: collect.simps prod.case option.case list.map)
  qed
qed simp

text \<open>
  Completing a word at the start of the line offers exactly the registered commands that start
  with it, each once, in the order of registration; 22 calls of the generator are always enough,
  and neither the position nor the word of an earlier completion matters.
\<close>

theorem completion_exact:
  "shell_completion all_commands 22 g txt 0 =
     Some (filter (\<lambda>name. take (length txt) name = txt) (map ce_name all_commands)) \<and>
   distinct (filter (\<lambda>name. take (length txt) name = txt) (map ce_name all_commands))"
proof -
  have len: "length all_commands < 22" by (simp add: all_commands_def registrations_def)
  have "collect 22 (command_generator all_commands txt) False g =
      collect 22 (command_generator all_commands txt) True \<lparr>g_index = 0, g_len = length txt\<rparr>"
    by (simp add: numeral_eq_Suc command_generator_def)
  also have "\<dots> = Some (map ce_name (filter (completes txt) all_commands))"
    using collect_from [OF len, of all_commands "[]" "txt"] by simp
  also have "completes txt = (\<lambda>e. take (length txt) (ce_name e) = txt)" by (simp add: fun_eq_iff completes_def)
  also have "map ce_name (filter (\<lambda>e. take (length txt) (ce_name e) = txt) all_commands) =
      filter (\<lambda>name. take (length txt) name = txt) (map ce_name all_commands)"
    by (simp add: filter_map comp_def)
  finally show ?thesis using registry_distinct by (simp add: shell_completion_def)
qed

section \<open>Wiring of a pipeline\<close>

definition calls_succeed :: "exec_env \<Rightarrow> bool" where
  "calls_succeed v \<longleftrightarrow> (\<forall>i. ex_pipe v i \<and> ex_fork v i) \<and> (\<forall>f. ex_open_r v f \<and> ex_open_w v f)"

text \<open>No open descriptor belongs to a pipe that is still to be made.\<close>

definition pipes_fresh :: "nat \<Rightarrow> descriptor list \<Rightarrow> bool" where
  "pipes_fresh n fds \<longleftrightarrow> (\<forall>k \<ge> n. PipeR k \<notin> set fds \<and> PipeW k \<notin> set fds)"

lemma close_fd_simps [simp]:
  "d \<notin> set ds \<Longrightarrow> close_fd d ds = ds" "close_fd d (xs @ ys) = close_fd d xs @ close_fd d ys"
  "close_fd d [] = []" "close_fd d (x # xs) = (if x = d then close_fd d xs else x # close_fd d xs)"
  by (auto simp: close_fd_def filter_id_conv)

lemma child_setup_simps:
  assumes "calls_succeed v"
  shows "ch_open (child_setup v r prev pf fds cmd) = child_fds prev pf fds"
    "ch_argv (child_setup v r prev pf fds cmd) = argv cmd"
    "prev = Some d \<Longrightarrow> ch_in (child_setup v r prev pf fds cmd) = d"
    "pf = Some k \<Longrightarrow> ch_out (child_setup v r prev pf fds cmd) = PipeW k"
    "pf = None \<Longrightarrow> ch_out (child_setup v r prev pf fds cmd) =
       (case stdout_file (redir cmd) of None \<Rightarrow> Inherited 1 | Some f \<Rightarrow> FileW f (stdout_append (redir cmd)))"
  using assms
  by (auto simp: child_setup_def calls_succeed_def redirect_in_def redirect_out_def redirect_err_def Let_def
      split: option.splits sum.splits)

text \<open>The state of the loop before segment \<open>i\<close>: every child so far writes into a pipe of its own.\<close>

definition wired :: "descriptor list \<Rightarrow> nat \<Rightarrow> command list \<Rightarrow> child list \<Rightarrow> bool" where
  "wired base n cmds kids \<longleftrightarrow>
     map ch_argv kids = filter (\<lambda>a. a \<noteq> []) (map argv cmds) \<and>
     (\<forall>c \<in> set kids. ch_open c = base) \<and>
     (\<forall>m. Suc m < length kids \<longrightarrow> ch_out (kids ! m) = PipeW (n + m) \<and> ch_in (kids ! Suc m) = PipeR (n + m))"

definition pending :: "nat \<Rightarrow> child list \<Rightarrow> descriptor option" where
  "pending n kids = (if kids = [] then None else Some (PipeR (n + (length kids - 1))))"

definition loop_inv :: "descriptor list \<Rightarrow> nat \<Rightarrow> command list \<Rightarrow> child list \<Rightarrow> bool" where
  "loop_inv base n cmds kids \<longleftrightarrow> wired base n cmds kids \<and> (kids \<noteq> [] \<longrightarrow> ch_out (last kids) = PipeW (n + (length kids - 1)))"

lemma wired_snoc:
  assumes "wired base n cmds kids" "kids \<noteq> [] \<longrightarrow> ch_out (last kids) = PipeW (n + (length kids - 1))"
    and "ch_argv c = argv cmd" "argv cmd \<noteq> []" "ch_open c = base"
    and "kids \<noteq> [] \<longrightarrow> ch_in c = PipeR (n + (length kids - 1))"
  shows "wired base n (cmds @ [cmd]) (kids @ [c])"
proof -
  have "ch_out ((kids @ [c]) ! m) = PipeW (n + m) \<and> ch_in ((kids @ [c]) ! Suc m) = PipeR (n + m)"
    if "Suc m < length (kids @ [c])" for m
  proof (cases "Suc m < length kids")
    case True
    then show ?thesis using assms(1) by (auto simp: wired_def nth_append)
  next
    case False
    with that have m: "Suc m = length kids" by simp
    then have "kids \<noteq> []" by auto
    moreover from this have "kids ! m = last kids" by (simp add: last_conv_nth m [symmetric])
    ultimately show ?thesis using assms(2,6) by (simp add: nth_append m [symmetric])
  qed
  then show ?thesis using assms(1,3,4,5) by (auto simp: wired_def)
qed

lemma wired_skip: "argv cmd = [] \<Longrightarrow> wired base n (cmds @ [cmd]) kids = wired base n cmds kids"
  by (simp add: wired_def)

lemma child_fds_base:
  assumes "pipes_fresh n base" "n \<le> k"
  shows "child_fds (pending n kids) (Some k) ((base @ (case pending n kids of None \<Rightarrow> [] | Some d \<Rightarrow> [d])) @ [PipeR k, PipeW k]) = base"
    "child_fds (pending n kids) None (base @ (case pending n kids of None \<Rightarrow> [] | Some d \<Rightarrow> [d])) = base"
proof -
  have "PipeR (n + (length kids - 1)) \<notin> set base" if "kids \<noteq> []"
    using assms(1) that by (auto simp: pipes_fresh_def)
  moreover have "PipeR k \<notin> set base" "PipeW k \<notin> set base" using assms by (auto simp: pipes_fresh_def)
  ultimately show "child_fds (pending n kids) (Some k) ((base @ (case pending n kids of None \<Rightarrow> [] | Some d \<Rightarrow> [d])) @ [PipeR k, PipeW k]) = base"
    "child_fds (pending n kids) None (base @ (case pending n kids of None \<Rightarrow> [] | Some d \<Rightarrow> [d])) = base"
    by (auto simp: child_fds_def pending_def)
qed

text \<open>One turn of the loop for a command that is not the last.\<close>

lemma spawn_turn:
  assumes v: "calls_succeed v" and fresh: "pipes_fresh n base" and inv: "loop_inv base n (take i (commands pl)) kids"
    and i: "Suc i < pcount pl" "pcount pl = length (commands pl)"
  obtains kids' where "loop_inv base n (take (Suc i) (commands pl)) kids'"
    and "spawn v r pl (i # is) (pending n kids) (base @ (case pending n kids of None \<Rightarrow> [] | Some d \<Rightarrow> [d])) (n + length kids) kids =
      spawn v r pl is (pending n kids') (base @ (case pending n kids' of None \<Rightarrow> [] | Some d \<Rightarrow> [d])) (n + length kids') kids'"
proof -
  define cmd where "cmd = commands pl ! i"
  have at: "cmd_at pl i = Inr cmd" and tk: "take (Suc i) (commands pl) = take i (commands pl) @ [cmd]"
    using i by (simp_all add: cmd_at_def cmd_def take_Suc_conv_app_nth)
  show thesis
  proof (cases "argv cmd = []")
    case True
    with at tk inv show thesis by (intro that [of kids]) (auto simp: loop_inv_def wired_skip)
  next
    case False
    define k where "k = n + length kids"
    let ?fds = "base @ (case pending n kids of None \<Rightarrow> [] | Some d \<Rightarrow> [d])"
    define kid where "kid = child_setup v r (pending n kids) (Some k) (?fds @ [PipeR k, PipeW k]) cmd"
    have kid: "ch_open kid = base" "ch_argv kid = argv cmd" "ch_out kid = PipeW k"
      "kids \<noteq> [] \<longrightarrow> ch_in kid = PipeR (n + (length kids - 1))"
      using child_setup_simps [OF v] child_fds_base(1) [OF fresh, of k kids]
      by (auto simp: kid_def k_def pending_def)
    then have new: "loop_inv base n (take (Suc i) (commands pl)) (kids @ [kid])"
      using inv False wired_snoc [of base n "take i (commands pl)" kids kid cmd] by (simp add: loop_inv_def tk k_def)
    have "PipeW k \<notin> set base" using fresh by (simp add: pipes_fresh_def k_def)
    moreover have "PipeR (n + (length kids - 1)) \<notin> set base" using fresh by (simp add: pipes_fresh_def)
    ultimately have "close_fd (PipeW k) (case pending n kids of None \<Rightarrow> ?fds @ [PipeR k, PipeW k]
        | Some d \<Rightarrow> close_fd d (?fds @ [PipeR k, PipeW k])) = base @ [PipeR k]"
      by (cases kids) (auto simp: pending_def k_def)
    moreover have "i < pcount pl - 1" using i(1) by simp
    ultimately have "spawn v r pl (i # is) (pending n kids) ?fds k kids = spawn v r pl is (Some (PipeR k)) (base @ [PipeR k]) (Suc k) (kids @ [kid])"
      using False v at by (simp add: Let_def kid_def calls_succeed_def)
    then show thesis
      using new by (intro that [of "kids @ [kid]"]) (simp_all add: pending_def k_def)
  qed
qed

text \<open>The last command: its output is its own, and the shell has closed everything it opened.\<close>

lemma spawn_last:
  assumes v: "calls_succeed v" and fresh: "pipes_fresh n base" and inv: "loop_inv base n (take i (commands pl)) kids"
    and i: "Suc i = pcount pl" "pcount pl = length (commands pl)"
  shows "\<exists>sp. spawn v r pl [i] (pending n kids) (base @ (case pending n kids of None \<Rightarrow> [] | Some d \<Rightarrow> [d])) (n + length kids) kids = Inr sp \<and>
    sp_error sp = None \<and> wired base n (commands pl) (sp_kids sp) \<and>
    (if argv (last (commands pl)) = []
     then sp_kids sp = kids \<and> sp_fds sp = base @ (case pending n kids of None \<Rightarrow> [] | Some d \<Rightarrow> [d])
     else sp_kids sp \<noteq> [] \<and> sp_fds sp = base \<and>
       (\<forall>k. ch_out (last (sp_kids sp)) \<noteq> PipeW k))"
proof -
  define cmd where "cmd = commands pl ! i"
  have at: "cmd_at pl i = Inr cmd" and tk: "commands pl = take i (commands pl) @ [cmd]"
    using i take_Suc_conv_app_nth [of i "commands pl"] by (auto simp: cmd_at_def cmd_def)
  have l: "last (commands pl) = cmd" by (metis tk last_snoc)
  show ?thesis
  proof (cases "argv cmd = []")
    case True
    have "wired base n (commands pl) kids" using inv True wired_skip tk by (metis loop_inv_def)
    with True at l show ?thesis by simp
  next
    case False
    let ?fds = "base @ (case pending n kids of None \<Rightarrow> [] | Some d \<Rightarrow> [d])"
    define kid where "kid = child_setup v r (pending n kids) None ?fds cmd"
    have kid: "ch_open kid = base" "ch_argv kid = argv cmd" "\<forall>k. ch_out kid \<noteq> PipeW k"
      "kids \<noteq> [] \<longrightarrow> ch_in kid = PipeR (n + (length kids - 1))"
      using child_setup_simps [OF v] child_fds_base(2) [OF fresh, of n kids]
      by (auto simp: kid_def pending_def split: option.splits)
    have "wired base n (take i (commands pl) @ [cmd]) (kids @ [kid])"
      using inv kid False by (intro wired_snoc) (auto simp: loop_inv_def)
    then have "wired base n (commands pl) (kids @ [kid])" using tk by simp
    moreover have "PipeR (n + (length kids - 1)) \<notin> set base" using fresh by (simp add: pipes_fresh_def)
    then have "(case pending n kids of None \<Rightarrow> ?fds | Some d \<Rightarrow> close_fd d ?fds) = base"
      by (cases "kids = []") (auto simp: pending_def)
    moreover have "\<not> i < pcount pl - 1" using i(1) by simp
    ultimately show ?thesis
      using False v at l kid by (simp add: Let_def kid_def calls_succeed_def)
  qed
qed

lemma spawn_wires:
  assumes "calls_succeed v" "pipes_fresh n base" "pcount pl = length (commands pl)"
    and "loop_inv base n (take i (commands pl)) kids" "i < pcount pl"
  shows "\<exists>sp. spawn v r pl [i..<pcount pl] (pending n kids) (base @ (case pending n kids of None \<Rightarrow> [] | Some d \<Rightarrow> [d])) (n + length kids) kids = Inr sp \<and>
    sp_error sp = None \<and> wired base n (commands pl) (sp_kids sp) \<and>
    (if argv (last (commands pl)) = []
     then sp_fds sp = base @ (case pending n (sp_kids sp) of None \<Rightarrow> [] | Some d \<Rightarrow> [d])
     else sp_kids sp \<noteq> [] \<and> sp_fds sp = base \<and> (\<forall>k. ch_out (last (sp_kids sp)) \<noteq> PipeW k))"
  using assms(4,5)
proof (induction "pcount pl - Suc i" arbitrary: i kids)
  case 0
  then have i: "Suc i = pcount pl" by simp
  then have "[i..<pcount pl] = [i]" by (metis upt_conv_Cons lessI upt_rec less_irrefl)
  with spawn_last [OF assms(1,2) 0(2) i assms(3), of r] show ?case by auto
next
  case (Suc x)
  then have i: "Suc i < pcount pl" by simp
  obtain kids' where k: "loop_inv base n (take (Suc i) (commands pl)) kids'"
    and eq: "spawn v r pl (i # [Suc i..<pcount pl]) (pending n kids) (base @ (case pending n kids of None \<Rightarrow> [] | Some d \<Rightarrow> [d])) (n + length kids) kids =
      spawn v r pl [Suc i..<pcount pl] (pending n kids') (base @ (case pending n kids' of None \<Rightarrow> [] | Some d \<Rightarrow> [d])) (n + length kids') kids'"
    by (rule spawn_turn [OF assms(1,2) Suc.prems(1) i assms(3)])
  have "x = pcount pl - Suc (Suc i)" using Suc.hyps(2) by simp
  from Suc.hyps(1) [OF this k i] show ?case using eq Suc.prems(2) by (simp only: upt_conv_Cons)
qed

text \<open>
  C6: In a pipeline whose system calls succeed, there is one child for each non-empty command, in
  order; each child but the last writes into a pipe from which exactly the next child reads, and
  no child has any other end of these pipes open. The last command writes to its own output. If
  the last command is there, the shell closes all descriptors it has opened; if it is missing, as
  in \<open>a |\<close>, the shell keeps the reading end of the last pipe, so that the child before it can
  block forever.
\<close>

theorem pipeline_wiring:
  assumes "calls_succeed v" "pipes_fresh (w_npipes w) (w_pipes w)"
    and "pcount pl = length (commands pl)" "commands pl \<noteq> []"
  shows "\<exists>sp. spawn v all_commands pl [0..<pcount pl] None (w_pipes w) (w_npipes w) [] = Inr sp \<and> sp_error sp = None \<and>
    map ch_argv (sp_kids sp) = filter (\<lambda>a. a \<noteq> []) (map argv (commands pl)) \<and>
    (\<forall>c \<in> set (sp_kids sp). ch_open c = w_pipes w) \<and>
    (\<forall>m. Suc m < length (sp_kids sp) \<longrightarrow>
       ch_out (sp_kids sp ! m) = PipeW (w_npipes w + m) \<and> ch_in (sp_kids sp ! Suc m) = PipeR (w_npipes w + m)) \<and>
    (if argv (last (commands pl)) = []
     then sp_fds sp = w_pipes w @ (if sp_kids sp = [] then [] else [PipeR (w_npipes w + (length (sp_kids sp) - 1))])
     else sp_fds sp = w_pipes w \<and> (\<forall>k. ch_out (last (sp_kids sp)) \<noteq> PipeW k))"
proof -
  have "loop_inv (w_pipes w) (w_npipes w) (take 0 (commands pl)) []" by (simp add: loop_inv_def wired_def)
  from spawn_wires [OF assms(1-3) this, of all_commands] assms(3,4) show ?thesis
    by (auto simp: pending_def wired_def split: if_splits)
qed

section \<open>What pipelines and turns keep\<close>

lemma pipes_fresh_simps [simp]:
  "pipes_fresh n (xs @ ys) \<longleftrightarrow> pipes_fresh n xs \<and> pipes_fresh n ys"
  "pipes_fresh (Suc n) [PipeR n]" "pipes_fresh (Suc n) [PipeR n, PipeW n]" "pipes_fresh n []"
  "pipes_fresh m ds \<Longrightarrow> pipes_fresh m (close_fd d ds)" "pipes_fresh n ds \<Longrightarrow> pipes_fresh (Suc n) ds"
  by (auto simp: pipes_fresh_def close_fd_def)

lemma spawn_keeps_fresh:
  "spawn v r pl is prev fds n kids = Inr sp \<Longrightarrow> pipes_fresh n fds \<Longrightarrow> pipes_fresh (sp_next sp) (sp_fds sp)"
proof (induction "is" arbitrary: prev fds n kids)
  case (Cons i js)
  obtain cmd where cmd: "cmd_at pl i = Inr cmd" using Cons.prems(1) by (auto split: sum.splits)
  show ?case
  proof (cases "i < pcount pl - 1")
    case True
    let ?fds = "close_fd (PipeW n) (case prev of None \<Rightarrow> fds @ [PipeR n, PipeW n] | Some d \<Rightarrow> close_fd d (fds @ [PipeR n, PipeW n]))"
    have "pipes_fresh (Suc n) ?fds"
      using Cons.prems(2) by (cases prev) (simp_all del: close_fd_simps)
    with Cons.prems cmd True Cons.IH [of _ ?fds "Suc n"] Cons.IH [of prev fds n kids] show ?thesis
      by (auto simp: Let_def split: if_splits)
  next
    case False
    let ?fds = "case prev of None \<Rightarrow> fds | Some d \<Rightarrow> close_fd d fds"
    have "pipes_fresh n ?fds" using Cons.prems(2) by (cases prev) simp_all
    with Cons.prems cmd False Cons.IH [of _ ?fds n] Cons.IH [of prev fds n kids] show ?thesis
      by (auto simp: Let_def split: if_splits)
  qed
qed auto

text \<open>What holds at every prompt.\<close>

definition shell_inv :: "'d world \<Rightarrow> bool" where
  "shell_inv w \<longleftrightarrow> state_ok (w_state w) \<and> pipes_fresh (w_npipes w) (w_pipes w)"

text \<open>Children read from the terminal and put nothing back.\<close>

definition kids_only_read :: "'d kernel \<Rightarrow> bool" where
  "kids_only_read ke \<longleftrightarrow> (\<forall>kids s. length (ke_stdin ke kids s) \<le> length s)"

lemma execute_external_frame:
  assumes "execute_external v ke r pl w = Inr (ret, w')"
  shows "w_env w' = w_env w \<and> w_wd w' = w_wd w \<and> w_history w' = w_history w \<and> w_password w' = w_password w \<and>
    (\<exists>c. w_state w' = (w_state w)\<lparr>last_exit_code := c\<rparr>)"
  using assms
  by (auto simp: execute_external_def run_kids_def Let_def split: sum.splits option.splits if_splits
      intro: exI [of _ "last_exit_code (w_state w)"])

lemma execute_external_keeps:
  assumes "execute_external v ke r pl w = Inr (ret, w')" "shell_inv w" "kids_only_read ke"
  shows "shell_inv w' \<and> length (w_stdin w') \<le> length (w_stdin w)"
proof -
  obtain sp where sp: "spawn v r pl [0..<pcount pl] None (w_pipes w) (w_npipes w) [] = Inr sp"
    using assms(1) by (auto simp: execute_external_def split: sum.splits)
  have "pipes_fresh (sp_next sp) (sp_fds sp)" using spawn_keeps_fresh [OF sp] assms(2) by (simp add: shell_inv_def)
  moreover have "w_pipes w' = sp_fds sp \<and> w_npipes w' = sp_next sp \<and> w_stdin w' = ke_stdin ke (sp_kids sp) (w_stdin w)"
    using assms(1) sp by (auto simp: execute_external_def run_kids_def Let_def split: sum.splits option.splits if_splits)
  moreover have "state_ok (w_state w')"
    using execute_external_frame [OF assms(1)] assms(2) by (auto simp: shell_inv_def state_ok_def)
  ultimately show ?thesis using assms(3) by (simp add: shell_inv_def kids_only_read_def)
qed

lemma execute_pipeline_keeps:
  assumes "execute_pipeline sy cv serve v ke r pl w = Inr (ret, w')" "shell_inv w" "kids_only_read ke"
  shows "shell_inv w' \<and> length (w_stdin w') \<le> length (w_stdin w)"
proof -
  consider "w' = w" | "execute_external v ke r pl w = Inr (ret, w')"
    | h args where "run_handler sy cv serve r h args w = Inr (ret, w')"
    using assms(1) by (auto simp: execute_pipeline_def split: if_splits sum.splits option.splits)
  then show ?thesis
  proof cases
    case 2
    then show ?thesis by (rule execute_external_keeps [OF _ assms(2,3)])
  next
    case 3
    from run_handler_keeps [OF this] assms(2) show ?thesis by (simp add: shell_inv_def same_rest_def)
  qed (use assms in simp)
qed

lemma execute_pipeline_history:
  assumes "execute_pipeline sy cv serve v ke r pl w = Inr (ret, w')"
  shows "w_history w' = w_history w"
proof -
  consider "w' = w" | "execute_external v ke r pl w = Inr (ret, w')"
    | h args where "run_handler sy cv serve r h args w = Inr (ret, w')"
    using assms by (auto simp: execute_pipeline_def split: if_splits sum.splits option.splits)
  then show ?thesis
    by cases (auto dest: execute_external_frame run_handler_rest simp: same_rest_def)
qed

section \<open>The loop ends with its input\<close>

definition rl_consumes :: "readline \<Rightarrow> bool" where
  "rl_consumes rl \<longleftrightarrow> (\<forall>p s l rest. rl p s = (Some l, rest) \<longrightarrow> length rest < length s)"

lemma repl_turn_keeps:
  assumes "repl_turn ts serve rl r k w = Inr (goes_on, k', w')" "shell_inv w" "rl_consumes rl"
    and "kids_only_read (t_kernel (ts k))"
  shows "shell_inv w' \<and> (goes_on \<longrightarrow> length (w_stdin w') < length (w_stdin w)) \<and> (\<exists>ls. w_history w' = w_history w @ ls)"
proof -
  obtain k1 w1 where d: "detect_environment (t_sys (ts k)) k w = Inr (k1, w1)"
    using assms(1) by (auto simp: repl_turn_def Let_def split: sum.splits)
  from detect_environment_Inr [OF d] detect_environment_ok [OF d] assms(2)
  have w1: "shell_inv w1" "w_stdin w1 = w_stdin w" "w_history w1 = w_history w" by (auto simp: shell_inv_def)
  obtain p where p: "render_prompt (w_state w1) = Inr p"
    using render_prompt_text [of "w_state w1"] w1(1) by (auto simp: shell_inv_def)
  obtain l rest where rl: "rl p (w_stdin w1) = (l, rest)" by (rule prod.exhaust)
  show ?thesis
  proof (cases l)
    case None
    then show ?thesis using assms(1) d p rl w1 by (auto simp: repl_turn_def Let_def shell_inv_def)
  next
    case (Some line)
    then have less: "length rest < length (w_stdin w)" using assms(3) rl w1(2) by (auto simp: rl_consumes_def)
    let ?w3 = "w1\<lparr>w_stdin := rest, w_history := w_history w1 @ [line]\<rparr>"
    have w3: "shell_inv ?w3" using w1(1) by (simp add: shell_inv_def)
    show ?thesis
    proof (cases "line = []")
      case True
      then show ?thesis using assms(1) d p rl Some w1 less by (auto simp: repl_turn_def Let_def shell_inv_def)
    next
      case False
      then obtain pl ret where e: "execute_pipeline (t_sys (ts k)) (t_client (ts k)) serve (t_exec (ts k)) (t_kernel (ts k)) r pl ?w3 = Inr (ret, w')"
        using assms(1) d p rl Some by (auto simp: repl_turn_def Let_def split: sum.splits)
      have "w_history w' = w_history ?w3"
        by (rule execute_pipeline_history [OF e])
      then show ?thesis using execute_pipeline_keeps [OF e w3 assms(4)] less w1(3) by auto
    qed
  qed
qed

lemma repl_returns:
  assumes "rl_consumes rl" "\<forall>k. kids_only_read (t_kernel (ts k))"
  shows "shell_inv w \<Longrightarrow> length (w_stdin w) < n \<Longrightarrow>
    \<exists>res. repl n ts serve rl r k w = Some res \<and>
      (\<forall>w'. res = Inr w' \<longrightarrow> shell_inv w' \<and> (\<exists>ls. w_history w' = w_history w @ ls))"
proof (induction n arbitrary: k w)
  case (Suc n)
  show ?case
  proof (cases "repl_turn ts serve rl r k w")
    case (Inr x)
    then obtain go k1 w1 where t: "repl_turn ts serve rl r k w = Inr (go, k1, w1)" by (cases x) auto
    note keep = repl_turn_keeps [OF t Suc.prems(1) assms(1) assms(2) [rule_format]]
    show ?thesis
    proof (cases "running (w_state w) \<and> go")
      case True
      with keep Suc.prems(2) have "shell_inv w1" "length (w_stdin w1) < n" by auto
      from Suc.IH [OF this, of k1] True t keep show ?thesis by fastforce
    next
      case False
      then show ?thesis using t keep Suc.prems(1) by auto
    qed
  qed (use Suc.prems in auto)
qed simp

lemma shell_main_ends:
  assumes "rl_consumes rl" "\<forall>k. kids_only_read (t_kernel (ts k))"
    and "pipes_fresh (w_npipes w) (w_pipes w)" "length (w_stdin w) < n" "st_sodium m"
  shows "\<exists>res. szshell_main n m ts serve rl w = Some res \<and>
    (\<forall>code hist w'. res = Inr (code, hist, w') \<longrightarrow>
      state_ok (w_state w') \<and> code = last_exit_code (w_state w') \<and>
      (\<exists>path lines. path = hist_path (initial_state m (the (w_wd w))) \<and> hist = Some (path, st_history m path @ lines)))"
proof (cases "getcwd 1024 w")
  case (Some dir)
  define s where "s = initial_state m dir"
  have s: "state_ok s"
    using getcwd_Some [OF Some] by (auto simp: s_def initial_state_def state_ok_def Let_def strncpy_buf_def split: option.splits prod.splits)
  define w2 where "w2 = (if st_tty m then say banner (w\<lparr>w_state := s, w_history := st_history m (hist_path s)\<rparr>)
      else w\<lparr>w_state := s, w_history := st_history m (hist_path s)\<rparr>)"
  have "shell_inv w2" "length (w_stdin w2) < n" "w_history w2 = st_history m (hist_path s)"
    using s assms(3,4) by (simp_all add: w2_def shell_inv_def)
  moreover obtain res where "repl n ts serve rl all_commands 0 w2 = Some res"
    "\<forall>w'. res = Inr w' \<longrightarrow> shell_inv w' \<and> (\<exists>ls. w_history w' = w_history w2 @ ls)"
    using repl_returns [OF assms(1,2) calculation(1,2)] by blast
  moreover have "szshell_main n m ts serve rl w =
      (case repl n ts serve rl all_commands 0 w2 of None \<Rightarrow> None | Some (Inl e) \<Rightarrow> Some (Inl e)
       | Some (Inr w3) \<Rightarrow> Some (Inr (last_exit_code (w_state w3), Some (hist_path s, w_history w3), w3)))"
    unfolding szshell_main_def s_def w2_def Let_def using assms(5) Some by (simp add: cmd_register_all_eq)
  ultimately show ?thesis
    using getcwd_Some [OF Some] by (cases res) (auto simp: shell_inv_def s_def)
qed (use assms(5) in \<open>simp add: szshell_main_def\<close>)

lemma shell_main_returns:
  assumes "rl_consumes rl" "\<forall>k. kids_only_read (t_kernel (ts k))"
    and "pipes_fresh (w_npipes w) (w_pipes w)" "length (w_stdin w) < n"
  shows "\<exists>res. szshell_main n m ts serve rl w = Some res"
proof (cases "st_sodium m")
  case True
  from shell_main_ends [OF assms this] show ?thesis by blast
qed (simp add: szshell_main_def)


section \<open>A session at the terminal and the daemon\<close>

context daemon_link
begin

lemma execute_pipeline_inv:
  assumes "execute_pipeline sy cv serve v ke r pl w = Inr (ret, w')" "inv (w_daemon w)"
    and "\<And>kids d. inv d \<Longrightarrow> inv (ke_daemon ke kids d)"
  shows "inv (w_daemon w')"
proof -
  consider "w' = w" | "execute_external v ke r pl w = Inr (ret, w')"
    | h args where "run_handler sy cv serve r h args w = Inr (ret, w')"
    using assms(1) by (auto simp: execute_pipeline_def split: if_splits sum.splits option.splits)
  then show ?thesis
  proof cases
    case 2
    then show ?thesis
      using assms(2,3) by (auto simp: execute_external_def run_kids_def Let_def split: sum.splits option.splits if_splits)
  next
    case 3
    then show ?thesis using assms(2) by (rule run_handler_inv)
  qed (use assms(2) in simp)
qed

lemma repl_turn_inv:
  assumes "repl_turn ts serve rl r k w = Inr (goes_on, k', w')" "inv (w_daemon w)"
    and "\<And>kids d. inv d \<Longrightarrow> inv (ke_daemon (t_kernel (ts k)) kids d)"
  shows "inv (w_daemon w')"
proof -
  obtain k1 w1 where d: "detect_environment (t_sys (ts k)) k w = Inr (k1, w1)"
    using assms(1) by (auto simp: repl_turn_def Let_def split: sum.splits)
  from detect_environment_Inr [OF d] assms(2) have w1: "inv (w_daemon w1)" by auto
  consider rest ms where "w' = say ms (w1\<lparr>w_stdin := rest\<rparr>)"
    | rest where "w' = w1\<lparr>w_stdin := rest\<rparr>"
    | rest hist pl ret where "execute_pipeline (t_sys (ts k)) (t_client (ts k)) serve (t_exec (ts k)) (t_kernel (ts k)) r pl
        (w1\<lparr>w_stdin := rest, w_history := hist\<rparr>) = Inr (ret, w')"
    using assms(1) d by (auto simp: repl_turn_def Let_def split: sum.splits prod.splits option.splits if_splits)
  then show ?thesis
    by cases (use w1 assms(3) in \<open>auto intro: execute_pipeline_inv\<close>)
qed

lemma repl_inv:
  assumes "\<And>k kids d. inv d \<Longrightarrow> inv (ke_daemon (t_kernel (ts k)) kids d)"
  shows "inv (w_daemon w) \<Longrightarrow> repl n ts serve rl r k w = Some (Inr w') \<Longrightarrow> inv (w_daemon w')"
proof (induction n arbitrary: k w)
  case (Suc n)
  show ?case
  proof (cases "running (w_state w)")
    case True
    then obtain go k1 w1 where t: "repl_turn ts serve rl r k w = Inr (go, k1, w1)"
      using Suc.prems(2) by (auto split: sum.splits prod.splits)
    have "inv (w_daemon w1)" by (rule repl_turn_inv [OF t Suc.prems(1) assms])
    then show ?thesis using Suc.IH [of w1 k1] Suc.prems(2) True t by (simp split: if_splits)
  qed (use Suc.prems in simp)
qed simp

lemma szshell_main_inv:
  assumes "\<And>k kids d. inv d \<Longrightarrow> inv (ke_daemon (t_kernel (ts k)) kids d)"
    and "inv (w_daemon w)" "szshell_main n m ts serve rl w = Some (Inr (code, hist, w'))"
  shows "inv (w_daemon w')"
proof -
  have key: "inv (w_daemon w')" if "repl n ts serve rl r 0 u = Some (Inr w')" "w_daemon u = w_daemon w" for r u
    using repl_inv [of ts u n rl r 0 w', OF assms(1)] assms(2) that by simp
  show ?thesis
    using assms(2,3) by (auto simp: szshell_main_def Let_def split: if_splits option.splits sum.splits elim!: key)
qed

end

section \<open>Examples\<close>

definition exec_env0 :: exec_env where
  "exec_env0 = \<lparr>ex_pipe = (\<lambda>i. True), ex_fork = (\<lambda>i. True), ex_open_r = (\<lambda>f. True), ex_open_w = (\<lambda>f. True)\<rparr>"

text \<open>Every child ends at once with status 4.\<close>

definition kernel0 :: "'d kernel" where
  "kernel0 = \<lparr>ke_out = (\<lambda>c. []), ke_daemon = (\<lambda>c d. d), ke_stdin = (\<lambda>c s. s), ke_status = (\<lambda>c i. Some (Exited 4))\<rparr>"

definition turns0 :: "'d turns" where
  "turns0 k = \<lparr>t_sys = sys0, t_client = client_env0, t_exec = exec_env0, t_kernel = kernel0, t_malloc = True\<rparr>"

definition readline0 :: readline where
  "readline0 p s =
     (if s = [] then (None, []) else (Some (takeWhile (\<lambda>c. c \<noteq> CHR 0x0A) s), tl (dropWhile (\<lambda>c. c \<noteq> CHR 0x0A) s)))"

definition start0 :: start_env where
  "start0 = \<lparr>st_sodium = True, st_passwd = Some (''ann'', ''/home/ann''), st_uid = 1000, st_hostname = ''sz'',
     st_history = (\<lambda>p. [''ls'']), st_tty = False\<rparr>"

lemma start0_sodium [simp]: "st_sodium start0"
  by (simp add: start0_def)

lemma calls_succeed0 [simp]: "calls_succeed exec_env0"
  by (simp add: calls_succeed_def exec_env0_def)

lemma readline0_consumes: "rl_consumes readline0"
  unfolding rl_consumes_def
proof (intro allI impI)
  fix p s l rest
  assume "readline0 p s = (Some l, rest)"
  then have "s \<noteq> []" "rest = tl (dropWhile (\<lambda>c. c \<noteq> CHR 0x0A) s)" by (simp_all add: readline0_def split: if_splits)
  moreover from this have "0 < length s" by simp
  ultimately show "length rest < length s"
    using length_dropWhile_le [of "\<lambda>c. c \<noteq> CHR 0x0A" s] by (simp only: length_tl)
qed


theorem pipeline_wiring_witness:
  "\<exists>sp. spawn exec_env0 all_commands
      \<lparr>commands = [no_command\<lparr>argv := [''ls'']\<rparr>, no_command\<lparr>argv := [''wc'']\<rparr>], pcount = 2\<rparr>
      [0..<2] None [] 0 [] = Inr sp \<and> map ch_argv (sp_kids sp) = [[''ls''], [''wc'']] \<and>
      ch_out (sp_kids sp ! 0) = PipeW 0 \<and> ch_in (sp_kids sp ! 1) = PipeR 0 \<and> sp_fds sp = []"
proof -
  let ?pl = "\<lparr>commands = [no_command\<lparr>argv := [''ls'']\<rparr>, no_command\<lparr>argv := [''wc'']\<rparr>], pcount = 2\<rparr>"
  obtain sp where sp: "spawn exec_env0 all_commands ?pl [0..<2] None [] 0 [] = Inr sp"
    "map ch_argv (sp_kids sp) = [[''ls''], [''wc'']]" "sp_fds sp = []"
    "\<forall>m. Suc m < length (sp_kids sp) \<longrightarrow> ch_out (sp_kids sp ! m) = PipeW m \<and> ch_in (sp_kids sp ! Suc m) = PipeR m"
    using pipeline_wiring [of exec_env0 "world0 [] ()" ?pl] by (auto simp: world0_def)
  from sp(2) have "length (sp_kids sp) = 2" by (metis length_map length_Cons list.size(3) numeral_2_eq_2)
  with sp show ?thesis by (intro exI [of _ sp]) auto
qed

section \<open>What a pipeline leaves in the shell\<close>

text \<open>
  A pipeline of several commands cannot change the shell, even if it consists of builtins such as
  \<open>cd\<close> or \<open>export\<close>: the environment, the working directory, the history and the state stay as they are,
  but for the exit code. If the system calls succeed, the shell waits unless the \<^emph>\<open>first\<close> command is
  marked with an ampersand, and returns and stores the exit status of the last child, 1 if it was
  killed; the mark on any later command, where the parser puts it for \<open>a | b &\<close>, has no effect.
\<close>

theorem pipeline_outcome:
  assumes "execute_pipeline sy cv serve v ke r pl w = Inr (ret, w')" "2 \<le> pcount pl" "pcount pl = length (commands pl)"
  shows "w_env w' = w_env w \<and> w_wd w' = w_wd w \<and> w_history w' = w_history w \<and>
    w_state w' = (w_state w)\<lparr>last_exit_code := last_exit_code (w_state w')\<rparr> \<and>
    (calls_succeed v \<and> pipes_fresh (w_npipes w) (w_pipes w) \<longrightarrow>
      (\<exists>kids. map ch_argv kids = filter (\<lambda>a. a \<noteq> []) (map argv (commands pl)) \<and>
        (if background (hd (commands pl)) then ret = 0 \<and> w_state w' = w_state w
         else last_exit_code (w_state w') = ret \<and>
           (if kids = [] then ret = 0
            else \<exists>st. ke_status ke kids (length kids - 1) = Some st \<and>
                      ret = (case st of Exited s \<Rightarrow> int s | Killed \<Rightarrow> 1)))))"
proof -
  have e: "execute_external v ke r pl w = Inr (ret, w')" using assms(1,2) by (simp add: execute_pipeline_def)
  have ne: "commands pl \<noteq> []" using assms(2,3) by auto
  have at: "cmd_at pl 0 = Inr (hd (commands pl))" using ne by (simp add: cmd_at_def hd_conv_nth)
  have "w_state w' = (w_state w)\<lparr>last_exit_code := last_exit_code (w_state w')\<rparr>"
    using execute_external_frame [OF e] by auto
  moreover have "\<exists>kids. map ch_argv kids = filter (\<lambda>a. a \<noteq> []) (map argv (commands pl)) \<and>
        (if background (hd (commands pl)) then ret = 0 \<and> w_state w' = w_state w
         else last_exit_code (w_state w') = ret \<and>
           (if kids = [] then ret = 0
            else \<exists>st. ke_status ke kids (length kids - 1) = Some st \<and>
                      ret = (case st of Exited s \<Rightarrow> int s | Killed \<Rightarrow> 1)))"
    if v: "calls_succeed v" "pipes_fresh (w_npipes w) (w_pipes w)"
  proof -
    have "loop_inv (w_pipes w) (w_npipes w) (take 0 (commands pl)) []" by (simp add: loop_inv_def wired_def)
    from spawn_wires [OF v assms(3) this, of r] ne assms(3)
    obtain sp where sp: "spawn v r pl [0..<pcount pl] None (w_pipes w) (w_npipes w) [] = Inr sp" "sp_error sp = None"
      "wired (w_pipes w) (w_npipes w) (commands pl) (sp_kids sp)" by (auto simp: pending_def)
    have kids: "map ch_argv (sp_kids sp) = filter (\<lambda>a. a \<noteq> []) (map argv (commands pl))"
      using sp(3) by (simp add: wired_def)
    moreover have "if background (hd (commands pl)) then ret = 0 \<and> w_state w' = w_state w
         else last_exit_code (w_state w') = ret \<and>
           (if sp_kids sp = [] then ret = 0
            else \<exists>st. ke_status ke (sp_kids sp) (length (sp_kids sp) - 1) = Some st \<and>
                      ret = (case st of Exited s \<Rightarrow> int s | Killed \<Rightarrow> 1))"
      using e sp(1,2) at
      by (auto simp: execute_external_def run_kids_def wait_all_def Let_def split: if_splits sum.splits option.splits wait_status.splits)
    ultimately show ?thesis by blast
  qed
  ultimately show ?thesis using execute_external_frame [OF e] by blast
qed

text \<open>The line \<open>false | cat &\<close>: the shell waits for both although the line asks for the background.\<close>

theorem pipeline_outcome_witness:
  "\<exists>pl w'. parse_line Map.empty True (Some ''false | cat &'') = Inr pl \<and> background (commands pl ! 1) \<and>
     execute_pipeline sys0 client_env0 (\<lambda>j d. (None, d)) exec_env0 kernel0 all_commands pl (world0 [] ()) = Inr (4, w') \<and>
     last_exit_code (w_state w') = 4"
proof -
  let ?pl = "\<lparr>commands = [no_command\<lparr>argv := [''false'']\<rparr>, no_command\<lparr>argv := [''cat''], background := True\<rparr>], pcount = 2\<rparr>"
  let ?x = "execute_pipeline sys0 client_env0 (\<lambda>j d. (None, d)) exec_env0 kernel0 all_commands ?pl (world0 [] ())"
  have p: "parse_line Map.empty True (Some ''false | cat &'') = Inr ?pl" by code_simp
  have "map_sum id fst ?x = Inr 4" by code_simp
  then obtain w' where x: "?x = Inr (4, w')" by (cases ?x) auto
  have "last_exit_code (w_state w') = 4"
    using pipeline_outcome [OF x] by (auto simp: world0_def)
  with p x show ?thesis by (intro exI [of _ ?pl] exI [of _ w']) simp
qed

section \<open>Too many segments\<close>

lemma spawn_overrun:
  assumes "calls_succeed v" "MAX_PIPE_SEGMENTS \<in> set is" "length (commands pl) \<le> MAX_PIPE_SEGMENTS"
  shows "spawn v r pl is prev fds n kids = Inl EUndefined"
  using assms(2)
proof (induction "is" arbitrary: prev fds n kids)
  case (Cons i js)
  show ?case
  proof (cases "i = MAX_PIPE_SEGMENTS")
    case True
    then show ?thesis using assms(3) by (simp add: cmd_at_def)
  next
    case False
    then have "MAX_PIPE_SEGMENTS \<in> set js" using Cons.prems by auto
    then show ?thesis
      using Cons.IH assms(1) by (auto simp: Let_def calls_succeed_def cmd_at_def)
  qed
qed simp

text \<open>
  A line that the parser accepts as more than 16 segments makes the shell read and run a command
  beyond the end of its array, whatever the system answers as long as its calls succeed.
\<close>

theorem long_pipeline_undefined:
  assumes "parse_line e b (Some line) = Inr pl" "MAX_PIPE_SEGMENTS < pcount pl" "calls_succeed v"
  shows "execute_pipeline sy cv serve v ke r pl w = Inl EUndefined"
proof -
  have "length (commands pl) \<le> MAX_PIPE_SEGMENTS" using parse_line_shape assms(1) by blast
  moreover have "MAX_PIPE_SEGMENTS \<in> set [0..<pcount pl]" using assms(2) by simp
  ultimately show ?thesis
    using spawn_overrun [OF assms(3), of "[0..<pcount pl]"] assms(2)
    by (simp add: execute_pipeline_def execute_external_def)
qed

theorem long_pipeline_undefined_witness:
  "\<exists>pl. parse_line Map.empty True (Some ''a|a|a|a|a|a|a|a|a|a|a|a|a|a|a|a|a'') = Inr pl \<and>
     execute_pipeline sys0 client_env0 (\<lambda>j d. (None, d)) exec_env0 kernel0 all_commands pl (world0 [] ()) = Inl EUndefined"
proof -
  let ?p = "parse_line Map.empty True (Some ''a|a|a|a|a|a|a|a|a|a|a|a|a|a|a|a|a'')"
  have "map_sum id pcount ?p = Inr 17" by code_simp
  then obtain pl where pl: "?p = Inr pl" "pcount pl = 17" by (cases ?p) auto
  then have "execute_pipeline sys0 client_env0 (\<lambda>j d. (None, d)) exec_env0 kernel0 all_commands pl (world0 [] ()) = Inl EUndefined"
    by (intro long_pipeline_undefined [OF pl(1)]) simp_all
  with pl(1) show ?thesis by blast
qed

end
