(* ===== verification/Shell_Daemon.thy ===== *)
theory Shell_Daemon
  imports Shell_Exec Crypticd_Server
begin

text \<open>
  The shell and the daemon together: the server the commands of \<open>Shell_Client\<close> talk to is
  \<open>client_handler\<close> of \<open>Crypticd_Server\<close> on the state of the engine.
\<close>

section \<open>The daemon as the server of the shell\<close>

definition daemon_serve :: "'g gh_api \<Rightarrow> daemon_env \<Rightarrow> engine_state server" where
  "daemon_serve H v json st =
     (case client_handler H v (Some json) st of
        (Inr r, st') \<Rightarrow> (r, st')
      | (Inl _, st') \<Rightarrow> (None, st'))"

section \<open>Requests are parsed back\<close>

lemma append_char_cancel:
  "c \<notin> set a \<Longrightarrow> c \<notin> set b \<Longrightarrow> a @ c # x = b @ c # y \<Longrightarrow> a = b \<and> x = y"
proof (induction a arbitrary: b)
  case Nil
  then show ?case by (cases b) auto
next
  case (Cons d a)
  then show ?case by (cases b) auto
qed

text \<open>A quoted value is not taken for the beginning of a field.\<close>

lemma no_field_in_value:
  assumes "DQ \<notin> set val" "DQ \<notin> set f" "d \<noteq> CHR '':''"
  shows "\<not> is_prefix (f @ DQ # CHR '':'' # n) (val @ DQ # d # rest)"
proof
  assume "is_prefix (f @ DQ # CHR '':'' # n) (val @ DQ # d # rest)"
  then obtain t where "val @ DQ # d # rest = f @ DQ # CHR '':'' # n @ t" by (auto simp: is_prefix_iff)
  from append_char_cancel [OF assms(1,2) this] have "d # rest = CHR '':'' # n @ t" by (rule conjunct2)
  then show False using assms(3) by simp
qed

lemma extract_here:
  assumes "strstr json (DQ # f @ DQ # CHR '':'' # [DQ]) = Some (DQ # f @ DQ # CHR '':'' # DQ # val @ DQ # rest)"
    and "DQ \<notin> set val" "length f < 120"
  shows "extract_field True json f = Some val"
  using assms by (simp add: extract_field_def snprintf_buf_def Let_def)

lemma strstr_value:
  "DQ \<notin> set val \<Longrightarrow> DQ \<notin> set f \<Longrightarrow>
   strstr (DQ # val @ DQ # CHR '','' # rest) (DQ # f @ DQ # CHR '':'' # n) =
     strstr (DQ # CHR '','' # rest) (DQ # f @ DQ # CHR '':'' # n)"
  using no_field_in_value [of val f "CHR '',''" n rest] by (simp add: strstr_skip)

lemma request_fields:
  fixes p pw c tail :: string
  assumes "DQ \<notin> set p" "DQ \<notin> set pw" "DQ \<notin> set c" "length c < 20"
  defines "json \<equiv> ''{'' @ DQ # ''cmd'' @ DQ # '':'' @ DQ # c @ DQ # '','' @ DQ # ''path'' @ DQ # '':'' @ DQ # p @ DQ # '','' @
     DQ # ''password'' @ DQ # '':'' @ DQ # pw @ DQ # tail"
  shows "extract_field True json ''cmd'' = Some c" "extract_field True json ''path'' = Some p"
    "extract_field True json ''password'' = Some pw"
proof -
  show "extract_field True json ''cmd'' = Some c"
    using assms(3) by (intro extract_here) (simp_all add: json_def)
  note skip = strstr_value
  show "extract_field True json ''path'' = Some p"
  proof (rule extract_here)
    show "strstr json (DQ # ''path'' @ DQ # CHR '':'' # [DQ]) = Some (DQ # ''path'' @ DQ # CHR '':'' # DQ # p @ DQ #
        '','' @ DQ # ''password'' @ DQ # '':'' @ DQ # pw @ DQ # tail)"
      using skip [of c "''path''"] assms(3) by (simp add: json_def)
  qed (use assms in simp_all)
  show "extract_field True json ''password'' = Some pw"
  proof (rule extract_here)
    show "strstr json (DQ # ''password'' @ DQ # CHR '':'' # [DQ]) = Some (DQ # ''password'' @ DQ # CHR '':'' # DQ # pw @ DQ # tail)"
      using skip [of c "''password''"] skip [of p "''password''"] assms by (simp add: json_def)
  qed (use assms in simp_all)
qed

section \<open>Encryption and decryption through the daemon\<close>

text \<open>Texts that travel unchanged in a request: no quote and no null character.\<close>

definition clean :: "string \<Rightarrow> bool" where
  "clean t \<longleftrightarrow> DQ \<notin> set t \<and> CHR 0x00 \<notin> set t"

lemma resp_status_text:
  \<open>resp_status r = (if rc r = 0 then ''{"status":"ok"}'' else ''{"status":"error"}'')\<close>
  by (simp add: resp_status_def snprintf_buf_def)

lemma says_ok_status: "says_ok (resp_status r) \<longleftrightarrow> rc r = 0"
  by (simp add: resp_status_text says_ok_def)

lemma serve_whole:
  assumes "CHR 0x00 \<notin> set json" "length json < 4096" "json \<noteq> []"
    and "handle_command H v json st = (Inr resp, st')"
  shows "daemon_serve H v json st = (Some resp, st')"
  using assms by (simp add: daemon_serve_def client_handler_def)

text \<open>The requests of \<open>encrypt\<close> and \<open>decrypt\<close> reach the engine as they were meant.\<close>

lemma serve_szenc:
  assumes "clean p" "clean pw" "length p < 1024" "length pw < 256" "da_malloc_ok v"
  shows "daemon_serve H v (encrypt_request p pw) st =
      (case cryptic_encrypt_file (da_sodium v) (da_file v) (Some p) (Some pw) (e_files st, e_mem st) of
         (r, f, m) \<Rightarrow> (Some (resp_status r), st\<lparr>e_files := f, e_mem := m\<rparr>))"
    "daemon_serve H v (decrypt_request p pw) st =
      (case cryptic_decrypt_file (da_sodium v) (da_file v) (Some p) (Some pw) (e_files st, e_mem st) of
         (r, f, m) \<Rightarrow> (Some (resp_status r), st\<lparr>e_files := f, e_mem := m\<rparr>))"
proof -
  define js where "js = (\<lambda>c. ''{'' @ DQ # ''cmd'' @ DQ # '':'' @ DQ # c @ DQ # '','' @ DQ # ''path'' @ DQ # '':'' @ DQ # p @ DQ #
     '','' @ DQ # ''password'' @ DQ # '':'' @ DQ # pw @ DQ # ''}'')"
  have e: "encrypt_request p pw = js ''encrypt''" and d: "decrypt_request p pw = js ''decrypt''"
    using assms by (simp_all add: encrypt_request_def decrypt_request_def js_def)
  have f: "extract_field True (js c) ''cmd'' = Some c" "extract_field True (js c) ''path'' = Some p"
    "extract_field True (js c) ''password'' = Some pw" if "DQ \<notin> set c" "length c < 20" for c
    unfolding js_def using request_fields [of p pw c "''}''"] that assms(1,2) by (simp_all add: clean_def)
  have nul: "CHR 0x00 \<notin> set (js c)" "length (js c) < 4096" "js c \<noteq> []" if "c = ''encrypt'' \<or> c = ''decrypt''" for c
    using that assms by (auto simp: js_def clean_def)
  obtain r1 f1 m1 where r1: "cryptic_encrypt_file (da_sodium v) (da_file v) (Some p) (Some pw) (e_files st, e_mem st) =
      (r1, f1, m1)" by (metis prod.exhaust)
  obtain r2 f2 m2 where r2: "cryptic_decrypt_file (da_sodium v) (da_file v) (Some p) (Some pw) (e_files st, e_mem st) =
      (r2, f2, m2)" by (metis prod.exhaust)
  have he: "handle_command H v (js ''encrypt'') st = (Inr (resp_status r1), st\<lparr>e_files := f1, e_mem := m1\<rparr>)"
    using assms(5) f [of "''encrypt''"] r1 by (simp add: handle_command_defs Let_def)
  have hd: "handle_command H v (js ''decrypt'') st = (Inr (resp_status r2), st\<lparr>e_files := f2, e_mem := m2\<rparr>)"
    using assms(5) f [of "''decrypt''"] r2 by (simp add: handle_command_defs Let_def)
  have "daemon_serve H v (js ''encrypt'') st = (Some (resp_status r1), st\<lparr>e_files := f1, e_mem := m1\<rparr>)"
    by (rule serve_whole [OF _ _ _ he]) (rule nul, simp)+
  moreover have "daemon_serve H v (js ''decrypt'') st = (Some (resp_status r2), st\<lparr>e_files := f2, e_mem := m2\<rparr>)"
    by (rule serve_whole [OF _ _ _ hd]) (rule nul, simp)+
  ultimately show "daemon_serve H v (encrypt_request p pw) st =
      (case cryptic_encrypt_file (da_sodium v) (da_file v) (Some p) (Some pw) (e_files st, e_mem st) of
         (r, f, m) \<Rightarrow> (Some (resp_status r), st\<lparr>e_files := f, e_mem := m\<rparr>))"
    "daemon_serve H v (decrypt_request p pw) st =
      (case cryptic_decrypt_file (da_sodium v) (da_file v) (Some p) (Some pw) (e_files st, e_mem st) of
         (r, f, m) \<Rightarrow> (Some (resp_status r), st\<lparr>e_files := f, e_mem := m\<rparr>))"
    by (simp_all add: e d r1 r2)
qed

text \<open>What the shell makes of the answer to such a request.\<close>

lemma send_status:
  assumes "cl_socket_ok cl" "cl_connect_ok cl" "cl_strdup_ok cl"
    and "serve j (w_daemon w) = (Some (resp_status r), d)"
  shows "report good bad down (send_daemon_cmd cl serve j w) =
    (0, say [if rc r = 0 then good else bad] (w\<lparr>w_daemon := d\<rparr>))"
proof -
  have "take 4095 (resp_status r) = resp_status r" "resp_status r \<noteq> []" "cstr (resp_status r) = resp_status r"
    by (simp_all add: resp_status_text)
  then show ?thesis
    using assms by (simp add: send_daemon_cmd_def report_def says_ok_status)
qed

lemma cmd_encrypt_served:
  assumes "cl_socket_ok cl" "cl_connect_ok cl" "cl_strdup_ok cl" "da_malloc_ok v"
    and "typed pw1" "pw1 \<noteq> []" "typed pw" "w_stdin w = pw1 @ CHR 0x0A # pw @ CHR 0x0A # rest"
    and "p = resolve_path f (w_state w)" "clean p" "clean pw"
    and "cryptic_encrypt_file (da_sodium v) (da_file v) (Some p) (Some pw)
      (e_files (w_daemon w), e_mem (w_daemon w)) = (r, files', m')"
  shows "\<exists>w1. cmd_encrypt cl (daemon_serve H v) [c, f] w = (0, w1) \<and> w_state w1 = w_state w \<and> w_stdin w1 = rest \<and>
    w_daemon w1 = (w_daemon w)\<lparr>e_files := files', e_mem := m'\<rparr> \<and>
    last (w_out w1) = (if rc r = 0 then Out ''Encrypted: %s -> %s.szenc'' [f, f] else Out ''Encryption failed'' [])"
proof -
  let ?w1 = "(say [Err ''Encryption password: '' []] w)\<lparr>w_stdin := pw @ CHR 0x0A # rest, w_password := pw1\<rparr>"
  let ?w2 = "(say [Err ''Confirm password: '' []] ?w1)\<lparr>w_stdin := rest, w_password := pw\<rparr>"
  have p1: "prompt_password ''Encryption password: '' w = (True, ?w1)"
    using prompt_typed [OF assms(5,8)] .
  have "w_stdin ?w1 = pw @ CHR 0x0A # rest" by simp
  from prompt_typed [OF assms(7) this] have p2: "prompt_password ''Confirm password: '' ?w1 = (True, ?w2)" .
  have len: "length p < 1024" "length pw < 256"
    using assms(7,9) bounded_copy_length [of 1024] by (auto simp: resolve_path_def typed_def)
  have "daemon_serve H v (encrypt_request p pw) (w_daemon ?w2) =
      (Some (resp_status r), (w_daemon w)\<lparr>e_files := files', e_mem := m'\<rparr>)"
    using serve_szenc(1) [OF assms(10,11) len assms(4), where H = H and st = "w_daemon w"] assms(12) by simp
  from send_status [where serve = "daemon_serve H v" and w = ?w2, OF assms(1-3) this]
  show ?thesis using p1 p2 assms(6,9) by (simp add: cmd_encrypt_def)
qed

lemma cmd_decrypt_served:
  assumes "cl_socket_ok cl" "cl_connect_ok cl" "cl_strdup_ok cl" "da_malloc_ok v"
    and "typed pw" "w_stdin w = pw @ CHR 0x0A # rest"
    and "p = resolve_path f (w_state w)" "clean p" "clean pw"
    and "cryptic_decrypt_file (da_sodium v) (da_file v) (Some p) (Some pw)
      (e_files (w_daemon w), e_mem (w_daemon w)) = (r, files', m')"
  shows "\<exists>w1. cmd_decrypt cl (daemon_serve H v) [c, f] w = (0, w1) \<and> w_state w1 = w_state w \<and>
    w_daemon w1 = (w_daemon w)\<lparr>e_files := files', e_mem := m'\<rparr> \<and>
    last (w_out w1) = (if rc r = 0 then Out ''Decrypted successfully'' [] else Out ''Decryption failed - wrong password?'' [])"
proof -
  let ?w1 = "(say [Err ''Decryption password: '' []] w)\<lparr>w_stdin := rest, w_password := pw\<rparr>"
  have p1: "prompt_password ''Decryption password: '' w = (True, ?w1)"
    using prompt_typed [OF assms(5,6)] .
  have len: "length p < 1024" "length pw < 256"
    using assms(5,7) bounded_copy_length [of 1024] by (auto simp: resolve_path_def typed_def)
  have "daemon_serve H v (decrypt_request p pw) (w_daemon ?w1) =
      (Some (resp_status r), (w_daemon w)\<lparr>e_files := files', e_mem := m'\<rparr>)"
    using serve_szenc(2) [OF assms(8,9) len assms(4), where H = H and st = "w_daemon w"] assms(10) by simp
  from send_status [where serve = "daemon_serve H v" and w = ?w1, OF assms(1-3) this]
  show ?thesis using p1 assms(7) by (simp add: cmd_decrypt_def)
qed

section \<open>Requests that say something else\<close>

text \<open>
  The requests of the shell are built without escaping: a file name that contains a quoted
  \<open>password\<close> field makes the daemon encrypt another file, the part in front of it, under the
  password in the name, whatever password the user types.
\<close>

theorem shell_request_injection:
  assumes "clean a" "clean b" "CHR 0x00 \<notin> set pw" "length a + length b < 1000" "length pw < 256" "da_malloc_ok v"
  defines "name \<equiv> a @ DQ # '','' @ DQ # ''password'' @ DQ # '':'' @ DQ # b"
  shows "daemon_serve H v (encrypt_request name pw) st =
      (case cryptic_encrypt_file (da_sodium v) (da_file v) (Some a) (Some b) (e_files st, e_mem st) of
         (r, f, m) \<Rightarrow> (Some (resp_status r), st\<lparr>e_files := f, e_mem := m\<rparr>))"
proof -
  define json where "json = ''{'' @ DQ # ''cmd'' @ DQ # '':'' @ DQ # ''encrypt'' @ DQ # '','' @ DQ # ''path'' @ DQ # '':'' @ DQ # a @ DQ #
     '','' @ DQ # ''password'' @ DQ # '':'' @ DQ # b @ DQ # '','' @ DQ # ''password'' @ DQ # '':'' @ DQ # pw @ DQ # ''}''"
  have e: "encrypt_request name pw = json"
    using assms by (simp add: encrypt_request_def json_def)
  have f: "extract_field True json ''cmd'' = Some ''encrypt''" "extract_field True json ''path'' = Some a"
    "extract_field True json ''password'' = Some b"
    unfolding json_def
    using request_fields [of a b "''encrypt''" "'','' @ DQ # ''password'' @ DQ # '':'' @ DQ # pw @ DQ # ''}''"] assms(1,2)
    by (simp_all add: clean_def)
  obtain r files m where r: "cryptic_encrypt_file (da_sodium v) (da_file v) (Some a) (Some b) (e_files st, e_mem st) =
      (r, files, m)" by (metis prod.exhaust)
  have h: "handle_command H v json st = (Inr (resp_status r), st\<lparr>e_files := files, e_mem := m\<rparr>)"
    using assms(6) f r by (simp add: handle_command_defs Let_def)
  have "CHR 0x00 \<notin> set json" "length json < 4096" "json \<noteq> []"
    using assms by (auto simp: json_def clean_def)
  from serve_whole [OF this h] show ?thesis by (simp add: e r)
qed

lemma serve_nxe_load:
  assumes "CHR 0x00 \<notin> set p" "\<forall>t. pw = Some t \<longrightarrow> CHR 0x00 \<notin> set t" "da_malloc_ok v"
  shows \<open>daemon_serve H v (nxe_request p pw) st = (Some ''{"status":"error","msg":"unknown command: nxe_load"}'', st)\<close>
proof -
  obtain X where X: \<open>nxe_request p pw = ''{"cmd":"nxe_load","'' @ X\<close> "CHR 0x00 \<notin> set X"
    "length (nxe_request p pw) < 4096"
  proof
    let ?has = "case pw of None \<Rightarrow> False | Some t \<Rightarrow> length t > 0"
    let ?X = \<open>''path":"'' @ p @ ''"'' @ (if ?has then '',"password":"'' else []) @ (if ?has then the pw else []) @
       (if ?has then ''"'' else []) @ ''}''\<close>
    show \<open>nxe_request p pw = ''{"cmd":"nxe_load","'' @ take (4095 - 19) ?X\<close>
      by (simp add: nxe_request_def snprintf_buf_def Let_def)
    have "CHR 0x00 \<notin> set ?X" using assms(1,2) by (auto split: option.splits)
    then show "CHR 0x00 \<notin> set (take (4095 - 19) ?X)" by (meson in_set_takeD)
    show "length (nxe_request p pw) < 4096" by (simp add: nxe_request_def Let_def bounded_copy_length)
  qed
  have c: \<open>extract_field True (''{"cmd":"nxe_load","'' @ X) ''cmd'' = Some ''nxe_load''\<close>
    by (simp add: extract_field_def snprintf_buf_def Let_def)
  have "handle_command H v (nxe_request p pw) st =
      (Inr (resp_error (''unknown command: nxe_load'')), st)"
    using assms(3) c by (simp add: handle_command_defs X(1) Let_def)
  from serve_whole [OF _ X(3) _ this] X show ?thesis
    by (simp add: resp_error_def snprintf_buf_def)
qed

text \<open>
  With the daemon running, \<open>run\<close> never executes a binary: the daemon has no command
  \<open>nxe_load\<close>, and the loader is only started when there is no answer. For a readable file with
  the extension \<open>.nxe\<close> the command reports a failure, returns 0 and changes nothing.
\<close>

theorem run_nxe_never_loads:
  assumes "cl_socket_ok cl" "cl_connect_ok cl" "cl_strdup_ok cl" "da_malloc_ok v" "ru_readable u"
    and "strrchr f (CHR ''.'') = Some ''.nxe''" "CHR 0x00 \<notin> set f" "typed pw" "w_stdin w = pw @ CHR 0x0A # rest"
  shows "\<exists>w1. cmd_run_nxe cl (daemon_serve H v) u [c, f] w = (0, w1) \<and> w_daemon w1 = w_daemon w \<and>
    last (w_out w1) = Out ''.nxe load failed'' []"
proof -
  let ?w1 = "say [Out ''Loading .nxe binary: %s'' [f]] w"
  let ?w2 = "(say [Err ''Password (or Enter if not encrypted): '' []] ?w1)\<lparr>w_stdin := rest, w_password := pw\<rparr>"
  have "w_stdin ?w1 = pw @ CHR 0x0A # rest" using assms(9) by simp
  from prompt_typed [OF assms(8) this]
  have p: "prompt_password ''Password (or Enter if not encrypted): '' ?w1 = (True, ?w2)" .
  have nul: "\<forall>t. Some pw = Some t \<longrightarrow> CHR 0x00 \<notin> set t" using assms(8) by (simp add: typed_def)
  from serve_nxe_load [OF assms(7) nul assms(4), where H = H and st = "w_daemon w"]
  have \<open>send_cmd cl (daemon_serve H v) (nxe_request f (Some pw)) ?w2 =
      (Some ''{"status":"error","msg":"unknown command: nxe_load"}'', ?w2\<lparr>w_daemon := w_daemon w\<rparr>)\<close>
    using assms(1-3) by (simp add: send_cmd_def)
  moreover have \<open>\<not> says_ok ''{"status":"error","msg":"unknown command: nxe_load"}''\<close>
    by (simp add: says_ok_def)
  ultimately show ?thesis
    using p assms(5,6) by (simp add: cmd_run_nxe_def)
qed

section \<open>The commands keep the engine consistent\<close>

lemma daemon_serve_keeps:
  assumes "in32 (ce_clone (da_create v))" "serving k st"
  shows "serving (k + 1) (snd (daemon_serve H v j st))"
proof -
  have "serving (k + 1) (snd (handle_command H v j' st))" for j'
    by (rule serving_command [OF assms(2,1)])
  moreover have "serving (k + 1) st" by (rule serving_leaves(8) [OF assms(2)])
  moreover have "snd (daemon_serve H v j st) \<in> {st, snd (handle_command H v (cstr (take 4095 j)) st)}"
    by (auto simp: daemon_serve_def client_handler_def Let_def split: prod.splits sum.splits)
  ultimately show ?thesis by auto
qed

interpretation dl: daemon_link "daemon_serve H v" "\<lambda>st. in32 (ce_clone (da_create v)) \<and> (\<exists>k. serving k st)" for H v
proof
  show "in32 (ce_clone (da_create v)) \<and> (\<exists>k. serving k (snd (daemon_serve H v j st)))"
    if "in32 (ce_clone (da_create v)) \<and> (\<exists>k. serving k st)" for j st
    using that daemon_serve_keeps by blast
qed

text \<open>
  No command of the shell can bring the daemon out of order: whatever its arguments and
  whatever is typed, the engine behind the socket stays initialised and consistent and holds
  no secure memory between two commands.
\<close>

theorem shell_commands_keep_engine:
  assumes "in32 (ce_clone (da_create v))" "serving k (w_daemon w)"
    and "cmd \<in> {cmd_encrypt cl (daemon_serve H v), cmd_decrypt cl (daemon_serve H v), cmd_lock cl (daemon_serve H v),
      cmd_unlock cl (daemon_serve H v), cmd_hash cl (daemon_serve H v), cmd_wipe cl (daemon_serve H v),
      cmd_vault cl (daemon_serve H v), cmd_securesession cl (daemon_serve H v), cmd_run_nxe cl (daemon_serve H v) u}"
  shows "\<exists>k'. serving k' (w_daemon (snd (cmd args w)))"
proof -
  have "in32 (ce_clone (da_create v)) \<and> (\<exists>k. serving k (w_daemon w))" using assms(1,2) by blast
  note keep = dl.crypto_commands_keep [OF this, where v = cl and args = args and H = H]
    dl.vault_keeps [OF this, where v = cl and args = args and H = H]
    dl.session_commands_keep [OF this, where v = cl and args = args and H = H]
  from assms(3) show ?thesis by (elim insertE emptyE) (use keep in simp_all)
qed

section \<open>Examples\<close>

lemma daemon_env0_simps [simp]:
  "da_malloc_ok daemon_env0" "da_sodium daemon_env0 = sodium_example" "da_file daemon_env0 = file_env0"
  "da_create daemon_env0 = create_ok"
  by (simp_all add: daemon_env0_def)

lemma serving_running: "serving 1 running_engine"
proof -
  obtain st where "cryptic_init co_demo True True (engine_start Map.empty) = (Inr (), st)" "serving 1 st"
    using serving_init [of True True co_demo Map.empty] by auto
  then show ?thesis by (simp add: running_engine_def)
qed

theorem shell_request_injection_witness:
  \<open>\<exists>answer. daemon_serve gh_example daemon_env0
       (encrypt_request (''/etc/passwd'' @ DQ # '','' @ DQ # ''password'' @ DQ # '':'' @ DQ # ''evil'') ''my secret'') running_engine =
     (Some answer, running_engine\<lparr>e_files := fst (snd (cryptic_encrypt_file sodium_example file_env0 (Some ''/etc/passwd'')
        (Some ''evil'') (e_files running_engine, e_mem running_engine))),
        e_mem := snd (snd (cryptic_encrypt_file sodium_example file_env0 (Some ''/etc/passwd'')
        (Some ''evil'') (e_files running_engine, e_mem running_engine)))\<rparr>)\<close>
proof -
  have "clean ''/etc/passwd''" "clean ''evil''" by (simp_all add: clean_def)
  from shell_request_injection [OF this, of "''my secret''" daemon_env0 gh_example running_engine]
  show ?thesis by (simp add: case_prod_beta)
qed

theorem run_nxe_never_loads_witness:
  "\<exists>w1. cmd_run_nxe client_env0 (daemon_serve gh_example daemon_env0) \<lparr>ru_readable = True, ru_fork = 7, ru_status = None\<rparr>
     [''run'', ''app.nxe''] (world0 [CHR 0x0A] running_engine) = (0, w1) \<and> w_daemon w1 = running_engine"
proof -
  have "typed []" "w_stdin (world0 [CHR 0x0A] running_engine) = [] @ CHR 0x0A # []" by (simp_all add: typed_def)
  from run_nxe_never_loads [OF _ _ _ _ _ _ _ this, of client_env0 daemon_env0
      "\<lparr>ru_readable = True, ru_fork = 7, ru_status = None\<rparr>" "''app.nxe''" gh_example "''run''"]
  show ?thesis by (auto simp: client_env0_def)
qed

theorem shell_commands_keep_engine_witness:
  "\<exists>k'. serving k' (w_daemon (snd (cmd_encrypt client_env0 (daemon_serve gh_example daemon_env0) [''encrypt'', ''x'']
     (world0 (''pw'' @ [CHR 0x0A] @ ''pw'' @ [CHR 0x0A]) running_engine))))"
proof (rule shell_commands_keep_engine)
  show "serving 1 (w_daemon (world0 (''pw'' @ [CHR 0x0A] @ ''pw'' @ [CHR 0x0A]) running_engine))"
    by (simp add: serving_running)
  show "in32 (ce_clone (da_create daemon_env0))" by (simp add: create_ok_def)
qed (rule insertI1)

end
