(* ===== verification/Shell_Listing.thy ===== *)
theory Shell_Listing
  imports Shell_Daemon
begin

text \<open>
  A command that goes through three programs' worth of text: \<open>securesession status\<close> of the shell
  (\<open>session_cmds.c\<close>) reads the listing that \<open>handle_command\<close> (\<open>crypticd.c\<close>) prints from the table of
  \<open>secure_session.c\<close>.
\<close>

section \<open>The listing of the sessions is shown as it is\<close>

lemma fmt_d_no_quote: "DQ \<notin> set (fmt_d i)" "CHR 0x00 \<notin> set (fmt_d i)"
proof -
  have "isdigit c \<or> c = CHR ''-''" if "c \<in> set (fmt_d i)" for c
    using that fmt_nat_digits by (auto simp: fmt_d_def split: if_splits)
  then show "DQ \<notin> set (fmt_d i)" "CHR 0x00 \<notin> set (fmt_d i)" by (fastforce simp: isdigit_def)+
qed

text \<open>A session in the listing, from the name of its first field on.\<close>

definition item_tail :: "session_info \<Rightarrow> string \<Rightarrow> string" where
  \<open>item_tail s rest =
     ''"id":'' @ fmt_d (sid s) @ '',"name":"'' @ sname s @ ''","pid":'' @ fmt_d (spid s) @ CHR 0x7D # rest\<close>

lemma session_item_tail: "session_item s @ rest = CHR 0x7B # item_tail s rest"
  by (simp add: session_item_def item_tail_def)

lemma no_field_in_name:
  assumes "DQ \<notin> set nm"
  shows \<open>\<not> is_prefix ''id":'' (nm @ DQ # CHR '','' # rest)\<close> \<open>\<not> is_prefix ''pid":'' (nm @ DQ # CHR '','' # rest)\<close>
  using no_field_in_value [of nm "''id''" "CHR '',''" "[]" rest] no_field_in_value [of nm "''pid''" "CHR '',''" "[]" rest] assms
  by simp_all

lemma item_skip:
  assumes "DQ \<notin> set (sname s)"
  shows \<open>strstr (tl (item_tail s rest)) ''"id":'' = strstr rest ''"id":''\<close>
  using assms by (simp add: item_tail_def strstr_skip fmt_d_no_quote no_field_in_name)

lemma item_name: \<open>strstr (item_tail s rest) ''"name":"'' =
    Some (''"name":"'' @ sname s @ ''","pid":'' @ fmt_d (spid s) @ CHR 0x7D # rest)\<close>
  by (simp add: item_tail_def strstr_skip fmt_d_no_quote)

lemma item_pid:
  assumes "DQ \<notin> set (sname s)"
  shows \<open>strstr (item_tail s rest) ''"pid":'' = Some (''"pid":'' @ fmt_d (spid s) @ CHR 0x7D # rest)\<close>
  using assms by (simp add: item_tail_def strstr_skip fmt_d_no_quote no_field_in_name)

lemma session_entry_item:
  assumes "DQ \<notin> set (sname s)" "length (sname s) < 64" "int_range (sid s)" "int_range (spid s)"
  shows "session_entry (item_tail s rest) = (sid s, sname s, spid s)"
proof -
  have "atoi (drop 5 (item_tail s rest)) = sid s"
    using atoi_fmt_d [OF assms(3), of \<open>'',"name":"'' @ sname s @ ''","pid":'' @ fmt_d (spid s) @ CHR 0x7D # rest\<close>]
    by (simp add: item_tail_def isdigit_def)
  moreover have "atoi (fmt_d (spid s) @ CHR 0x7D # rest) = spid s" by (rule atoi_fmt_d [OF assms(4)]) (simp add: isdigit_def)
  ultimately show ?thesis using assms by (simp add: session_entry_def item_name item_pid)
qed

lemma session_entries_cong: \<open>strstr p ''"id":'' = strstr q ''"id":'' \<Longrightarrow> session_entries p = session_entries q\<close>
  by (simp add: session_entries.simps [of p] session_entries.simps [of q])

lemma session_entries_step: \<open>strstr p ''"id":'' = Some q \<Longrightarrow> session_entries p = session_entry q # session_entries (tl q)\<close>
  by (simp add: session_entries.simps [of p])

lemma session_entries_joined:
  assumes "\<forall>s \<in> set ss. DQ \<notin> set (sname s) \<and> length (sname s) < 64 \<and> int_range (sid s) \<and> int_range (spid s)"
  shows "session_entries (joined i (map session_item ss) @ '']}'') = map (\<lambda>s. (sid s, sname s, spid s)) ss"
  using assms
proof (induction ss arbitrary: i)
  case Nil
  then show ?case by (simp add: session_entries.simps)
next
  case (Cons s ss)
  let ?rest = "joined (Suc i) (map session_item ss) @ '']}''"
  have "joined i (map session_item (s # ss)) @ '']}'' = (if i > 0 then '','' else []) @ session_item s @ ?rest" by simp
  also have "\<dots> = (if i > 0 then '','' else []) @ CHR 0x7B # item_tail s ?rest" by (simp only: session_item_tail)
  finally have \<open>strstr (joined i (map session_item (s # ss)) @ '']}'') ''"id":'' = Some (item_tail s ?rest)\<close>
    by (simp add: item_tail_def)
  note session_entries_step [OF this]
  moreover have "session_entries (tl (item_tail s ?rest)) = session_entries ?rest"
    using Cons.prems by (intro session_entries_cong item_skip) simp
  moreover have "session_entry (item_tail s ?rest) = (sid s, sname s, spid s)"
    using Cons.prems by (intro session_entry_item) simp_all
  moreover have "session_entries ?rest = map (\<lambda>s. (sid s, sname s, spid s)) ss" using Cons.prems by (intro Cons.IH) simp
  ultimately show ?case by (simp only: list.map)
qed

lemma joined_no_nul: "\<forall>x \<in> set xs. CHR 0x00 \<notin> set x \<Longrightarrow> CHR 0x00 \<notin> set (joined i xs)"
  by (induction xs arbitrary: i) auto

lemma fmt_nat_plain: "DQ \<notin> set (fmt_nat n)" "CHR 0x00 \<notin> set (fmt_nat n)"
  using fmt_d_no_quote [of "int n"] by (simp_all add: fmt_d_def)

lemma serving_sessions:
  assumes "serving k st" "k \<le> 2 ^ 31"
  shows "\<forall>s \<in> set (active (e_sess st)). in32 (sid s) \<and> in32 (spid s) \<and> length (sname s) < 64"
    "length (active (e_sess st)) \<le> 16" "length (active (e_sess st)) = session_count (e_sess st)"
proof -
  have i: "sess_inv (e_sess st)" "\<forall>s \<in> set (active (e_sess st)). length (sname s) < 64"
    using assms(1) reachable_sess_inv reachable_names unfolding serving_def engine_ok_def by blast+
  then show "\<forall>s \<in> set (active (e_sess st)). in32 (sid s) \<and> in32 (spid s) \<and> length (sname s) < 64"
    using assms by (fastforce simp: serving_def sess_inv_def active_def)
  show "length (active (e_sess st)) \<le> 16" "length (active (e_sess st)) = session_count (e_sess st)"
    using i(1) by (auto simp: sess_inv_def active_def)
qed

definition session_listing :: "session_info list \<Rightarrow> string" where
  "session_listing ss = session_list_head (length ss) @ joined 0 (map session_item ss) @ '']}''"

lemma session_listing_length:
  assumes "\<forall>s \<in> set ss. in32 (sid s) \<and> in32 (spid s) \<and> length (sname s) < 64" "length ss \<le> 16"
  shows "length (session_listing ss) < 4096"
proof -
  have "Suc (length (session_item s)) \<le> 120" if "s \<in> set ss" for s
    using that assms(1) length_fmt_int32 [of "sid s"] length_fmt_int32 [of "spid s"] by (fastforce simp: session_item_def)
  then have "sum_list (map (\<lambda>s. Suc (length (session_item s))) ss) \<le> 16 * 120"
    using assms(2) by (rule sum_list_bound)
  with length_joined [of 0 "map session_item ss"] list_head_bounds [of "length ss"] assms(2) show ?thesis
    by (simp add: session_listing_def comp_def)
qed

lemma session_listing_read:
  assumes "\<forall>s \<in> set ss. DQ \<notin> set (sname s) \<and> length (sname s) < 64 \<and> int_range (sid s) \<and> int_range (spid s)"
  shows \<open>strstr (session_listing ss) ''"count":'' = Some (''"count":'' @ fmt_nat (length ss) @ '',"sessions":['' @ joined 0 (map session_item ss) @ '']}'')\<close>
    \<open>strstr (session_listing ss) ''"sessions":['' = Some (''"sessions":['' @ joined 0 (map session_item ss) @ '']}'')\<close>
    \<open>session_entries (''"sessions":['' @ joined 0 (map session_item ss) @ '']}'') = map (\<lambda>s. (sid s, sname s, spid s)) ss\<close>
proof -
  show \<open>strstr (session_listing ss) ''"count":'' = Some (''"count":'' @ fmt_nat (length ss) @ '',"sessions":['' @ joined 0 (map session_item ss) @ '']}'')\<close>
    by (simp add: session_listing_def session_list_head_def)
  show \<open>strstr (session_listing ss) ''"sessions":['' = Some (''"sessions":['' @ joined 0 (map session_item ss) @ '']}'')\<close>
    by (simp add: session_listing_def session_list_head_def strstr_skip fmt_nat_plain)
  have \<open>session_entries (''"sessions":['' @ joined 0 (map session_item ss) @ '']}'') = session_entries (joined 0 (map session_item ss) @ '']}'')\<close>
    by (rule session_entries_cong) simp
  then show \<open>session_entries (''"sessions":['' @ joined 0 (map session_item ss) @ '']}'') = map (\<lambda>s. (sid s, sname s, spid s)) ss\<close>
    using session_entries_joined [OF assms] by simp
qed

text \<open>
  C23: \<open>securesession status\<close> shows exactly the sessions the daemon has: a line for each active session,
  in order, with its identifier, its name and its process, after their number; or that there is
  none. The listing goes through the response buffer of the daemon, the socket and the search for
  fields in the shell, and nothing is cut or mixed up as long as the names have no quote.
\<close>

theorem session_status_exact:
  assumes "serving k (w_daemon w)" "k \<le> 2 ^ 31" "cl_socket_ok cl" "cl_connect_ok cl" "cl_strdup_ok cl" "da_malloc_ok v"
    and "ss = active (e_sess (w_daemon w))" "\<forall>s \<in> set ss. clean (sname s)"
  shows "cmd_securesession cl (daemon_serve H v) [c, ''status''] w =
    (0, say (if ss = [] then [Out ''No active secure sessions.'' []]
             else Out ''Active Secure Sessions: %d'' [fmt_nat (length ss)] #
               map (\<lambda>s. Out ''%-6d %-20s %-10d'' [fmt_d (sid s), sname s, fmt_d (spid s)]) ss) w)"
proof -
  let ?st = "w_daemon w"
  let ?t = "session_listing ss"
  note ser = serving_sessions [OF assms(1,2)]
  have names: "\<forall>s \<in> set ss. DQ \<notin> set (sname s) \<and> length (sname s) < 64 \<and> int_range (sid s) \<and> int_range (spid s)" using ser(1) assms(7,8) by (auto simp: clean_def int_range_def)
  have len: "length ss = session_count (e_sess ?st)" using ser(3) assms(7) by simp
  have "\<forall>s. s \<in> set (fst (session_list (e_sess ?st))) \<longrightarrow> in32 (sid s) \<and> in32 (spid s)"
    using ser(1) by (simp add: session_list_def active_def)
  moreover have "engine_ok ?st" using assms(1) by (simp add: serving_def)
  ultimately have h: \<open>handle_command H v ''{"cmd":"session_list"}'' ?st = (Inr ?t, ?st)\<close>
    using listings_complete [of ?st v \<open>''{"cmd":"session_list"}''\<close> H] extract_examples(2) assms(6,7) len
    by (simp add: session_listing_def session_list_def active_def)
  have "length ?t < 4096" using session_listing_length [of ss] ser(1,2) assms(7) by simp
  moreover have "CHR 0x00 \<notin> set ?t"
    using joined_no_nul [of "map session_item ss" 0] assms(8) fmt_d_no_quote(2) fmt_nat_plain(2)
    by (auto simp: session_listing_def session_list_head_def session_item_def clean_def)
  moreover have "?t \<noteq> []" by (simp add: session_listing_def)
  moreover have \<open>daemon_serve H v ''{"cmd":"session_list"}'' ?st = (Some ?t, ?st)\<close> by (rule serve_whole [OF _ _ _ h]) simp_all
  ultimately have send: \<open>send_cmd cl (daemon_serve H v) ''{"cmd":"session_list"}'' w = (Some ?t, w)\<close>
    using assms(3-5) by (simp add: send_cmd_def Let_def)
  have count: \<open>atoi (fmt_nat (length ss) @ '',"sessions":['' @ joined 0 (map session_item ss) @ '']}'') = int (length ss)\<close>
    by (rule atoi_fmt_nat) (use ser(2) assms(7) in \<open>simp_all add: isdigit_def\<close>)
  note read = session_listing_read [OF names]
  have n: \<open>(case strstr ?t ''"count":'' of None \<Rightarrow> 0 | Some c \<Rightarrow> atoi (drop 8 c)) = int (length ss)\<close>
    unfolding read(1) using count by simp
  have m: \<open>(case strstr ?t ''"sessions":['' of None \<Rightarrow> [] | Some s \<Rightarrow> map show_entry (session_entries s)) =
      map (\<lambda>s. Out ''%-6d %-20s %-10d'' [fmt_d (sid s), sname s, fmt_d (spid s)]) ss\<close>
    unfolding read(2) option.case read(3) by (simp add: show_entry_def)
  have "[c, ''status''] ! 1 = ''status''" "\<not> length [c, ''status''] < 2" "''status'' \<noteq> ''start''" "''status'' \<noteq> ''end''" by simp_all
  then show ?thesis
    unfolding cmd_securesession_def send Let_def by (simp add: send Let_def n m fmt_d_def del: strstr.simps)
qed

lemma engine_with_session:
  "serving 2 (running_engine\<lparr>e_sess := one_session\<rparr>)"
  "map (\<lambda>s. (sid s, sname s, spid s)) (active one_session) = [(1, ''work'', 4242)]"
proof -
  have "e_sess running_engine = snd (session_init sess_start)"
    by (simp add: running_engine_def cryptic_init_def engine_start_def secure_memory_init_def mem_start_def Let_def split: prod.splits)
  then obtain r where "session_create create_ok (Some ''work'') 0 False (e_sess running_engine) = (r, one_session)"
    by (metis one_session_def prod.collapse)
  have replicate_16: "replicate 16 z = z # replicate 15 z" for z :: session_info by (simp add: numeral_eq_Suc)
  from serving_leaves(1) [OF serving_running \<open>session_create _ _ _ _ _ = _\<close>] show "serving 2 (running_engine\<lparr>e_sess := one_session\<rparr>)"
    by (simp add: create_ok_def)
  show "map (\<lambda>s. (sid s, sname s, spid s)) (active one_session) = [(1, ''work'', 4242)]"
    by (simp add: replicate_16 one_session_def session_create_def session_init_def sess_start_def setup_cgroup_def new_session_def
        create_ok_def log_sys_def active_def Let_def strncpy_buf_def)
qed

theorem session_status_exact_witness:
  "cmd_securesession client_env0 (daemon_serve gh_example daemon_env0) [''securesession'', ''status'']
     (world0 [] (running_engine\<lparr>e_sess := one_session\<rparr>)) =
   (0, say [Out ''Active Secure Sessions: %d'' [fmt_nat 1], Out ''%-6d %-20s %-10d'' [fmt_d 1, ''work'', fmt_d 4242]]
     (world0 [] (running_engine\<lparr>e_sess := one_session\<rparr>)))"
proof -
  let ?w = "world0 [] (running_engine\<lparr>e_sess := one_session\<rparr>)"
  obtain s where s: "active (e_sess (w_daemon ?w)) = [s]" "sid s = 1" "sname s = ''work''" "spid s = 4242"
    using engine_with_session(2) by auto
  have "serving 2 (w_daemon ?w)" using engine_with_session(1) by simp
  moreover have "clean ''work''" by (simp add: clean_def)
  ultimately show ?thesis
    using session_status_exact [of 2 ?w client_env0 daemon_env0 "[s]" gh_example "''securesession''"] s
    by (simp add: client_env0_def)
qed

end
