(* ===== verification/Auth.thy ===== *)
theory Auth
  imports Key_Storage Refinement
begin

text \<open>
  \<open>auth/src/pam_securez.c\<close>, the PAM module, and \<open>auth/src/master_key.c\<close>, the command line tool:
  both work on the file with the master key that \<open>key_storage.c\<close> uses too. The PAM library is
  seen through the answers it gives to the module; the terminal attributes are not modelled,
  the password buffers of the tool are.
\<close>

section \<open>The PAM module\<close>

definition MASTER_HASH_PATH :: path where "MASTER_HASH_PATH = ''/etc/securez/master.key''"

datatype pam_ret =
    PAM_SUCCESS | PAM_SYSTEM_ERR | PAM_USER_UNKNOWN | PAM_AUTH_ERR | PAM_AUTHINFO_UNAVAIL | PAM_AUTHTOK_ERR

definition verify_password :: "sodium \<Rightarrow> bool \<Rightarrow> string \<Rightarrow> fs \<Rightarrow> pam_ret" where
  "verify_password S fopen_ok password files =
     (case (if fopen_ok then files MASTER_HASH_PATH else None) of
        None \<Rightarrow> PAM_AUTHINFO_UNAVAIL
      | Some content \<Rightarrow>
          (case fgets 256 (of_bytes content) of
             None \<Rightarrow> PAM_AUTHINFO_UNAVAIL
           | Some (line, _) \<Rightarrow>
               let stored_hash = strip_newline (cstr line) in
               if \<not> s_pwhash_str_verify S stored_hash password then PAM_AUTH_ERR else PAM_SUCCESS))"

text \<open>
  What the PAM library hands out: \<open>None\<close> for a call that fails or leaves the pointer null.
  \<open>pm_torn\<close> is the outcome of writing the file, which the module does not look at: how much of
  the line reaches the file when not all of it does (the file was emptied by opening it).
\<close>

record pam_env =
  pm_sodium_ok :: bool
  pm_open_r :: bool
  pm_open_w :: bool
  pm_torn :: "nat option"
  pm_user :: "string option"
  pm_authtok :: "string option"
  pm_old :: "string option"
  pm_new :: "string option"
  pm_prelim :: bool
  pm_salt :: bytes

definition pam_sm_authenticate :: "sodium \<Rightarrow> pam_env \<Rightarrow> fs \<Rightarrow> pam_ret" where
  "pam_sm_authenticate S v files =
     (if \<not> pm_sodium_ok v then PAM_SYSTEM_ERR
      else case pm_user v of
        None \<Rightarrow> PAM_USER_UNKNOWN
      | Some _ \<Rightarrow>
          (case pm_authtok v of
             None \<Rightarrow> PAM_AUTH_ERR
           | Some password \<Rightarrow> verify_password S (pm_open_r v) password files))"

definition pam_sm_setcred :: pam_ret where
  "pam_sm_setcred = PAM_SUCCESS"

definition write_hash :: "nat option \<Rightarrow> string \<Rightarrow> fs \<Rightarrow> fs" where
  "write_hash torn hash_str files =
     files(MASTER_HASH_PATH \<mapsto> flushed torn (to_bytes (hash_str @ [CHR 0x0A])))"

definition pam_sm_chauthtok :: "sodium \<Rightarrow> pam_env \<Rightarrow> fs \<Rightarrow> pam_ret \<times> fs" where
  "pam_sm_chauthtok S v files =
     (if \<not> pm_sodium_ok v then (PAM_SYSTEM_ERR, files)
      else if pm_prelim v then (PAM_SUCCESS, files)
      else case pm_old v of
        None \<Rightarrow> (PAM_AUTH_ERR, files)
      | Some old_pw \<Rightarrow>
          if verify_password S (pm_open_r v) old_pw files \<noteq> PAM_SUCCESS then (PAM_AUTH_ERR, files)
          else (case pm_new v of
                  None \<Rightarrow> (PAM_AUTHTOK_ERR, files)
                | Some new_pw \<Rightarrow>
                    if length new_pw < 16 then (PAM_AUTHTOK_ERR, files)
                    else (case s_pwhash_str S (pm_salt v) new_pw of
                            None \<Rightarrow> (PAM_SYSTEM_ERR, files)
                          | Some hash_str \<Rightarrow>
                              if \<not> pm_open_w v then (PAM_SYSTEM_ERR, files)
                              else (PAM_SUCCESS, write_hash (pm_torn v) hash_str files))))"

section \<open>The master key tool\<close>

text \<open>
  Its state: the rest of the standard input, the static buffer of \<open>prompt_password\<close> (what a
  pointer it returned earlier shows is always the buffer) and the files.
\<close>

record mk_state =
  mk_stdin :: string
  mk_password :: string
  mk_files :: fs

definition read_password_stdin :: "mk_state \<Rightarrow> string option \<times> mk_state" where
  "read_password_stdin st =
     (case fgets 256 (mk_stdin st) of
        None \<Rightarrow> (None, st)
      | Some (l, rest) \<Rightarrow> (Some (strip_newline (cstr l)), st\<lparr>mk_stdin := rest\<rparr>))"

definition mk_prompt_password :: "mk_state \<Rightarrow> bool \<times> mk_state" where
  "mk_prompt_password st =
     (case fgets 256 (mk_stdin st) of
        None \<Rightarrow> (False, st)
      | Some (l, rest) \<Rightarrow> (True, st\<lparr>mk_stdin := rest, mk_password := strip_newline (cstr l)\<rparr>))"

record mk_env =
  mk_sodium_ok :: bool
  mk_tty :: bool
  mk_open_r :: bool
  mk_open_w :: bool
  mk_torn :: "nat option"
  mk_unlink_ok :: bool
  mk_salt :: bytes

text \<open>From the check for an existing key on; \<open>password\<close> is what the pointer shows by now.\<close>

definition store_key :: "sodium \<Rightarrow> mk_env \<Rightarrow> string \<Rightarrow> mk_state \<Rightarrow> int \<times> mk_state" where
  "store_key S v password st =
     (if mk_files st MASTER_HASH_PATH \<noteq> None then (1, st)
      else case s_pwhash_str S (mk_salt v) password of
        None \<Rightarrow> (1, st)
      | Some hash_str \<Rightarrow>
          if \<not> mk_open_w v then (1, st)
          else (0, st\<lparr>mk_files := write_hash (mk_torn v) hash_str (mk_files st)\<rparr>))"

definition do_setup :: "sodium \<Rightarrow> mk_env \<Rightarrow> bool \<Rightarrow> mk_state \<Rightarrow> int \<times> mk_state" where
  "do_setup S v from_stdin st =
     (if from_stdin then
        (case read_password_stdin st of
           (None, st1) \<Rightarrow> (1, st1)
         | (Some password, st1) \<Rightarrow> if length password < 16 then (1, st1) else store_key S v password st1)
      else
        (case mk_prompt_password st of
           (p, st1) \<Rightarrow>
             if \<not> p \<or> length (mk_password st1) < 16 then (1, st1)
             else (case mk_prompt_password st1 of
                     (c, st2) \<Rightarrow>
                       let password = mk_password st2; confirm = mk_password st2 in
                       if \<not> c \<or> password \<noteq> confirm then (1, st2)
                       else store_key S v password st2)))"

text \<open>The hash as \<open>do_verify\<close> and \<open>--change\<close> read it, into 128 characters.\<close>

definition read_stored :: "mk_env \<Rightarrow> fs \<Rightarrow> string option option" where
  "read_stored v files =
     map_option (\<lambda>content. map_option (\<lambda>(l, _). strip_newline (cstr l)) (fgets crypto_pwhash_STRBYTES (of_bytes content)))
       (if mk_open_r v then files MASTER_HASH_PATH else None)"

definition do_verify :: "sodium \<Rightarrow> mk_env \<Rightarrow> mk_state \<Rightarrow> int \<times> mk_state" where
  "do_verify S v st =
     (case mk_prompt_password st of
        (p, st1) \<Rightarrow>
          if \<not> p then (1, st1)
          else (case read_stored v (mk_files st1) of
                  None \<Rightarrow> (1, st1)
                | Some None \<Rightarrow> (1, st1)
                | Some (Some stored) \<Rightarrow>
                    if s_pwhash_str_verify S stored (mk_password st1) then (0, st1) else (1, st1)))"

text \<open>
  \<open>--change\<close> ignores a failing \<open>fgets\<close> and then reads an array that was never written; it ignores
  a failing \<open>unlink\<close> too, and \<open>do_setup\<close> then finds the old file.
\<close>

definition do_change :: "sodium \<Rightarrow> mk_env \<Rightarrow> mk_state \<Rightarrow> int res \<times> mk_state" where
  "do_change S v st =
     (case mk_prompt_password st of
        (p, st1) \<Rightarrow>
          if \<not> p then (Inr 1, st1)
          else (case read_stored v (mk_files st1) of
                  None \<Rightarrow> (Inr 1, st1)
                | Some None \<Rightarrow> (Inl EUndefined, st1)
                | Some (Some stored) \<Rightarrow>
                    if \<not> s_pwhash_str_verify S stored (mk_password st1) then (Inr 1, st1)
                    else (case do_setup S v False
                                 (if mk_unlink_ok v then st1\<lparr>mk_files := (mk_files st1)(MASTER_HASH_PATH := None)\<rparr>
                                  else st1) of
                            (r, st2) \<Rightarrow> (Inr r, st2))))"

definition master_key_main :: "sodium \<Rightarrow> mk_env \<Rightarrow> string list \<Rightarrow> mk_state \<Rightarrow> int res \<times> mk_state" where
  "master_key_main S v args st =
     (if \<not> mk_sodium_ok v then (Inr 1, st)
      else if length args < 2 then (Inr 1, st)
      else if args ! 1 = ''--setup'' then (case do_setup S v (\<not> mk_tty v) st of (r, st1) \<Rightarrow> (Inr r, st1))
      else if args ! 1 = ''--verify'' then (case do_verify S v st of (r, st1) \<Rightarrow> (Inr r, st1))
      else if args ! 1 = ''--change'' then do_change S v st
      else if args ! 1 = ''--status'' then (Inr (if mk_files st MASTER_HASH_PATH \<noteq> None then 0 else 1), st)
      else (Inr 1, st))"

section \<open>The abstract master key\<close>

text \<open>
  What the three programs share: a register that is empty or holds a hash. \<open>master_wf\<close> says
  that the file, if it exists, is a line with a hash, and \<open>master_abs\<close> is the register.
\<close>

definition hash_text :: "string \<Rightarrow> bool" where
  "hash_text h \<longleftrightarrow> h \<noteq> [] \<and> length h < crypto_pwhash_STRBYTES \<and> (\<forall>c \<in> set h. c \<noteq> CHR 0x00 \<and> c \<noteq> CHR 0x0A)"

definition master_wf :: "fs \<Rightarrow> bool" where
  "master_wf files \<longleftrightarrow>
     (\<forall>b. files MASTER_HASH_PATH = Some b \<longrightarrow> (\<exists>h. hash_text h \<and> b = to_bytes (h @ [CHR 0x0A])))"

definition master_abs :: "fs \<Rightarrow> string option" where
  "master_abs files = map_option (\<lambda>b. strip_newline (of_bytes b)) (files MASTER_HASH_PATH)"

text \<open>The register: accepting a password, and setting a hash for one.\<close>

definition reg_accepts :: "sodium \<Rightarrow> string option \<Rightarrow> string \<Rightarrow> bool" where
  "reg_accepts S reg pw \<longleftrightarrow> (\<exists>h. reg = Some h \<and> s_pwhash_str_verify S h pw)"

lemma hash_line:
  assumes "hash_text h" "128 \<le> n"
  shows "fgets n (h @ [CHR 0x0A]) = Some (if length h < n - 1 then (h @ [CHR 0x0A], []) else (h, [CHR 0x0A]))"
    "strip_newline (cstr (h @ [CHR 0x0A])) = h" "strip_newline (cstr h) = h" "strip_newline (h @ [CHR 0x0A]) = h"
proof -
  have nl: "CHR 0x0A \<notin> set h" "CHR 0x00 \<notin> set h" and len: "length h < 128"
    using assms(1) by (auto simp: hash_text_def)
  show "fgets n (h @ [CHR 0x0A]) = Some (if length h < n - 1 then (h @ [CHR 0x0A], []) else (h, [CHR 0x0A]))"
    using nl len assms(2) line_split_line [OF nl(1), of "n - 1" "[]"] line_split_prefix [OF nl(1), of "n - 1" "[CHR 0x0A]"]
    by (auto simp: fgets_def)
  show "strip_newline (cstr (h @ [CHR 0x0A])) = h" "strip_newline (cstr h) = h" "strip_newline (h @ [CHR 0x0A]) = h"
    using nl by (simp_all add: strip_newline_line strip_newline_id)
qed

lemma first_line:
  assumes "master_wf files" "files MASTER_HASH_PATH = Some b" "128 \<le> n"
  shows "\<exists>h l r. master_abs files = Some h \<and> fgets n (of_bytes b) = Some (l, r) \<and> strip_newline (cstr l) = h \<and> hash_text h"
proof -
  obtain h where h: "hash_text h" "b = to_bytes (h @ [CHR 0x0A])" using assms(1,2) by (auto simp: master_wf_def)
  have "of_bytes b = h @ [CHR 0x0A]" unfolding h(2) by (rule of_bytes_to_bytes)
  then have "master_abs files = Some h"
    using assms(2) hash_line(4) [OF h(1) order_refl] by (simp add: master_abs_def)
  with \<open>of_bytes b = h @ [CHR 0x0A]\<close> hash_line [OF h(1) assms(3)] h(1) show ?thesis by auto
qed

lemma master_paths: "KEYSTORE_MASTER_PATH = MASTER_HASH_PATH"
  by (simp add: KEYSTORE_MASTER_PATH_def MASTER_HASH_PATH_def)

lemma pwhash_text: "pwhash_str_correct S \<Longrightarrow> s_pwhash_str S salt pw = Some h \<Longrightarrow> hash_text h \<and> s_pwhash_str_verify S h pw"
  unfolding pwhash_str_correct_def hash_text_def by blast

lemma write_hash_abs:
  assumes "hash_text h"
  shows "master_wf (write_hash None h files)" "master_abs (write_hash None h files) = Some h"
proof -
  show "master_wf (write_hash None h files)" using assms by (auto simp: master_wf_def write_hash_def)
  have "of_bytes (to_bytes (h @ [CHR 0x0A])) = h @ [CHR 0x0A]" by (rule of_bytes_to_bytes)
  then show "master_abs (write_hash None h files) = Some h"
    using hash_line(4) [OF assms order_refl] by (simp add: master_abs_def write_hash_def)
qed

section \<open>Interface: programs that check the master key\<close>

locale master_verifier =
  fixes S :: sodium
    and accepts :: "fs \<Rightarrow> string \<Rightarrow> bool"
  assumes accepts_iff: "master_wf files \<Longrightarrow> accepts files pw \<longleftrightarrow> reg_accepts S (master_abs files) pw"
begin

lemma accepts_written:
  assumes "pwhash_str_correct S" "s_pwhash_str S salt pw = Some h"
  shows "accepts (write_hash None h files) pw"
  using pwhash_text [OF assms] by (simp add: accepts_iff write_hash_abs reg_accepts_def)

lemma rejects_without_key: "files MASTER_HASH_PATH = None \<Longrightarrow> \<not> accepts files pw"
  by (simp add: accepts_iff master_wf_def master_abs_def reg_accepts_def)

end

interpretation pam: master_verifier S "\<lambda>files pw. verify_password S True pw files = PAM_SUCCESS" for S
proof
  fix files pw
  assume wf: "master_wf files"
  show "verify_password S True pw files = PAM_SUCCESS \<longleftrightarrow> reg_accepts S (master_abs files) pw"
  proof (cases "files MASTER_HASH_PATH")
    case None
    then show ?thesis by (simp add: verify_password_def master_abs_def reg_accepts_def)
  next
    case (Some b)
    then obtain h l r where "master_abs files = Some h" "fgets 256 (of_bytes b) = Some (l, r)" "strip_newline (cstr l) = h"
      using first_line [OF wf Some, of 256] by auto
    with Some show ?thesis by (auto simp: verify_password_def reg_accepts_def Let_def)
  qed
qed

interpretation ks: master_verifier S "\<lambda>files pw. keystore_master_verify S True (Some pw) files = Inr ()" for S
proof
  fix files pw
  assume wf: "master_wf files"
  show "keystore_master_verify S True (Some pw) files = Inr () \<longleftrightarrow> reg_accepts S (master_abs files) pw"
  proof (cases "files MASTER_HASH_PATH")
    case None
    then show ?thesis by (simp add: keystore_master_verify_def master_abs_def reg_accepts_def master_paths)
  next
    case (Some b)
    then obtain h l r where "master_abs files = Some h" "fgets 128 (of_bytes b) = Some (l, r)" "strip_newline (cstr l) = h"
      using first_line [OF wf Some, of 128] by auto
    with Some show ?thesis by (auto simp: keystore_master_verify_def reg_accepts_def master_paths)
  qed
qed

text \<open>For the tool: \<open>--verify\<close> with the password typed at the prompt.\<close>

definition tool_accepts :: "sodium \<Rightarrow> mk_env \<Rightarrow> fs \<Rightarrow> string \<Rightarrow> bool" where
  "tool_accepts S v files pw \<longleftrightarrow> (\<exists>h. read_stored v files = Some (Some h) \<and> s_pwhash_str_verify S h pw)"

lemma read_stored_wf: "master_wf files \<Longrightarrow> mk_open_r v \<Longrightarrow> read_stored v files = map_option Some (master_abs files)"
proof (cases "files MASTER_HASH_PATH")
  case None
  then show ?thesis by (simp add: read_stored_def master_abs_def)
next
  case (Some b)
  assume "master_wf files" "mk_open_r v"
  with first_line [of files b 128] Some show ?thesis by (auto simp: read_stored_def)
qed

interpretation tool: master_verifier S "tool_accepts S (v\<lparr>mk_open_r := True\<rparr>)" for S v
proof
  fix files pw
  assume "master_wf files"
  then show "tool_accepts S (v\<lparr>mk_open_r := True\<rparr>) files pw \<longleftrightarrow> reg_accepts S (master_abs files) pw"
    by (auto simp: tool_accepts_def reg_accepts_def read_stored_wf)
qed

lemma do_verify_tool:
  assumes "length pw < 255" "CHR 0x0A \<notin> set pw" "CHR 0x00 \<notin> set pw" "mk_stdin st = pw @ CHR 0x0A # rest"
  shows "fst (do_verify S v st) = 0 \<longleftrightarrow> tool_accepts S v (mk_files st) pw"
proof -
  have "fgets 256 (pw @ CHR 0x0A # rest) = Some (pw @ [CHR 0x0A], rest)"
    using assms line_split_line [of pw 255 rest] by (simp add: fgets_def)
  moreover have "strip_newline (cstr (pw @ [CHR 0x0A])) = pw" using assms by (simp add: strip_newline_line)
  ultimately have "mk_prompt_password st = (True, st\<lparr>mk_stdin := rest, mk_password := pw\<rparr>)"
    using assms(4) by (simp add: mk_prompt_password_def)
  then show ?thesis
    by (auto simp: do_verify_def tool_accepts_def split: option.splits)
qed

section \<open>The three programs implement the register\<close>

text \<open>
  The calls of the three programs that read or change the master key, with everything the
  system and the user may answer as arguments: the PAM module, the key storage of the engine,
  the command line tool with what is typed.
\<close>

datatype key_op =
    PamAuth pam_env
  | PamChange pam_env
  | KsVerify bool string
  | KsSetup bytes bool "nat option" string
  | KsChange bytes bool bool bool "nat option" string string
  | ToolVerify mk_env string
  | ToolSetup mk_env string
  | ToolChange mk_env string
  | ToolStatus mk_env

definition run_tool :: "sodium \<Rightarrow> mk_env \<Rightarrow> string \<Rightarrow> string \<Rightarrow> fs \<Rightarrow> bool option \<times> fs" where
  "run_tool S v opt inp files =
     (case master_key_main S v [''securez-master-key'', opt] \<lparr>mk_stdin = inp, mk_password = [], mk_files = files\<rparr> of
        (r, st) \<Rightarrow> (case r of Inl _ \<Rightarrow> None | Inr c \<Rightarrow> Some (c = 0), mk_files st))"

text \<open>The answer: success or failure; \<open>None\<close> where the behaviour of the tool is undefined.\<close>

fun key_do :: "sodium \<Rightarrow> key_op \<Rightarrow> fs \<Rightarrow> bool option \<times> fs" where
  "key_do S (PamAuth v) files = (Some (pam_sm_authenticate S v files = PAM_SUCCESS), files)"
| "key_do S (PamChange v) files = (case pam_sm_chauthtok S v files of (r, files') \<Rightarrow> (Some (r = PAM_SUCCESS), files'))"
| "key_do S (KsVerify ok pw) files = (Some (rc (keystore_master_verify S ok (Some pw) files) = 0), files)"
| "key_do S (KsSetup salt ok torn pw) files =
     (case keystore_master_setup S salt ok torn (Some pw) files of (r, files') \<Rightarrow> (Some (rc r = 0), files'))"
| "key_do S (KsChange salt rok unl wok torn old_pw new_pw) files =
     (case keystore_master_change S salt rok unl wok torn (Some old_pw) (Some new_pw) files of
        (r, files') \<Rightarrow> (Some (rc r = 0), files'))"
| "key_do S (ToolVerify v inp) files = run_tool S v ''--verify'' inp files"
| "key_do S (ToolSetup v inp) files = run_tool S v ''--setup'' inp files"
| "key_do S (ToolChange v inp) files = run_tool S v ''--change'' inp files"
| "key_do S (ToolStatus v) files = run_tool S v ''--status'' [] files"

text \<open>The register. \<open>Damaged\<close>: there is a file, but it may not be a line with a hash.\<close>

datatype reg = NoKey | Key string | Damaged

fun reg_rel :: "fs \<Rightarrow> reg \<Rightarrow> bool" where
  "reg_rel files NoKey \<longleftrightarrow> files MASTER_HASH_PATH = None"
| "reg_rel files (Key h) \<longleftrightarrow> hash_text h \<and> files MASTER_HASH_PATH = Some (to_bytes (h @ [CHR 0x0A]))"
| "reg_rel files Damaged \<longleftrightarrow> files MASTER_HASH_PATH \<noteq> None"

text \<open>May a check of the password end with this answer?\<close>

fun admits :: "sodium \<Rightarrow> reg \<Rightarrow> string \<Rightarrow> bool \<Rightarrow> bool" where
  "admits S NoKey pw b \<longleftrightarrow> \<not> b"
| "admits S (Key h) pw b \<longleftrightarrow> b = s_pwhash_str_verify S h pw"
| "admits S Damaged pw b \<longleftrightarrow> True"

definition installed :: "string \<Rightarrow> nat option \<Rightarrow> reg" where
  "installed h torn = (if torn = None then Key h else Damaged)"

text \<open>What is typed at a prompt of the tool, and the new key of an interactive setup.\<close>

definition tool_line :: "string \<Rightarrow> (string \<times> string) option" where
  "tool_line inp = map_option (\<lambda>(l, rest). (strip_newline (cstr l), rest)) (fgets 256 inp)"

definition tool_new :: "string \<Rightarrow> string option" where
  "tool_new inp =
     (case tool_line inp of
        None \<Rightarrow> None
      | Some (k1, rest) \<Rightarrow> if length k1 < 16 then None else map_option fst (tool_line rest))"

text \<open>
  The password an operation checks, if it gets so far; the hash it writes and how much of it
  arrives, if everything before works.
\<close>

fun presented :: "key_op \<Rightarrow> string option" where
  "presented (PamAuth v) = (if pm_sodium_ok v \<and> pm_user v \<noteq> None \<and> pm_open_r v then pm_authtok v else None)"
| "presented (PamChange v) = (if pm_sodium_ok v \<and> pm_open_r v then pm_old v else None)"
| "presented (KsVerify ok pw) = (if ok then Some pw else None)"
| "presented (KsChange salt rok unl wok torn old_pw new_pw) = (if rok then Some old_pw else None)"
| "presented (ToolVerify v inp) = (if mk_sodium_ok v \<and> mk_open_r v then map_option fst (tool_line inp) else None)"
| "presented (ToolChange v inp) = (if mk_sodium_ok v \<and> mk_open_r v then map_option fst (tool_line inp) else None)"
| "presented _ = None"

fun new_key :: "key_op \<Rightarrow> (string \<times> bytes \<times> bool \<times> nat option) option" where
  "new_key (PamChange v) =
     (case pm_new v of None \<Rightarrow> None
      | Some pw \<Rightarrow> if length pw < 16 then None else Some (pw, pm_salt v, pm_open_w v, pm_torn v))"
| "new_key (KsSetup salt ok torn pw) = (if length pw < 16 then None else Some (pw, salt, ok, torn))"
| "new_key (KsChange salt rok unl wok torn old_pw pw) = (if length pw < 16 then None else Some (pw, salt, wok, torn))"
| "new_key (ToolSetup v inp) =
     (if \<not> mk_sodium_ok v then None
      else map_option (\<lambda>pw. (pw, mk_salt v, mk_open_w v, mk_torn v))
        (if mk_tty v then tool_new inp
         else case tool_line inp of None \<Rightarrow> None | Some (pw, _) \<Rightarrow> if length pw < 16 then None else Some pw))"
| "new_key (ToolChange v inp) =
     map_option (\<lambda>pw. (pw, mk_salt v, mk_open_w v, mk_torn v))
       (case tool_line inp of None \<Rightarrow> None | Some (_, rest) \<Rightarrow> tool_new rest)"
| "new_key _ = None"

definition installs :: "sodium \<Rightarrow> key_op \<Rightarrow> reg option" where
  "installs S x =
     (case new_key x of
        None \<Rightarrow> None
      | Some (pw, salt, open_ok, torn) \<Rightarrow>
          if open_ok then map_option (\<lambda>h. installed h torn) (s_pwhash_str S salt pw) else None)"

text \<open>
  The kinds of operations. The key storage and the tool remove the old file before they write
  the new one, if it can be removed; otherwise they refuse.
\<close>

fun verifies :: "key_op \<Rightarrow> bool" where
  "verifies (PamAuth v) = True"
| "verifies (KsVerify ok pw) = True"
| "verifies (ToolVerify v inp) = True"
| "verifies _ = False"

fun sets :: "key_op \<Rightarrow> bool" where
  "sets (KsSetup salt ok torn pw) = True"
| "sets (ToolSetup v inp) = True"
| "sets _ = False"

fun changes :: "key_op \<Rightarrow> bool" where
  "changes (PamChange v) = (\<not> (pm_sodium_ok v \<and> pm_prelim v))"
| "changes (KsChange salt rok unl wok torn old_pw new_pw) = True"
| "changes (ToolChange v inp) = True"
| "changes _ = False"

fun may_replace :: "key_op \<Rightarrow> bool" where
  "may_replace (KsChange salt rok unl wok torn old_pw new_pw) = (unl \<and> 16 \<le> length new_pw)"
| "may_replace (ToolChange v inp) = mk_unlink_ok v"
| "may_replace _ = True"

fun removes_first :: "key_op \<Rightarrow> bool" where
  "removes_first (PamChange v) = False"
| "removes_first _ = True"

inductive reg_step :: "sodium \<Rightarrow> reg \<Rightarrow> key_op \<Rightarrow> bool option \<Rightarrow> reg \<Rightarrow> bool" for S where
  check: "verifies x \<Longrightarrow> presented x = Some pw \<Longrightarrow> admits S p pw b \<Longrightarrow> reg_step S p x (Some b) p"
| check_none: "verifies x \<Longrightarrow> presented x = None \<Longrightarrow> reg_step S p x (Some False) p"
| status: "reg_step S p (ToolStatus v) (Some (mk_sodium_ok v \<and> p \<noteq> NoKey)) p"
| set_key: "sets x \<Longrightarrow> installs S x = Some q \<Longrightarrow> reg_step S NoKey x (Some True) q"
| set_refused: "sets x \<Longrightarrow> p \<noteq> NoKey \<or> installs S x = None \<Longrightarrow> reg_step S p x (Some False) p"
| preliminary: "pm_sodium_ok v \<Longrightarrow> pm_prelim v \<Longrightarrow> reg_step S p (PamChange v) (Some True) p"
| change_key: "changes x \<Longrightarrow> presented x = Some pw \<Longrightarrow> admits S p pw True \<Longrightarrow> may_replace x \<Longrightarrow> installs S x = Some q \<Longrightarrow>
     reg_step S p x (Some True) q"
| change_refused: "changes x \<Longrightarrow> (\<And>pw. presented x = Some pw \<Longrightarrow> admits S p pw False) \<Longrightarrow> reg_step S p x (Some False) p"
| change_failed: "changes x \<Longrightarrow> presented x = Some pw \<Longrightarrow> admits S p pw True \<Longrightarrow> \<not> may_replace x \<or> installs S x = None \<Longrightarrow>
     reg_step S p x (Some False) (if may_replace x \<and> removes_first x then NoKey else p)"
| change_undefined: "reg_step S Damaged (ToolChange v inp) None Damaged"

lemma reg_key: "reg_rel files (Key h) \<Longrightarrow> master_wf files \<and> master_abs files = Some h"
  using hash_line(4) [OF _ order_refl] by (auto simp: master_wf_def master_abs_def simp del: to_bytes_append)

lemma reg_none: "reg_rel files p \<Longrightarrow> files MASTER_HASH_PATH = None \<longleftrightarrow> p = NoKey"
  by (cases p) auto

text \<open>A program that checks the master key answers what the register admits.\<close>

context master_verifier
begin

lemma answers_admitted:
  assumes "reg_rel files p"
  shows "admits S p pw (accepts files pw)"
proof (cases p)
  case NoKey
  then show ?thesis using assms rejects_without_key by simp
next
  case (Key h)
  then have "master_wf files" "master_abs files = Some h" using assms reg_key by auto
  then show ?thesis using Key accepts_iff by (simp add: reg_accepts_def)
qed simp

end

lemma installed_rel:
  assumes "pwhash_str_correct S" "s_pwhash_str S salt pw = Some h"
  shows "reg_rel (write_hash torn h files) (installed h torn)"
  using pwhash_text [OF assms] by (simp add: write_hash_def installed_def)

lemma ks_write: "files(KEYSTORE_MASTER_PATH \<mapsto> flushed torn (to_bytes (h @ [CHR 0x0A]))) = write_hash torn h files"
  by (simp add: write_hash_def master_paths)

text \<open>The common end of all operations that set a key, when there is no file.\<close>

lemma set_up_rel:
  assumes "pwhash_str_correct S" "reg_rel files NoKey" "new_key x = Some (pw, salt, ok, torn)"
  shows "case (if ok then s_pwhash_str S salt pw else None) of
      None \<Rightarrow> installs S x = None
    | Some h \<Rightarrow> \<exists>q. installs S x = Some q \<and> reg_rel (write_hash torn h files) q"
  using assms installed_rel [OF assms(1)] by (auto simp: installs_def split: option.splits)

lemma prompt_line:
  "mk_prompt_password st =
     (case tool_line (mk_stdin st) of None \<Rightarrow> (False, st)
      | Some (k, rest) \<Rightarrow> (True, st\<lparr>mk_stdin := rest, mk_password := k\<rparr>))"
  by (auto simp: mk_prompt_password_def tool_line_def split: option.splits)

lemma stdin_line:
  "read_password_stdin st =
     (case tool_line (mk_stdin st) of None \<Rightarrow> (None, st) | Some (k, rest) \<Rightarrow> (Some k, st\<lparr>mk_stdin := rest\<rparr>))"
  by (auto simp: read_password_stdin_def tool_line_def split: option.splits)

lemma run_tool_opts:
  "run_tool S v ''--verify'' inp files =
     (if mk_sodium_ok v then (case do_verify S v \<lparr>mk_stdin = inp, mk_password = [], mk_files = files\<rparr> of
        (c, st) \<Rightarrow> (Some (c = 0), mk_files st)) else (Some False, files))"
  "run_tool S v ''--setup'' inp files =
     (if mk_sodium_ok v then (case do_setup S v (\<not> mk_tty v) \<lparr>mk_stdin = inp, mk_password = [], mk_files = files\<rparr> of
        (c, st) \<Rightarrow> (Some (c = 0), mk_files st)) else (Some False, files))"
  "run_tool S v ''--change'' inp files =
     (if mk_sodium_ok v then (case do_change S v \<lparr>mk_stdin = inp, mk_password = [], mk_files = files\<rparr> of
        (r, st) \<Rightarrow> (case r of Inl _ \<Rightarrow> None | Inr c \<Rightarrow> Some (c = 0), mk_files st)) else (Some False, files))"
  "run_tool S v ''--status'' inp files = (Some (mk_sodium_ok v \<and> files MASTER_HASH_PATH \<noteq> None), files)"
  by (simp_all add: run_tool_def master_key_main_def split: prod.splits)

text \<open>What a setup of the tool does to the files.\<close>

definition set_files :: "sodium \<Rightarrow> mk_env \<Rightarrow> string option \<Rightarrow> fs \<Rightarrow> bool \<times> fs" where
  "set_files S v pw_p files =
     (case pw_p of
        None \<Rightarrow> (False, files)
      | Some pw \<Rightarrow>
          if files MASTER_HASH_PATH \<noteq> None then (False, files)
          else case (if mk_open_w v then s_pwhash_str S (mk_salt v) pw else None) of
            None \<Rightarrow> (False, files) | Some h \<Rightarrow> (True, write_hash (mk_torn v) h files))"

lemma do_setup_files:
  assumes "do_setup S v b st = (r, st')"
  shows "set_files S v (if b then (case tool_line (mk_stdin st) of None \<Rightarrow> None
      | Some (pw, _) \<Rightarrow> if length pw < 16 then None else Some pw) else tool_new (mk_stdin st)) (mk_files st) =
    (r = 0, mk_files st')"
proof -
  have store: "set_files S v (Some pw) (mk_files t) = (c = 0, mk_files t')" if "store_key S v pw t = (c, t')" for pw t c t'
    using that by (auto simp: store_key_def set_files_def split: if_splits option.splits)
  have none: "set_files S v None f = (False, f)" for f by (simp add: set_files_def)
  show ?thesis
  proof (cases "tool_line (mk_stdin st)")
    case None
    then show ?thesis using assms none by (cases b) (auto simp: do_setup_def prompt_line stdin_line tool_new_def)
  next
    case (Some x)
    obtain k rest where x: "x = (k, rest)" by (rule prod.exhaust)
    show ?thesis
    proof (cases b)
      case True
      then show ?thesis
        using assms Some x none store [of k "st\<lparr>mk_stdin := rest\<rparr>" r st']
        by (auto simp: do_setup_def stdin_line split: if_splits)
    next
      case False
      then show ?thesis
        using assms Some x none
        by (cases "tool_line rest")
          (auto simp: do_setup_def prompt_line tool_new_def split: if_splits dest!: store)
    qed
  qed
qed

lemma set_files_rel:
  assumes "pwhash_str_correct S" "reg_rel files p" "set_files S v pw_p files = (b, files')"
    and "new_key x = map_option (\<lambda>pw. (pw, mk_salt v, mk_open_w v, mk_torn v)) pw_p"
  shows "if b then p = NoKey \<and> (\<exists>q. installs S x = Some q \<and> reg_rel files' q)
    else files' = files \<and> (p \<noteq> NoKey \<or> installs S x = None)"
proof (cases pw_p)
  case None
  then show ?thesis using assms(3,4) by (simp add: set_files_def installs_def)
next
  case (Some pw)
  then show ?thesis
    using assms reg_none [OF assms(2)] set_up_rel [OF assms(1), of files x pw "mk_salt v" "mk_open_w v" "mk_torn v"]
    by (cases "p = NoKey") (auto simp: set_files_def split: option.splits if_splits)
qed

lemma tool_setup_sim:
  assumes "pwhash_str_correct S" "reg_rel files p" "key_do S (ToolSetup v inp) files = (a, files')"
  shows "\<exists>q. reg_step S p (ToolSetup v inp) a q \<and> reg_rel files' q"
proof (cases "mk_sodium_ok v")
  case False
  then show ?thesis
    using assms(2,3) set_refused [of "ToolSetup v inp" p S]
    by (auto simp: run_tool_opts installs_def)
next
  case True
  let ?st = "\<lparr>mk_stdin = inp, mk_password = [], mk_files = files\<rparr>"
  let ?pw = "if mk_tty v then tool_new inp
    else case tool_line inp of None \<Rightarrow> None | Some (pw, _) \<Rightarrow> if length pw < 16 then None else Some pw"
  obtain c st' where c: "do_setup S v (\<not> mk_tty v) ?st = (c, st')" by (rule prod.exhaust)
  have pw: "(if \<not> mk_tty v then (case tool_line (mk_stdin ?st) of None \<Rightarrow> None
      | Some (pw, _) \<Rightarrow> if length pw < 16 then None else Some pw) else tool_new (mk_stdin ?st)) = ?pw"
    by simp
  obtain b where b: "set_files S v ?pw files = (b, files')" "a = Some b"
    using assms(3) True c do_setup_files [OF c, unfolded pw] by (auto simp: run_tool_opts)
  from set_files_rel [OF assms(1,2) b(1), of "ToolSetup v inp"] True show ?thesis
    using assms(2) b(2) set_key [of "ToolSetup v inp" S] set_refused [of "ToolSetup v inp" p S]
    by (cases b) auto
qed

lemma tool_change_sim:
  assumes "pwhash_str_correct S" "reg_rel files p" "key_do S (ToolChange v inp) files = (a, files')"
  shows "\<exists>q. reg_step S p (ToolChange v inp) a q \<and> reg_rel files' q"
proof -
  let ?x = "ToolChange v inp" and ?st = "\<lparr>mk_stdin = inp, mk_password = [], mk_files = files\<rparr>"
  have refused: "?thesis" if "\<And>pw. presented ?x = Some pw \<Longrightarrow> admits S p pw False" "a = Some False" "files' = files"
    using change_refused [of ?x S p] that assms(2) by auto
  consider "\<not> mk_sodium_ok v \<or> tool_line inp = None" | "mk_sodium_ok v" "tool_line inp \<noteq> None" "read_stored v files = None"
    | pw rest where "mk_sodium_ok v" "tool_line inp = Some (pw, rest)" "read_stored v files = Some None"
    | pw rest h where "mk_sodium_ok v" "tool_line inp = Some (pw, rest)" "read_stored v files = Some (Some h)"
    by (metis not_None_eq surj_pair)
  then show ?thesis
  proof cases
    case 1
    then have "presented ?x = None" by auto
    moreover have "a = Some False" "files' = files"
      using 1 assms(3) by (cases "mk_sodium_ok v"; auto simp: run_tool_opts do_change_def prompt_line)+
    ultimately show ?thesis by (intro refused) simp_all
  next
    case 2
    then have "mk_open_r v \<longrightarrow> p = NoKey" using reg_none [OF assms(2)] by (auto simp: read_stored_def split: if_splits)
    then show ?thesis
      using 2 assms(3) by (intro refused) (auto simp: run_tool_opts do_change_def prompt_line split: if_splits)
  next
    case 3
    then have o: "mk_open_r v" by (auto simp: read_stored_def split: if_splits)
    have "p = Damaged"
      using read_stored_wf [OF _ o, of files] reg_key [of files] reg_none [OF assms(2)] assms(2) 3(3)
      by (cases p) (auto simp: read_stored_def split: if_splits)
    then show ?thesis
      using 3 assms(2,3) change_undefined [of S v inp]
      by (auto simp: run_tool_opts do_change_def prompt_line)
  next
    case 4
    then have o: "mk_open_r v" by (auto simp: read_stored_def split: if_splits)
    have v': "v\<lparr>mk_open_r := True\<rparr> = v" using o by simp
    have adm: "admits S p pw (s_pwhash_str_verify S h pw)"
      using tool.answers_admitted [OF assms(2), where S = S and v = v and pw = pw] 4(3) by (simp add: v' tool_accepts_def)
    have pres: "presented ?x = Some pw" using 4 o by simp
    let ?f = "if mk_unlink_ok v then files(MASTER_HASH_PATH := None) else files"
    show ?thesis
    proof (cases "s_pwhash_str_verify S h pw")
      case False
      then show ?thesis
        using 4 assms(3) adm pres by (intro refused) (auto simp: run_tool_opts do_change_def prompt_line)
    next
      case True
      have there: "p \<noteq> NoKey" using reg_none [OF assms(2)] 4(3) by (auto simp: read_stored_def split: if_splits)
      let ?st2 = "\<lparr>mk_stdin = rest, mk_password = pw, mk_files = ?f\<rparr>"
      obtain c st' where c: "do_setup S v False ?st2 = (c, st')" by (rule prod.exhaust)
      then obtain b where b: "set_files S v (tool_new rest) ?f = (b, files')" "a = Some b"
        using assms(3) 4 True do_setup_files [OF c]
        by (auto simp: run_tool_opts do_change_def prompt_line split: if_splits)
      have rel: "reg_rel ?f (if mk_unlink_ok v then NoKey else p)" using assms(2) by simp
      from set_files_rel [OF assms(1) rel b(1), of ?x] 4(2) show ?thesis
        using there True adm pres b(2) rel change_key [of ?x pw S p] change_failed [of ?x pw S p]
        by (cases b; cases "mk_unlink_ok v") auto
    qed
  qed
qed

lemma tool_verify_sim:
  assumes "reg_rel files p" "key_do S (ToolVerify v inp) files = (a, files')"
  shows "reg_step S p (ToolVerify v inp) a p \<and> files' = files"
proof (cases "mk_sodium_ok v \<and> mk_open_r v \<and> tool_line inp \<noteq> None")
  case True
  then obtain pw rest where l: "tool_line inp = Some (pw, rest)" by auto
  have "v\<lparr>mk_open_r := True\<rparr> = v" using True by simp
  then have "admits S p pw (tool_accepts S v files pw)" using tool.answers_admitted [OF assms(1), where S = S and v = v and pw = pw] by simp
  then have "reg_step S p (ToolVerify v inp) (Some (tool_accepts S v files pw)) p"
    using True l by (intro check [where pw = pw]) auto
  moreover have "a = Some (tool_accepts S v files pw)" "files' = files"
    using assms(2) True l
    by (auto simp: run_tool_opts do_verify_def prompt_line tool_accepts_def split: option.splits if_splits)
  ultimately show ?thesis by simp
next
  case False
  then have "a = Some False" "files' = files"
    using assms(2)
    by (cases "mk_sodium_ok v"; cases "tool_line inp";
        auto simp: run_tool_opts do_verify_def prompt_line read_stored_def split: option.splits if_splits)+
  moreover have "presented (ToolVerify v inp) = None" using False by (cases "tool_line inp") auto
  ultimately show ?thesis using check_none [of "ToolVerify v inp" S p] by (simp del: presented.simps)
qed

lemma pam_change_sim:
  assumes "pwhash_str_correct S" "reg_rel files p" "key_do S (PamChange v) files = (a, files')"
  shows "\<exists>q. reg_step S p (PamChange v) a q \<and> reg_rel files' q"
proof -
  let ?x = "PamChange v"
  have refused: ?thesis if "\<And>pw. presented ?x = Some pw \<Longrightarrow> admits S p pw False" "a = Some False" "files' = files" "changes ?x"
    using change_refused [of ?x S p] that assms(2) by auto
  consider "pm_sodium_ok v" "pm_prelim v" | "changes ?x" "presented ?x = None"
    | pw where "changes ?x" "presented ?x = Some pw" "verify_password S True pw files \<noteq> PAM_SUCCESS"
    | pw where "changes ?x" "presented ?x = Some pw" "verify_password S True pw files = PAM_SUCCESS"
    by (metis changes.simps(1) option.exhaust)
  then show ?thesis
  proof cases
    case 1
    then show ?thesis using assms(2,3) preliminary [of v S p] by (auto simp: pam_sm_chauthtok_def)
  next
    case 2
    then have "verify_password S (pm_open_r v) pw files \<noteq> PAM_SUCCESS" if "pm_sodium_ok v" "pm_old v = Some pw" for pw
      using that by (auto simp: verify_password_def split: if_splits)
    then show ?thesis
      using 2 assms(3) by (intro refused) (auto simp: pam_sm_chauthtok_def split: option.splits if_splits)
  next
    case 3
    then show ?thesis
      using assms(3) pam.answers_admitted [OF assms(2), of S pw]
      by (intro refused) (auto simp: pam_sm_chauthtok_def split: if_splits)
  next
    case 4
    then have adm: "admits S p pw True" using pam.answers_admitted [OF assms(2), of S pw] by simp
    show ?thesis
    proof (cases "installs S ?x")
      case None
      then have "a = Some False" "files' = files"
        using assms(3) 4
        by (auto simp: pam_sm_chauthtok_def installs_def split: option.splits if_splits)
      then show ?thesis using change_failed [OF 4(1,2) adm] None assms(2) by auto
    next
      case (Some q)
      then obtain h nw where "s_pwhash_str S (pm_salt v) nw = Some h" "q = installed h (pm_torn v)"
        "a = Some True" "files' = write_hash (pm_torn v) h files"
        using assms(3) 4
        by (auto simp: pam_sm_chauthtok_def installs_def split: option.splits if_splits)
      then show ?thesis using change_key [OF 4(1,2) adm _ Some] installed_rel [OF assms(1)] by auto
    qed
  qed
qed

lemma ks_setup_files:
  "keystore_master_setup S salt ok torn (Some pw) files =
     (if length pw < 16 then (Inl ETooSmall, files)
      else if files MASTER_HASH_PATH \<noteq> None then (Inl EExists, files)
      else case s_pwhash_str S salt pw of
        None \<Rightarrow> (Inl ENoMem, files)
      | Some h \<Rightarrow> if ok then (Inr (), write_hash torn h files) else (Inl EOpen, files))"
  by (auto simp: keystore_master_setup_def ks_write [symmetric] master_paths split: option.splits)

lemma ks_setup_rel:
  assumes "pwhash_str_correct S" "reg_rel files p" "keystore_master_setup S salt ok torn (Some pw) files = (r, files')"
    and "new_key x = (if length pw < 16 then None else Some (pw, salt, ok, torn))"
  shows "if rc r = 0 then p = NoKey \<and> (\<exists>q. installs S x = Some q \<and> reg_rel files' q)
    else files' = files \<and> (p \<noteq> NoKey \<or> installs S x = None)"
  using assms reg_none [OF assms(2)] set_up_rel [OF assms(1), of files x pw salt ok torn]
  by (cases "length pw < 16"; cases "p = NoKey")
    (auto simp: ks_setup_files installs_def split: option.splits if_splits)

lemma ks_change_sim:
  assumes "pwhash_str_correct S" "reg_rel files p" "x = KsChange salt rok unl wok torn old_pw new_pw" "key_do S x files = (a, files')"
  shows "\<exists>q. reg_step S p x a q \<and> reg_rel files' q"
proof (cases "rok \<and> keystore_master_verify S True (Some old_pw) files = Inr ()")
  case False
  then obtain e where "keystore_master_verify S rok (Some old_pw) files = Inl e"
    by (cases "keystore_master_verify S rok (Some old_pw) files") (auto simp: keystore_master_verify_def split: if_splits)
  then have "a = Some False" "files' = files" using assms(3,4) by (auto simp: keystore_master_change_def)
  moreover have "admits S p pw False" if "presented x = Some pw" for pw
    using that False ks.answers_admitted [OF assms(2), of S old_pw] assms(3) by (auto split: if_splits)
  ultimately show ?thesis using change_refused [of x S p] assms(2,3) by auto
next
  case True
  then have adm: "admits S p old_pw True" "presented x = Some old_pw" "changes x"
    using ks.answers_admitted [OF assms(2), of S old_pw] assms(3) by auto
  show ?thesis
  proof (cases "length new_pw < 16")
    case short: True
    then have "a = Some False" "files' = files" using True assms(3,4) by (auto simp: keystore_master_change_def)
    then show ?thesis using change_failed [OF adm(3,2,1)] short assms(2,3) by auto
  next
    case False
    let ?f = "if unl then files(MASTER_HASH_PATH := None) else files"
    obtain r where r: "keystore_master_setup S salt wok torn (Some new_pw) ?f = (r, files')" "a = Some (rc r = 0)"
      using True False assms(3,4) by (auto simp: keystore_master_change_def master_paths split: prod.splits if_splits)
    have rel: "reg_rel ?f (if unl then NoKey else p)" using assms(2) by simp
    have there: "p \<noteq> NoKey" using True reg_none [OF assms(2)]
      by (auto simp: keystore_master_verify_def master_paths split: option.splits)
    from ks_setup_rel [OF assms(1) rel r(1), of x] show ?thesis
      using there False assms(3) adm r(2) rel change_key [OF adm(3,2,1)] change_failed [OF adm(3,2,1)]
      by (cases "rc r = 0"; cases unl) auto
  qed
qed

lemma pam_auth_sim: "reg_rel files p \<Longrightarrow> reg_step S p (PamAuth v) (Some (pam_sm_authenticate S v files = PAM_SUCCESS)) p"
proof (cases "presented (PamAuth v)")
  case None
  then have "pam_sm_authenticate S v files \<noteq> PAM_SUCCESS"
    by (auto simp: pam_sm_authenticate_def verify_password_def split: option.splits if_splits)
  then show ?thesis using check_none [of "PamAuth v" S p] None by simp
next
  case (Some pw)
  assume rel: "reg_rel files p"
  have "pam_sm_authenticate S v files = verify_password S True pw files"
    using Some by (auto simp: pam_sm_authenticate_def split: option.splits if_splits)
  then show ?thesis using check [OF _ Some pam.answers_admitted [OF rel], of S] by simp
qed

lemma ks_verify_sim:
  "reg_rel files p \<Longrightarrow> reg_step S p (KsVerify ok pw) (Some (rc (keystore_master_verify S ok (Some pw) files) = 0)) p"
proof (cases ok)
  case False
  then show ?thesis using check_none [of "KsVerify ok pw" S p] by (simp add: keystore_master_verify_def)
next
  case True
  assume rel: "reg_rel files p"
  show ?thesis
    using check [of "KsVerify ok pw" pw S p] ks.answers_admitted [OF rel, of S pw] True
    by (simp add: rc_zero_iff unit_eq)
qed

interpretation mk: refinement "key_do S" "reg_step S" "\<lambda>files p. pwhash_str_correct S \<and> reg_rel files p" "\<lambda>_. True" for S
proof unfold_locales
  fix files p x a files'
  assume l: "pwhash_str_correct S \<and> reg_rel files p" and do: "key_do S x files = (a, files')"
  then have "\<exists>q. reg_step S p x a q \<and> reg_rel files' q"
  proof (cases x)
    case (PamAuth v)
    then show ?thesis using l do pam_auth_sim [of files p S v] by (auto intro!: exI [of _ p])
  next
    case (PamChange v)
    then show ?thesis using l do pam_change_sim by blast
  next
    case (KsVerify ok pw)
    then show ?thesis using l do ks_verify_sim [of files p S ok pw] by (auto intro!: exI [of _ p])
  next
    case (KsSetup salt ok torn pw)
    then obtain r where r: "keystore_master_setup S salt ok torn (Some pw) files = (r, files')" "a = Some (rc r = 0)"
      using do by (auto split: prod.splits)
    from ks_setup_rel [OF _ _ r(1), of p x] l KsSetup show ?thesis
      using r(2) set_key [of x S] set_refused [of x p S] by (cases "rc r = 0") auto
  next
    case (KsChange salt rok unl wok torn old_pw new_pw)
    then show ?thesis using l do ks_change_sim by blast
  next
    case (ToolVerify v inp)
    then show ?thesis using l do tool_verify_sim by blast
  next
    case (ToolSetup v inp)
    then show ?thesis using l do tool_setup_sim by blast
  next
    case (ToolChange v inp)
    then show ?thesis using l do tool_change_sim by blast
  next
    case (ToolStatus v)
    then have "a = Some (mk_sodium_ok v \<and> p \<noteq> NoKey)" "files' = files"
      using l do reg_none [of files p] by (auto simp: run_tool_opts split: if_splits)
    then show ?thesis using l ToolStatus status [of S p v] by auto
  qed
  then show "\<exists>q. reg_step S p x a q \<and> pwhash_str_correct S \<and> reg_rel files' q" using l by blast
qed

text \<open>
  C14: the PAM module, the master key tool and the key storage of the engine implement one
  abstract register for the master key. In every sequence of their operations, with any
  failure in between: a check accepts exactly the passwords the stored hash accepts; a setup
  works only on an empty register and a change only with an accepted password; what they
  write is the hash of the new key; what they refuse leaves the register as it is, except that
  a change of the key storage or of the tool that fails after removing the old key leaves none.
  A line that did not reach the disk as a whole leaves a damaged register, of which only its
  existence is promised.
\<close>

theorem master_key_refinement:
  assumes "pwhash_str_correct S" "reg_rel files p" "run_ops (key_do S) xs files = (as, files')"
  shows "\<exists>p'. op_trace (reg_step S) p xs as p' \<and> reg_rel files' p'"
  using mk.runs_refine [of S files p xs as files'] assms by auto

section \<open>What the confirmation does\<close>

text \<open>A line typed at a prompt of the tool.\<close>

definition mk_typed :: "string \<Rightarrow> bool" where
  "mk_typed pw \<longleftrightarrow> length pw < 255 \<and> CHR 0x0A \<notin> set pw \<and> CHR 0x00 \<notin> set pw"

lemma mk_prompt_typed:
  assumes "mk_typed pw" "mk_stdin st = pw @ CHR 0x0A # rest"
  shows "mk_prompt_password st = (True, st\<lparr>mk_stdin := rest, mk_password := pw\<rparr>)"
proof -
  have "fgets 256 (pw @ CHR 0x0A # rest) = Some (pw @ [CHR 0x0A], rest)"
    using assms(1) line_split_line [of pw 255 rest] by (simp add: fgets_def mk_typed_def)
  moreover have "strip_newline (cstr (pw @ [CHR 0x0A])) = pw" using assms by (simp add: mk_typed_def strip_newline_line)
  ultimately show ?thesis using assms(2) by (simp add: mk_prompt_password_def)
qed

lemma do_setup_typed:
  assumes "mk_typed k1" "16 \<le> length k1" "mk_typed k2" "mk_stdin st = k1 @ CHR 0x0A # k2 @ CHR 0x0A # rest"
  shows "do_setup S v False st = store_key S v k2 (st\<lparr>mk_stdin := rest, mk_password := k2\<rparr>)"
proof -
  let ?st1 = "st\<lparr>mk_stdin := k2 @ CHR 0x0A # rest, mk_password := k1\<rparr>"
  have "mk_prompt_password st = (True, ?st1)" by (rule mk_prompt_typed [OF assms(1,4)])
  moreover have "mk_stdin ?st1 = k2 @ CHR 0x0A # rest" by simp
  note mk_prompt_typed [OF assms(3) this]
  ultimately show ?thesis using assms(2) by (simp add: do_setup_def)
qed

text \<open>
  The interactive setup of the master key does not compare the two entries, because both
  are read into one static buffer: whatever is typed as the confirmation becomes the master
  key, even if it differs from the first entry and is shorter than 16 characters, and the
  first entry is forgotten.
\<close>

theorem master_setup_confirmation:
  assumes "pwhash_str_correct S" "mk_typed k1" "16 \<le> length k1" "mk_typed k2"
    and "mk_stdin st = k1 @ CHR 0x0A # k2 @ CHR 0x0A # rest" "mk_files st MASTER_HASH_PATH = None"
    and "s_pwhash_str S (mk_salt v) k2 = Some h" "mk_open_w v" "mk_torn v = None"
  shows "\<exists>st'. do_setup S v False st = (0, st') \<and> master_abs (mk_files st') = Some h \<and>
    verify_password S True k2 (mk_files st') = PAM_SUCCESS"
  using assms do_setup_typed [OF assms(2-5), of S v] pwhash_text [OF assms(1,7)]
    pam.accepts_written [OF assms(1,7)] write_hash_abs(2)
  by (simp add: store_key_def)

text \<open>
  Changing the master key removes the old one before the new one is set up: with the right
  current key and nothing more on the input, or a new key that is too short, the tool ends
  with an error and no master key is left, so that every later authentication fails. With a
  wrong current key the file is unchanged.
\<close>

theorem master_change_loses_key:
  assumes "pwhash_str_correct S" "master_wf files" "files MASTER_HASH_PATH \<noteq> None" "mk_open_r v" "mk_unlink_ok v"
    and "mk_typed old" "mk_stdin st = old @ CHR 0x0A # rest" "mk_files st = files"
    and "rest = [] \<or> (\<exists>short rest'. rest = short @ CHR 0x0A # rest' \<and> mk_typed short \<and> length short < 16)"
  shows "(reg_accepts S (master_abs files) old \<longrightarrow>
      (\<exists>st'. do_change S v st = (Inr 1, st') \<and> mk_files st' = files(MASTER_HASH_PATH := None) \<and>
        (\<forall>pw. verify_password S True pw (mk_files st') \<noteq> PAM_SUCCESS))) \<and>
    (\<not> reg_accepts S (master_abs files) old \<longrightarrow> (\<exists>st'. do_change S v st = (Inr 1, st') \<and> mk_files st' = files))"
proof -
  obtain h where h: "master_abs files = Some h" using assms(3) by (auto simp: master_abs_def)
  let ?st1 = "st\<lparr>mk_stdin := rest, mk_password := old\<rparr>"
  have p: "mk_prompt_password st = (True, ?st1)" by (rule mk_prompt_typed [OF assms(6,7)])
  have stored: "read_stored v (mk_files ?st1) = Some (Some h)"
    using read_stored_wf [OF assms(2,4)] h assms(8) by simp
  let ?st2 = "?st1\<lparr>mk_files := files(MASTER_HASH_PATH := None)\<rparr>"
  have "\<exists>st'. do_setup S v False ?st2 = (1, st') \<and> mk_files st' = files(MASTER_HASH_PATH := None)"
  proof (cases "rest = []")
    case True
    then show ?thesis by (simp add: do_setup_def mk_prompt_password_def fgets_def)
  next
    case False
    then obtain short rest' where s: "rest = short @ CHR 0x0A # rest'" "mk_typed short" "length short < 16"
      using assms(9) by blast
    have "mk_stdin ?st2 = short @ CHR 0x0A # rest'" using s(1) by simp
    from mk_prompt_typed [OF s(2) this] s(3) show ?thesis by (simp add: do_setup_def)
  qed
  moreover have "verify_password S True pw (files(MASTER_HASH_PATH := None)) \<noteq> PAM_SUCCESS" for pw
    using pam.rejects_without_key [of "files(MASTER_HASH_PATH := None)" S pw] by simp
  ultimately show ?thesis
    using p stored h assms(5,8) by (auto simp: do_change_def reg_accepts_def)
qed

section \<open>Examples\<close>

definition mk_env0 :: mk_env where
  "mk_env0 = \<lparr>mk_sodium_ok = True, mk_tty = True, mk_open_r = True, mk_open_w = True, mk_torn = None,
     mk_unlink_ok = True, mk_salt = []\<rparr>"

definition pam_env0 :: "string \<Rightarrow> pam_env" where
  "pam_env0 pw = \<lparr>pm_sodium_ok = True, pm_open_r = True, pm_open_w = True, pm_torn = None, pm_user = Some ''ann'',
     pm_authtok = Some pw, pm_old = None, pm_new = None, pm_prelim = False, pm_salt = []\<rparr>"

definition key_files0 :: fs where
  "key_files0 = write_hash None (''$argon2id$'' @ ''old key'') Map.empty"

lemma key_files0_facts:
  "master_wf key_files0" "master_abs key_files0 = Some (''$argon2id$'' @ ''old key'')" "key_files0 MASTER_HASH_PATH \<noteq> None"
proof -
  have "hash_text (''$argon2id$'' @ ''old key'')" by (simp add: hash_text_def)
  then show "master_wf key_files0" "master_abs key_files0 = Some (''$argon2id$'' @ ''old key'')"
    unfolding key_files0_def by (rule write_hash_abs)+
  show "key_files0 MASTER_HASH_PATH \<noteq> None" by (simp add: key_files0_def write_hash_def)
qed

definition key_ops0 :: "key_op list" where
  "key_ops0 = [KsSetup [] True None ''a long master key'', PamAuth (pam_env0 ''a long master key''),
     ToolVerify mk_env0 (''wrong'' @ [CHR 0x0A]), KsChange [] True True True None ''wrong'' ''another master key'',
     KsChange [] True True True None ''a long master key'' ''another master key'', PamAuth (pam_env0 ''a long master key'')]"

lemma key_run0:
  "fst (run_ops (key_do sodium_example) key_ops0 Map.empty) =
     [Some True, Some True, Some False, Some False, Some True, Some False]"
  by code_simp

theorem master_key_refinement_witness:
  "\<exists>p'. op_trace (reg_step sodium_example) NoKey key_ops0
     [Some True, Some True, Some False, Some False, Some True, Some False] p'"
proof -
  obtain as files' where run: "run_ops (key_do sodium_example) key_ops0 Map.empty = (as, files')" by (rule prod.exhaust)
  have "reg_rel Map.empty NoKey" by simp
  from master_key_refinement [OF sodium_example_laws(6) this run] show ?thesis using key_run0 run by auto
qed

theorem master_setup_confirmation_witness:
  "\<exists>st'. do_setup sodium_example mk_env0 False \<lparr>mk_stdin = ''a long master key'' @ CHR 0x0A # ''x'' @ CHR 0x0A # [],
     mk_password = [], mk_files = Map.empty\<rparr> = (0, st') \<and> verify_password sodium_example True ''x'' (mk_files st') = PAM_SUCCESS"
proof -
  have "mk_typed ''a long master key''" "mk_typed ''x''" by (simp_all add: mk_typed_def)
  moreover have "s_pwhash_str sodium_example (mk_salt mk_env0) ''x'' = Some (''$argon2id$'' @ ''x'')"
    by (simp add: sodium_example_def)
  ultimately show ?thesis
    using master_setup_confirmation [OF sodium_example_laws(6), of "''a long master key''" "''x''"
      "\<lparr>mk_stdin = ''a long master key'' @ CHR 0x0A # ''x'' @ CHR 0x0A # [], mk_password = [], mk_files = Map.empty\<rparr>" "[]" mk_env0]
    by (auto simp: mk_env0_def)
qed

theorem master_change_loses_key_witness:
  "\<exists>st'. do_change sodium_example mk_env0 \<lparr>mk_stdin = ''old key'' @ CHR 0x0A # [], mk_password = [], mk_files = key_files0\<rparr> =
     (Inr 1, st') \<and> mk_files st' = key_files0(MASTER_HASH_PATH := None)"
proof -
  have "mk_typed ''old key''" by (simp add: mk_typed_def)
  moreover have "reg_accepts sodium_example (master_abs key_files0) ''old key''"
    by (simp add: key_files0_facts reg_accepts_def sodium_example_def)
  ultimately show ?thesis
    using master_change_loses_key [OF sodium_example_laws(6) key_files0_facts(1,3), of mk_env0 "''old key''"
      "\<lparr>mk_stdin = ''old key'' @ CHR 0x0A # [], mk_password = [], mk_files = key_files0\<rparr>" "[]"]
    by (auto simp: mk_env0_def)
qed

end
