(* ===== verification/Threads.thy ===== *)
theory Threads
  imports SZ_Prelude
begin

text \<open>
  The daemon starts a detached thread for every client (\<open>main\<close> and \<open>client_handler\<close> in
  \<open>crypticengine/daemon/crypticd.c\<close>), and the threads share the tables of the engine. This
  theory has what the concurrent parts of the development share: \<open>interleave\<close>, one step of one
  thread of a list of threads over a common state, and the interface \<open>threads\<close> of the
  rely-guarantee kind: a thread keeps the common invariant and its own assertion, and no
  thread invalidates the assertion of another. \<open>owning_threads\<close> adds resources: what is live
  is at every moment exactly what the threads own.
\<close>

section \<open>Interleaving\<close>

lemma Union_image_set: "\<Union> (f ` set xs) = (\<Union>i < length xs. f (xs ! i))"
proof -
  have "set xs = (!) xs ` {..<length xs}"
    by (auto simp: set_conv_nth)
  then show ?thesis by (simp add: image_image)
qed

inductive interleave ::
  "('s \<Rightarrow> 'l \<Rightarrow> 's \<Rightarrow> 'l \<Rightarrow> bool) \<Rightarrow> 's \<times> 'l list \<Rightarrow> 's \<times> 'l list \<Rightarrow> bool" for step where
  thread_step: "i < length ls \<Longrightarrow> step s (ls ! i) s' l' \<Longrightarrow>
     interleave step (s, ls) (s', ls[i := l'])"

inductive_cases interleaveE: "interleave step (s, ls) c"

definition threads_ok ::
  "('s \<Rightarrow> bool) \<Rightarrow> ('s \<Rightarrow> 'l \<Rightarrow> bool) \<Rightarrow> ('l \<Rightarrow> 'l \<Rightarrow> bool) \<Rightarrow> 's \<times> 'l list \<Rightarrow> bool" where
  "threads_ok G L apart c \<longleftrightarrow>
     G (fst c) \<and> (\<forall>i < length (snd c). L (fst c) (snd c ! i)) \<and>
     (\<forall>i < length (snd c). \<forall>j < length (snd c). i \<noteq> j \<longrightarrow> apart (snd c ! i) (snd c ! j))"

text \<open>One thread running on its own.\<close>

definition solo :: "('s \<Rightarrow> 'l \<Rightarrow> 's \<Rightarrow> 'l \<Rightarrow> bool) \<Rightarrow> 's \<times> 'l \<Rightarrow> 's \<times> 'l \<Rightarrow> bool" where
  "solo step c c' \<longleftrightarrow> step (fst c) (snd c) (fst c') (snd c')"

lemma interleave_length: "interleave step c c' \<Longrightarrow> length (snd c') = length (snd c)"
  by (auto elim: interleave.cases)

lemma interleaves_length: "(interleave step)\<^sup>*\<^sup>* c c' \<Longrightarrow> length (snd c') = length (snd c)"
  by (induction rule: rtranclp_induct) (auto dest: interleave_length)

lemma interleaves_step:
  "(interleave step)\<^sup>*\<^sup>* c (s, ls) \<Longrightarrow> i < length ls \<Longrightarrow> step s (ls ! i) s' l' \<Longrightarrow>
     (interleave step)\<^sup>*\<^sup>* c (s', ls[i := l'])"
  by (blast intro: rtranclp.rtrancl_into_rtrancl thread_step)

text \<open>A property of single threads that its own steps keep holds of every thread for ever.\<close>

lemma interleaves_all:
  assumes "(interleave step)\<^sup>*\<^sup>* c c'" "\<forall>l \<in> set (snd c). P l"
    and keep: "\<And>s l s' l'. P l \<Longrightarrow> step s l s' l' \<Longrightarrow> P l'"
  shows "\<forall>l \<in> set (snd c'). P l"
  using assms(1,2)
proof (induction rule: rtranclp_induct)
  case (step c1 c2)
  from step(2) obtain i ls s s' l' where c: "c1 = (s, ls)" "c2 = (s', ls[i := l'])"
    "i < length ls" "step s (ls ! i) s' l'"
    by (auto elim: interleave.cases)
  then have "P l'" using step by (auto intro: keep)
  then show ?case using step c set_update_subset_insert [of ls i l'] by auto
qed simp

lemma interleaves_map:
  assumes "(interleave step)\<^sup>*\<^sup>* c c'"
    and keep: "\<And>s l s' l'. step s l s' l' \<Longrightarrow> f l' = f l"
  shows "map f (snd c') = map f (snd c)"
  using assms(1)
proof (induction rule: rtranclp_induct)
  case (step c1 c2)
  from step(2) have "map f (snd c2) = map f (snd c1)"
    by (cases rule: interleave.cases) (auto simp: map_update keep list_update_same_conv)
  then show ?case using step by simp
qed simp

text \<open>As long as a thread is not done, a step is possible.\<close>

lemma interleave_progress:
  assumes "\<And>s l. \<not> finished l \<Longrightarrow> \<exists>s' l'. step s l s' l'"
  shows "(\<exists>c'. interleave step c c') \<or> (\<forall>l \<in> set (snd c). finished l)"
proof (rule disjCI)
  assume "\<not> (\<forall>l \<in> set (snd c). finished l)"
  then obtain i where "i < length (snd c)" "\<not> finished (snd c ! i)" by (auto simp: in_set_conv_nth)
  with assms show "\<exists>c'. interleave step c c'"
    using thread_step [of i "snd c" step "fst c"] by (metis prod.collapse)
qed

text \<open>A single thread can run on its own inside the interleaving.\<close>

lemma solo_interleaves:
  assumes "(solo step)\<^sup>*\<^sup>* (s, l) c" "i < length ls" "ls ! i = l"
  shows "(interleave step)\<^sup>*\<^sup>* (s, ls) (fst c, ls[i := snd c])"
  using assms(1)
proof (induction rule: rtranclp_induct)
  case base
  then show ?case using assms by (metis fst_conv list_update_id rtranclp.rtrancl_refl snd_conv)
next
  case (step c1 c2)
  have "interleave step (fst c1, ls[i := snd c1]) (fst c2, (ls[i := snd c1])[i := snd c2])"
    using step(2) assms(2) by (intro thread_step) (simp_all add: solo_def)
  then show ?case using step by simp
qed

section \<open>Interface: threads that do not disturb each other\<close>

locale threads =
  fixes step :: "'s \<Rightarrow> 'l \<Rightarrow> 's \<Rightarrow> 'l \<Rightarrow> bool"
    and G :: "'s \<Rightarrow> bool" and L :: "'s \<Rightarrow> 'l \<Rightarrow> bool" and apart :: "'l \<Rightarrow> 'l \<Rightarrow> bool"
  assumes own: "G s \<Longrightarrow> L s l \<Longrightarrow> step s l s' l' \<Longrightarrow> G s' \<and> L s' l'"
    and others: "G s \<Longrightarrow> L s l \<Longrightarrow> L s k \<Longrightarrow> apart l k \<Longrightarrow> step s l s' l' \<Longrightarrow> L s' k \<and> apart l' k"
    and apart_sym: "apart l k \<Longrightarrow> apart k l"
begin

lemma interleave_ok:
  assumes "interleave step c c'" "threads_ok G L apart c"
  shows "threads_ok G L apart c'"
proof -
  from assms(1) obtain i ls s s' l' where c: "c = (s, ls)" "c' = (s', ls[i := l'])"
    and i: "i < length ls" "step s (ls ! i) s' l'"
    by (auto elim: interleave.cases)
  have ok: "G s" "L s (ls ! i)" "\<And>j. j < length ls \<Longrightarrow> j \<noteq> i \<Longrightarrow> L s (ls ! j) \<and> apart (ls ! i) (ls ! j)"
    using assms(2) i by (auto simp: threads_ok_def c)
  then have me: "G s'" "L s' l'" using own i(2) by blast+
  have rest: "L s' (ls ! j) \<and> apart l' (ls ! j) \<and> apart (ls ! j) l'" if "j < length ls" "j \<noteq> i" for j
    using ok(3) [OF that] others [OF ok(1,2) _ _ i(2)] apart_sym by blast
  have pairs: "apart (ls ! j) (ls ! k)" if "j < length ls" "k < length ls" "j \<noteq> k" for j k
    using assms(2) that by (auto simp: threads_ok_def c)
  show ?thesis
    using me rest pairs i(1) by (auto simp: threads_ok_def c nth_list_update)
qed

lemma interleaves_ok:
  "(interleave step)\<^sup>*\<^sup>* c c' \<Longrightarrow> threads_ok G L apart c \<Longrightarrow> threads_ok G L apart c'"
  by (induction rule: rtranclp_induct) (auto intro: interleave_ok)

end

section \<open>Interface: threads that come to an end\<close>

text \<open>Every step brings its thread nearer to its end: \<open>rank\<close> bounds the steps that are left.\<close>

locale ranked_threads = threads step G L apart
  for step :: "'s \<Rightarrow> 'l \<Rightarrow> 's \<Rightarrow> 'l \<Rightarrow> bool" and G L apart +
  fixes rank :: "'l \<Rightarrow> nat"
  assumes rank_less: "G s \<Longrightarrow> L s l \<Longrightarrow> step s l s' l' \<Longrightarrow> rank l' < rank l"
begin

lemma interleave_rank:
  assumes "interleave step c c'" "threads_ok G L apart c"
  shows "sum_list (map rank (snd c')) < sum_list (map rank (snd c))"
proof -
  from assms(1) obtain i ls s s' l' where c: "c = (s, ls)" "c' = (s', ls[i := l'])"
    and i: "i < length ls" "step s (ls ! i) s' l'"
    by (auto elim: interleave.cases)
  have "map rank ls ! i \<le> sum_list (map rank ls)"
    using i(1) by (intro member_le_sum_list) (simp_all add: nth_mem)
  moreover have "rank l' < rank (ls ! i)"
    using assms(2) i by (intro rank_less) (auto simp: threads_ok_def c)
  ultimately show ?thesis
    using i(1) by (simp add: c map_update sum_list_update)
qed

lemma interleaves_rank:
  "(interleave step ^^ n) c c' \<Longrightarrow> threads_ok G L apart c \<Longrightarrow>
     n + sum_list (map rank (snd c')) \<le> sum_list (map rank (snd c))"
proof (induction n arbitrary: c')
  case (Suc n)
  from Suc.prems obtain c1 where c1: "(interleave step ^^ n) c c1" "interleave step c1 c'" by auto
  have "threads_ok G L apart c1"
    using interleaves_ok [OF relpowp_imp_rtranclp [OF c1(1)] Suc.prems(2)] .
  then show ?case using Suc.IH [OF c1(1) Suc.prems(2)] interleave_rank [OF c1(2)] by simp
qed auto

end

section \<open>Interface: threads that own what is live\<close>

locale owning_threads = threads step G L "\<lambda>l k. uses l \<inter> uses k = {}"
  for step :: "'s \<Rightarrow> 'l \<Rightarrow> 's \<Rightarrow> 'l \<Rightarrow> bool" and G L and uses :: "'l \<Rightarrow> 'r set" +
  fixes live :: "'s \<Rightarrow> 'r set"
  assumes live_step: "G s \<Longrightarrow> L s l \<Longrightarrow> step s l s' l' \<Longrightarrow> live s' = (live s - uses l) \<union> uses l'"
begin

lemma interleave_live:
  assumes "interleave step c c'" "threads_ok G L (\<lambda>l k. uses l \<inter> uses k = {}) c"
    and "live (fst c) = \<Union> (uses ` set (snd c))"
  shows "live (fst c') = \<Union> (uses ` set (snd c'))"
proof -
  from assms(1) obtain i ls s s' l' where c: "c = (s, ls)" "c' = (s', ls[i := l'])"
    and i: "i < length ls" "step s (ls ! i) s' l'"
    by (auto elim: interleave.cases)
  have "G s" "L s (ls ! i)" using assms(2) i by (auto simp: threads_ok_def c)
  then have l: "live s' = (live s - uses (ls ! i)) \<union> uses l'" using live_step i(2) by blast
  have apart: "uses (ls ! j) \<inter> uses (ls ! i) = {}" if "j < length ls" "j \<noteq> i" for j
    using assms(2) i(1) that by (auto simp: threads_ok_def c)
  have old: "live s = (\<Union>j < length ls. uses (ls ! j))"
    using assms(3) by (simp add: c Union_image_set)
  have "live s' = (\<Union>j \<in> {..<length ls} - {i}. uses (ls ! j)) \<union> uses l'"
    unfolding l old using apart by blast
  also have "\<dots> = (\<Union>j < length ls. uses (ls[i := l'] ! j))"
    using i(1) by (auto simp: nth_list_update split: if_splits)
  finally show ?thesis
    by (simp add: c Union_image_set)
qed

lemma interleaves_live:
  assumes "(interleave step)\<^sup>*\<^sup>* c c'" "threads_ok G L (\<lambda>l k. uses l \<inter> uses k = {}) c"
    and "live (fst c) = \<Union> (uses ` set (snd c))"
  shows "live (fst c') = \<Union> (uses ` set (snd c'))"
  using assms
proof (induction rule: rtranclp_induct)
  case (step c1 c2)
  have "threads_ok G L (\<lambda>l k. uses l \<inter> uses k = {}) c1"
    using interleaves_ok [OF step(1)] step(4) .
  then show ?case by (rule interleave_live [OF step(2)]) (rule step.IH [OF step(4,5)])
qed simp

end

end
