(* ===== verification/Memory_Threads.thy ===== *)
theory Memory_Threads
  imports Threads Secure_Memory
begin

text \<open>
  The client threads of the daemon and the secure heap. A thread that serves \<open>encrypt\<close> or
  \<open>decrypt\<close> takes a secure buffer for the key, derives the key into it, uses it and gives it
  back (\<open>cryptic_encrypt_file\<close> and \<open>cryptic_decrypt_file\<close> in
  \<open>crypticengine/src/cryptic_engine.c\<close>). Only the tracker is protected by \<open>alloc_mutex\<close>:
  \<open>secure_alloc\<close> calls \<open>sodium_malloc\<close> before, and \<open>secure_free\<close> calls \<open>sodium_free\<close> after
  the locked part, so each of them is two steps here, and every access to the buffer is a step
  of its own. \<open>secure_emergency_wipe\<close> runs under the lock as a whole and is one step.
  An access to, or a free of, a region that is not live sets \<open>heap_fault\<close>.

  The theorems: any number of clients, interleaved in any way, never touch memory that is not
  theirs, each uses exactly the key it derived, and the heap is empty when they are done; and
  an emergency wipe that comes while a client holds a tracked key makes that client fault.
\<close>

section \<open>The steps of a client\<close>

abbreviation (input) key_size :: u64 where "key_size \<equiv> 32"

datatype key_pc =
    KStart
  | KMalloced nat
  | KHeld nat
  | KDerived nat
  | KFreeing nat
  | KUnlinked nat
  | KDone
  | KWipe

text \<open>
  \<open>kt_derived\<close> is the result of \<open>crypto_derive_key\<close> for the password and the salt of this
  client, \<open>kt_used\<close> the key that the cipher read.
\<close>

record key_thread =
  kt_pc :: key_pc
  kt_derived :: "bytes res"
  kt_used :: "bytes option"

definition store_region :: "nat \<Rightarrow> bytes \<Rightarrow> mem_state \<Rightarrow> mem_state" where
  "store_region p b m =
     (if regions m p = None then m\<lparr>heap_fault := True\<rparr> else m\<lparr>regions := (regions m)(p \<mapsto> b)\<rparr>)"

definition touch_region :: "nat \<Rightarrow> mem_state \<Rightarrow> mem_state" where
  "touch_region p m = (if regions m p = None then m\<lparr>heap_fault := True\<rparr> else m)"

inductive key_step :: "mem_state \<Rightarrow> key_thread \<Rightarrow> mem_state \<Rightarrow> key_thread \<Rightarrow> bool" where
  alloc_refused: "kt_pc t = KStart \<Longrightarrow> key_step m t m (t\<lparr>kt_pc := KDone\<rparr>)"
| alloc_malloc: "kt_pc t = KStart \<Longrightarrow> initialized m \<Longrightarrow> regions m p = None \<Longrightarrow>
     key_step m t (m\<lparr>regions := (regions m)(p \<mapsto> replicate (unat key_size) fill)\<rparr>)
       (t\<lparr>kt_pc := KMalloced p\<rparr>)"
| alloc_track: "kt_pc t = KMalloced p \<Longrightarrow>
     key_step m t (tracker_add node_ok p key_size m) (t\<lparr>kt_pc := KHeld p\<rparr>)"
| derive_ok: "kt_pc t = KHeld p \<Longrightarrow> kt_derived t = Inr k \<Longrightarrow>
     key_step m t (store_region p k m) (t\<lparr>kt_pc := KDerived p\<rparr>)"
| derive_failed: "kt_pc t = KHeld p \<Longrightarrow> kt_derived t = Inl e \<Longrightarrow>
     key_step m t (touch_region p m) (t\<lparr>kt_pc := KFreeing p\<rparr>)"
| output_no_memory: "kt_pc t = KDerived p \<Longrightarrow> key_step m t m (t\<lparr>kt_pc := KFreeing p\<rparr>)"
| cipher: "kt_pc t = KDerived p \<Longrightarrow>
     key_step m t (touch_region p m) (t\<lparr>kt_pc := KFreeing p, kt_used := regions m p\<rparr>)"
| free_untrack: "kt_pc t = KFreeing p \<Longrightarrow>
     key_step m t (tracker_remove p key_size m) (t\<lparr>kt_pc := KUnlinked p\<rparr>)"
| free_sodium: "kt_pc t = KUnlinked p \<Longrightarrow> key_step m t (sodium_free p m) (t\<lparr>kt_pc := KDone\<rparr>)"
| wipe: "kt_pc t = KWipe \<Longrightarrow> key_step m t (secure_emergency_wipe m) (t\<lparr>kt_pc := KDone\<rparr>)"

definition key_client :: "bytes res \<Rightarrow> key_thread" where
  "key_client r = \<lparr>kt_pc = KStart, kt_derived = r, kt_used = None\<rparr>"

text \<open>A thread that runs alone does what the operations of the heap do as a whole.\<close>

lemma solo_alloc:
  assumes "initialized m" "regions m p = None" "kt_pc t = KStart"
  shows "(solo key_step)\<^sup>*\<^sup>* (m, t)
    (snd (secure_alloc (Some (p, fill)) node_ok key_size m), t\<lparr>kt_pc := KHeld p\<rparr>)"
proof -
  let ?m = "m\<lparr>regions := (regions m)(p \<mapsto> replicate (unat key_size) fill)\<rparr>"
  have 1: "solo key_step (m, t) (?m, t\<lparr>kt_pc := KMalloced p\<rparr>)"
    using assms alloc_malloc [of t m p fill] by (simp add: solo_def)
  have 2: "solo key_step (?m, t\<lparr>kt_pc := KMalloced p\<rparr>)
      (tracker_add node_ok p key_size ?m, t\<lparr>kt_pc := KHeld p\<rparr>)"
    using alloc_track [of "t\<lparr>kt_pc := KMalloced p\<rparr>" p ?m node_ok] by (simp add: solo_def)
  from converse_rtranclp_into_rtranclp [OF 1 r_into_rtranclp [of "solo key_step", OF 2]]
  show ?thesis using assms by (simp add: secure_alloc_def)
qed

lemma solo_free:
  assumes "kt_pc t = KFreeing p"
  shows "(solo key_step)\<^sup>*\<^sup>* (m, t) (secure_free (Some p) key_size m, t\<lparr>kt_pc := KDone\<rparr>)"
proof -
  have 1: "solo key_step (m, t) (tracker_remove p key_size m, t\<lparr>kt_pc := KUnlinked p\<rparr>)"
    using assms free_untrack [of t p m] by (simp add: solo_def)
  have 2: "solo key_step (tracker_remove p key_size m, t\<lparr>kt_pc := KUnlinked p\<rparr>)
      (sodium_free p (tracker_remove p key_size m), t\<lparr>kt_pc := KDone\<rparr>)"
    using free_sodium [of "t\<lparr>kt_pc := KUnlinked p\<rparr>" p "tracker_remove p key_size m"]
    by (simp add: solo_def)
  from converse_rtranclp_into_rtranclp [OF 1 r_into_rtranclp [of "solo key_step", OF 2]]
  show ?thesis by (simp add: secure_free_def)
qed

text \<open>The whole life of a key, when nothing fails.\<close>

lemma solo_key:
  assumes "initialized m" "regions m p = None" "kt_pc t = KStart" "kt_derived t = Inr k"
  shows "\<exists>m'. (solo key_step)\<^sup>*\<^sup>* (m, t) (m', t\<lparr>kt_pc := KDone, kt_used := Some k\<rparr>)"
proof -
  define m1 where "m1 = snd (secure_alloc (Some (p, 0)) True key_size m)"
  define m2 where "m2 = m1\<lparr>regions := (regions m1)(p \<mapsto> k)\<rparr>"
  have "regions m1 p \<noteq> None"
    using assms by (simp add: m1_def secure_alloc_def tracker_add_def)
  then have d: "solo key_step (m1, t\<lparr>kt_pc := KHeld p\<rparr>) (m2, t\<lparr>kt_pc := KDerived p\<rparr>)"
    using derive_ok [of "t\<lparr>kt_pc := KHeld p\<rparr>" p k m1] assms
    by (auto simp: solo_def m2_def store_region_def)
  have c: "solo key_step (m2, t\<lparr>kt_pc := KDerived p\<rparr>) (m2, t\<lparr>kt_pc := KFreeing p, kt_used := Some k\<rparr>)"
    using cipher [of "t\<lparr>kt_pc := KDerived p\<rparr>" p m2] by (simp add: solo_def m2_def touch_region_def)
  have "(solo key_step)\<^sup>*\<^sup>* (m, t) (m1, t\<lparr>kt_pc := KHeld p\<rparr>)"
    unfolding m1_def by (rule solo_alloc [OF assms(1-3)])
  also note d
  also note c
  also have "(solo key_step)\<^sup>*\<^sup>* (m2, t\<lparr>kt_pc := KFreeing p, kt_used := Some k\<rparr>)
      (secure_free (Some p) key_size m2, t\<lparr>kt_pc := KDone, kt_used := Some k\<rparr>)"
    using solo_free [of "t\<lparr>kt_pc := KFreeing p, kt_used := Some k\<rparr>" p m2]
    by (cases t) simp
  finally show ?thesis by blast
qed

section \<open>Clients do not disturb each other\<close>

fun pc_owns :: "key_pc \<Rightarrow> nat set" where
  "pc_owns (KMalloced p) = {p}"
| "pc_owns (KHeld p) = {p}"
| "pc_owns (KDerived p) = {p}"
| "pc_owns (KFreeing p) = {p}"
| "pc_owns (KUnlinked p) = {p}"
| "pc_owns _ = {}"

definition owns :: "key_thread \<Rightarrow> nat set" where
  "owns t = pc_owns (kt_pc t)"

text \<open>What a thread may assume of the shared state, whatever the other clients do.\<close>

definition key_assertion :: "mem_state \<Rightarrow> key_thread \<Rightarrow> bool" where
  "key_assertion m t \<longleftrightarrow>
     (case kt_used t of None \<Rightarrow> True | Some k \<Rightarrow> kt_derived t = Inr k) \<and>
     (\<forall>n \<in> set (alloc_list m). node_ptr n \<in> owns t \<longrightarrow> node_size n = key_size) \<and>
     owns t \<subseteq> dom (regions m) \<and>
     (case kt_pc t of
        KMalloced p \<Rightarrow> p \<notin> set (tracked m)
      | KUnlinked p \<Rightarrow> p \<notin> set (tracked m)
      | KDerived p \<Rightarrow> (\<exists>k. kt_derived t = Inr k \<and> regions m p = Some k)
      | KWipe \<Rightarrow> False
      | _ \<Rightarrow> True)"

lemma tracked_live: "mem_inv m \<Longrightarrow> p \<in> set (tracked m) \<Longrightarrow> regions m p \<noteq> None"
  by (auto simp: mem_inv_def)

lemma tracker_remove_cases:
  assumes "mem_inv m" "\<forall>n \<in> set (alloc_list m). node_ptr n = p \<longrightarrow> node_size n = sz"
  obtains "p \<notin> set (tracked m)" "tracker_remove p sz m = m"
  | as n bs where "alloc_list m = as @ n # bs" "node_ptr n = p" "node_size n = sz"
    "p \<notin> node_ptr ` (set as \<union> set bs)"
    "tracker_remove p sz m = m\<lparr>alloc_list := as @ bs, alloc_count := alloc_count m - 1,
       alloc_total_bytes := alloc_total_bytes m - sz\<rparr>"
proof (cases "p \<in> set (tracked m)")
  case False
  then have "tracker_remove p sz m = m"
    by (auto simp: tracker_remove_def tracked_def intro: unlink_notin split: option.splits
        dest: unlink_notin)
  then show thesis using that(1) False by blast
next
  case True
  then obtain n where n: "n \<in> set (alloc_list m)" "node_ptr n = p"
    by (auto simp: tracked_def)
  moreover have d: "distinct (map node_ptr (alloc_list m))"
    using assms(1) by (simp add: mem_inv_def tracked_def)
  ultimately obtain as bs where l: "alloc_list m = as @ n # bs"
    "tracker_unlink p (alloc_list m) = Some (as @ bs)"
    using unlink_in [of n "alloc_list m"] by auto
  moreover have "p \<notin> node_ptr ` (set as \<union> set bs)"
    using d l n by auto
  ultimately show thesis
    using that(2) [OF l(1) n(2)] assms(2) n by (simp add: tracker_remove_def)
qed

lemma tracker_remove_facts:
  assumes "mem_inv m" "\<forall>n \<in> set (alloc_list m). node_ptr n = p \<longrightarrow> node_size n = sz"
  shows "mem_inv (tracker_remove p sz m)" "regions (tracker_remove p sz m) = regions m"
    "set (tracked (tracker_remove p sz m)) = set (tracked m) - {p}"
    "set (alloc_list (tracker_remove p sz m)) \<subseteq> set (alloc_list m)"
proof -
  from assms have "mem_inv (tracker_remove p sz m) \<and> regions (tracker_remove p sz m) = regions m \<and>
      set (tracked (tracker_remove p sz m)) = set (tracked m) - {p} \<and>
      set (alloc_list (tracker_remove p sz m)) \<subseteq> set (alloc_list m)"
  proof (cases rule: tracker_remove_cases)
    case 1
    then show ?thesis using assms(1) by auto
  next
    case (2 as n bs)
    then show ?thesis using assms(1) by (auto simp: mem_inv_def tracked_def)
  qed
  then show "mem_inv (tracker_remove p sz m)" "regions (tracker_remove p sz m) = regions m"
    "set (tracked (tracker_remove p sz m)) = set (tracked m) - {p}"
    "set (alloc_list (tracker_remove p sz m)) \<subseteq> set (alloc_list m)"
    by simp_all
qed

lemma tracker_add_facts:
  assumes "mem_inv m" "p \<notin> set (tracked m)" "regions m p \<noteq> None"
  shows "mem_inv (tracker_add node_ok p sz m)" "regions (tracker_add node_ok p sz m) = regions m"
    "set (tracked (tracker_add node_ok p sz m)) \<subseteq> insert p (set (tracked m))"
    "set (alloc_list (tracker_add node_ok p sz m)) \<subseteq>
       insert \<lparr>node_ptr = p, node_size = sz\<rparr> (set (alloc_list m))"
  using assms by (auto simp: tracker_add_def mem_inv_def tracked_def)

lemma region_facts:
  assumes "mem_inv m" "regions m p \<noteq> None"
  shows "mem_inv (store_region p k m)" "store_region p k m = m\<lparr>regions := (regions m)(p \<mapsto> k)\<rparr>"
    "touch_region p m = m"
  using assms by (auto simp: store_region_def touch_region_def mem_inv_def tracked_def)

lemma sodium_free_facts:
  assumes "mem_inv m" "regions m p \<noteq> None" "p \<notin> set (tracked m)"
  shows "mem_inv (sodium_free p m)" "sodium_free p m = m\<lparr>regions := (regions m)(p := None)\<rparr>"
  using assms by (auto simp: sodium_free_def mem_inv_def tracked_def)

lemma malloc_inv:
  "mem_inv m \<Longrightarrow> mem_inv (m\<lparr>regions := (regions m)(p \<mapsto> b)\<rparr>)"
  by (auto simp: mem_inv_def tracked_def)

lemma tracked_mem [simp]:
  "tracked (m\<lparr>regions := r\<rparr>) = tracked m" "n \<in> set (alloc_list m) \<Longrightarrow> node_ptr n \<in> set (tracked m)"
  by (auto simp: tracked_def)

lemma key_step_own:
  assumes "mem_inv m" "key_assertion m t" "key_step m t m' t'"
  shows "mem_inv m' \<and> key_assertion m' t'"
  using assms(3)
proof cases
  case (alloc_malloc p fill)
  then have "p \<notin> set (tracked m)" using tracked_live [OF assms(1), of p] by blast
  then show ?thesis using alloc_malloc assms(1,2) malloc_inv [OF assms(1)]
    by (auto simp: key_assertion_def owns_def split: option.splits)
next
  case (alloc_track p node_ok)
  then have "p \<notin> set (tracked m)" "regions m p \<noteq> None"
    using assms(2) by (auto simp: key_assertion_def owns_def)
  note f = tracker_add_facts [OF assms(1) this, of node_ok key_size]
  have "\<forall>n \<in> set (alloc_list m'). node_ptr n = p \<longrightarrow> node_size n = key_size"
    using alloc_track assms(2) by (auto simp: key_assertion_def owns_def tracker_add_def)
  then show ?thesis
    using alloc_track assms(2) f(1-3)
    by (auto simp: key_assertion_def owns_def split: option.splits)
next
  case (derive_ok p k)
  then have "regions m p \<noteq> None" using assms(2) by (auto simp: key_assertion_def owns_def)
  then show ?thesis using derive_ok assms(2) region_facts [OF assms(1), of p]
    by (auto simp: key_assertion_def owns_def split: option.splits)
next
  case (derive_failed p e)
  then have "regions m p \<noteq> None" using assms(2) by (auto simp: key_assertion_def owns_def)
  then show ?thesis using derive_failed assms(1,2) region_facts [OF assms(1), of p]
    by (auto simp: key_assertion_def owns_def split: option.splits)
next
  case (cipher p)
  then have "regions m p \<noteq> None" using assms(2) by (auto simp: key_assertion_def owns_def)
  then show ?thesis using cipher assms(1,2) region_facts [OF assms(1), of p]
    by (auto simp: key_assertion_def owns_def split: option.splits)
next
  case (free_untrack p)
  then have "\<forall>n \<in> set (alloc_list m). node_ptr n = p \<longrightarrow> node_size n = key_size"
    using assms(2) by (auto simp: key_assertion_def owns_def)
  note f = tracker_remove_facts [OF assms(1) this]
  then show ?thesis
    using free_untrack assms(2) subsetD [OF f(4)]
    by (auto simp: key_assertion_def owns_def split: option.splits)
next
  case (free_sodium p)
  then have "regions m p \<noteq> None" "p \<notin> set (tracked m)"
    using assms(2) by (auto simp: key_assertion_def owns_def)
  note f = sodium_free_facts [OF assms(1) this]
  then show ?thesis using free_sodium assms(2) by (auto simp: key_assertion_def owns_def split: option.splits)
qed (use assms(1,2) in \<open>auto simp: key_assertion_def owns_def split: option.splits\<close>)

text \<open>A step changes nothing outside the buffer that the thread owns before or after it.\<close>

lemma key_step_frame:
  assumes "mem_inv m" "key_assertion m t" "key_step m t m' t'" "q \<notin> owns t" "q \<notin> owns t'"
  shows "regions m' q = regions m q \<and>
    (\<forall>n \<in> set (alloc_list m'). node_ptr n = q \<longrightarrow> n \<in> set (alloc_list m))"
  using assms(3)
proof cases
  case (free_untrack p)
  then have "\<forall>n \<in> set (alloc_list m). node_ptr n = p \<longrightarrow> node_size n = key_size"
    using assms(2) by (auto simp: key_assertion_def owns_def)
  from tracker_remove_facts [OF assms(1) this] show ?thesis using free_untrack by auto
qed (use assms(2,4,5) in \<open>auto simp: key_assertion_def owns_def tracker_add_def store_region_def
    touch_region_def sodium_free_def\<close>)

lemma key_step_owns:
  assumes "key_step m t m' t'" "q \<in> owns t'"
  shows "q \<in> owns t \<or> regions m q = None"
  using assms by (cases rule: key_step.cases) (auto simp: owns_def)

lemma key_assertion_frame:
  assumes "key_assertion m t" "\<forall>q \<in> owns t. regions m' q = regions m q"
    and "\<forall>n \<in> set (alloc_list m'). node_ptr n \<in> owns t \<longrightarrow> n \<in> set (alloc_list m)"
  shows "key_assertion m' t"
proof -
  have "q \<notin> set (tracked m')" if "q \<in> owns t" "q \<notin> set (tracked m)" for q
    using assms(3) that by (auto simp: tracked_def)
  moreover have "owns t \<subseteq> dom (regions m')"
    using assms(1,2) by (auto simp: key_assertion_def dom_def)
  ultimately show ?thesis
    using assms by (cases "kt_pc t") (auto simp: key_assertion_def owns_def)
qed

lemma key_step_others:
  assumes "mem_inv m" "key_assertion m t" "key_assertion m k" "owns t \<inter> owns k = {}"
    and "key_step m t m' t'"
  shows "key_assertion m' k \<and> owns t' \<inter> owns k = {}"
proof -
  have live: "regions m q \<noteq> None" if "q \<in> owns k" for q
    using assms(3) that by (auto simp: key_assertion_def)
  have apart: "q \<notin> owns t" "q \<notin> owns t'" if "q \<in> owns k" for q
    using key_step_owns [OF assms(5), of q] live that assms(4) by auto
  have "key_assertion m' k"
    using key_step_frame [OF assms(1,2,5)] apart
    by (intro key_assertion_frame [OF assms(3)]) blast+
  then show ?thesis using apart by blast
qed

lemma key_step_live:
  assumes "mem_inv m" "key_assertion m t" "key_step m t m' t'"
  shows "dom (regions m') = (dom (regions m) - owns t) \<union> owns t'"
proof -
  have "q \<in> dom (regions m') \<longleftrightarrow> q \<in> (dom (regions m) - owns t) \<union> owns t'" for q
  proof (cases "q \<in> owns t \<or> q \<in> owns t'")
    case False
    then show ?thesis using key_step_frame [OF assms, of q] by (auto simp: dom_def)
  next
    case True
    have "owns t' \<subseteq> dom (regions m')"
      using key_step_own [OF assms] by (simp add: key_assertion_def)
    moreover have "owns t' = owns t \<or> q \<notin> dom (regions m')" if "q \<in> owns t"
      using assms(3) that
      by (cases rule: key_step.cases) (auto simp: owns_def sodium_free_def)
    ultimately show ?thesis using True by blast
  qed
  then show ?thesis by blast
qed

interpretation kt: owning_threads key_step mem_inv key_assertion owns "\<lambda>m. dom (regions m)"
proof (unfold_locales, goal_cases)
  case (1 s l s' l')
  then show ?case by (rule key_step_own)
next
  case (2 s l k s' l')
  then show ?case by (rule key_step_others)
next
  case (3 l k)
  then show ?case by blast
next
  case (4 s l s' l')
  then show ?case by (rule key_step_live)
qed

section \<open>Any number of clients\<close>

lemma key_step_derived: "key_step m t m' t' \<Longrightarrow> kt_derived t' = kt_derived t"
  by (cases rule: key_step.cases) auto

fun pc_rank :: "key_pc \<Rightarrow> nat" where
  "pc_rank KStart = 6"
| "pc_rank (KMalloced _) = 5"
| "pc_rank (KHeld _) = 4"
| "pc_rank (KDerived _) = 3"
| "pc_rank (KFreeing _) = 2"
| "pc_rank (KUnlinked _) = 1"
| "pc_rank KWipe = 1"
| "pc_rank KDone = 0"

lemma key_step_rank: "key_step m t m' t' \<Longrightarrow> pc_rank (kt_pc t') < pc_rank (kt_pc t)"
  by (cases rule: key_step.cases) auto

interpretation kr: ranked_threads key_step mem_inv key_assertion
  "\<lambda>t u. owns t \<inter> owns u = {}" "\<lambda>t. pc_rank (kt_pc t)"
  by unfold_locales (rule key_step_rank)

lemma key_step_exists: "kt_pc t \<noteq> KDone \<Longrightarrow> \<exists>m' t'. key_step m t m' t'"
proof (cases "kt_pc t")
  case (KHeld p)
  then show ?thesis by (cases "kt_derived t") (blast intro: derive_ok derive_failed)+
qed (blast intro: key_step.intros)+

lemma solo_completes: "\<exists>m' t'. (solo key_step)\<^sup>*\<^sup>* (m, t) (m', t') \<and> kt_pc t' = KDone"
proof (induction "pc_rank (kt_pc t)" arbitrary: m t rule: less_induct)
  case less
  show ?case
  proof (cases "kt_pc t = KDone")
    case False
    then obtain m1 t1 where s: "key_step m t m1 t1" using key_step_exists by blast
    from less [OF key_step_rank [OF s]] obtain m' t' where
      "(solo key_step)\<^sup>*\<^sup>* (m1, t1) (m', t')" "kt_pc t' = KDone" by blast
    moreover have "solo key_step (m, t) (m1, t1)" using s by (simp add: solo_def)
    ultimately show ?thesis by (blast intro: converse_rtranclp_into_rtranclp)
  qed blast
qed

lemma clients_start:
  assumes "mem_inv m" "regions m = Map.empty"
  shows "threads_ok mem_inv key_assertion (\<lambda>t u. owns t \<inter> owns u = {}) (m, map key_client ds)"
    "dom (regions m) = \<Union> (owns ` set (map key_client ds))"
  using assms by (auto simp: threads_ok_def key_assertion_def key_client_def owns_def)

text \<open>
  C4: any number of clients encrypt or decrypt at the same time, on a heap that is empty at
  first. However their steps interleave: no client touches or frees memory that is not live,
  no two own the same buffer, the live regions are exactly the buffers the clients own, and
  the key a client's cipher reads is the one that this client derived from its own password.
  The statistics stay exact.
\<close>

theorem clients_do_not_interfere:
  assumes "mem_inv m" "regions m = Map.empty"
    and "(interleave key_step)\<^sup>*\<^sup>* (m, map key_client ds) (m', ts)"
  shows "\<not> heap_fault m' \<and> map kt_derived ts = ds \<and>
    dom (regions m') = \<Union> (owns ` set ts) \<and>
    (\<forall>i < length ts. \<forall>j < length ts. i \<noteq> j \<longrightarrow> owns (ts ! i) \<inter> owns (ts ! j) = {}) \<and>
    (\<forall>i < length ts. \<forall>k. kt_used (ts ! i) = Some k \<longrightarrow> ds ! i = Inr k) \<and>
    secure_memory_stats m' =
      (word_of_nat (length (alloc_list m')), sum_list (map node_size (alloc_list m')))"
proof -
  note start = clients_start [OF assms(1,2), of ds]
  have ok: "threads_ok mem_inv key_assertion (\<lambda>t u. owns t \<inter> owns u = {}) (m', ts)"
    by (rule kt.interleaves_ok [OF assms(3) start(1)])
  have "dom (regions m') = \<Union> (owns ` set ts)"
    using kt.interleaves_live [OF assms(3) start(1)] start(2) by simp
  moreover have d: "map kt_derived ts = ds"
    using interleaves_map [OF assms(3), of kt_derived] key_step_derived
    by (simp add: key_client_def comp_def)
  moreover have "ds ! i = Inr k" if "i < length ts" "kt_used (ts ! i) = Some k" for i k
    using ok that nth_map [OF that(1), of kt_derived]
    by (auto simp: threads_ok_def key_assertion_def d)
  ultimately show ?thesis
    using ok by (simp add: threads_ok_def mem_inv_def secure_memory_stats_def)
qed

text \<open>Two clients; the first one has run to its end while the second holds a fresh buffer.\<close>

definition two_clients :: "bytes res list" where
  "two_clients = [Inr (replicate 32 1), Inr (replicate 32 2)]"

lemma two_clients_run:
  "\<exists>m'. (interleave key_step)\<^sup>*\<^sup>* (mem0, map key_client two_clients)
     (m', [\<lparr>kt_pc = KDone, kt_derived = Inr (replicate 32 1), kt_used = Some (replicate 32 1)\<rparr>,
           \<lparr>kt_pc = KMalloced 8192, kt_derived = Inr (replicate 32 2), kt_used = None\<rparr>])"
proof -
  let ?ts = "map key_client two_clients"
  let ?m = "mem0\<lparr>regions := (regions mem0)(8192 \<mapsto> replicate 32 0)\<rparr>"
  let ?us = "?ts[1 := (?ts ! 1)\<lparr>kt_pc := KMalloced 8192\<rparr>]"
  have "interleave key_step (mem0, ?ts) (?m, ?us)"
    using alloc_malloc [of "?ts ! 1" mem0 8192 0]
    by (intro thread_step) (simp_all add: two_clients_def key_client_def)
  moreover obtain m' where "(solo key_step)\<^sup>*\<^sup>* (?m, ?us ! 0)
      (m', (?us ! 0)\<lparr>kt_pc := KDone, kt_used := Some (replicate 32 1)\<rparr>)"
    using solo_key [of ?m 4096 "?us ! 0" "replicate 32 1"]
    by (auto simp: two_clients_def key_client_def)
  from solo_interleaves [OF this, of 0 ?us]
  have "(interleave key_step)\<^sup>*\<^sup>* (?m, ?us)
      (m', ?us[0 := (?us ! 0)\<lparr>kt_pc := KDone, kt_used := Some (replicate 32 1)\<rparr>])"
    by (simp add: two_clients_def)
  ultimately show ?thesis
    by (auto simp: two_clients_def key_client_def intro: converse_rtranclp_into_rtranclp)
qed

theorem clients_do_not_interfere_witness:
  "\<exists>m' ts. (interleave key_step)\<^sup>*\<^sup>* (mem0, map key_client two_clients) (m', ts) \<and>
     \<not> heap_fault m' \<and> dom (regions m') = {8192} \<and> kt_used (ts ! 0) = Some (replicate 32 1)"
proof -
  let ?ts = "[\<lparr>kt_pc = KDone, kt_derived = Inr (replicate 32 1), kt_used = Some (replicate 32 1)\<rparr>,
    \<lparr>kt_pc = KMalloced 8192, kt_derived = Inr (replicate 32 2), kt_used = None\<rparr>]"
  obtain m' where run: "(interleave key_step)\<^sup>*\<^sup>* (mem0, map key_client two_clients) (m', ?ts)"
    using two_clients_run by blast
  have "regions mem0 = Map.empty" by (rule ext) simp
  from clients_do_not_interfere [OF mem0_facts(1) this run]
  have "\<not> heap_fault m'" "dom (regions m') = {8192}" by (auto simp: owns_def)
  then show ?thesis using run by (intro exI [of _ m'] exI [of _ ?ts]) simp
qed

text \<open>
  C15: the clients always come to an end and leave nothing behind. Six steps for every client
  are enough; as long as one is not done some step is possible; and once all are done no
  secure region is left, the tracker is empty and the statistics are zero.
\<close>

theorem clients_finish_clean:
  assumes "mem_inv m" "regions m = Map.empty"
    and "(interleave key_step ^^ n) (m, map key_client ds) (m', ts)"
  shows "n \<le> 6 * length ds \<and>
    ((\<exists>c. interleave key_step (m', ts) c) \<or>
     ((\<forall>t \<in> set ts. kt_pc t = KDone) \<and> regions m' = Map.empty \<and> alloc_list m' = [] \<and>
      secure_memory_stats m' = (0, 0)))"
proof -
  have run: "(interleave key_step)\<^sup>*\<^sup>* (m, map key_client ds) (m', ts)"
    using assms(3) by (rule relpowp_imp_rtranclp)
  note start = clients_start [OF assms(1,2), of ds]
  have n: "n \<le> 6 * length ds"
    using kr.interleaves_rank [OF assms(3) start(1)]
    by (simp add: key_client_def comp_def sum_list_triv)
  have inv: "mem_inv m'"
    using kt.interleaves_ok [OF run start(1)] by (simp add: threads_ok_def)
  have live: "dom (regions m') = \<Union> (owns ` set ts)"
    using kt.interleaves_live [OF run start(1)] start(2) by simp
  show ?thesis
  proof (cases "\<forall>t \<in> set ts. kt_pc t = KDone")
    case True
    then have "dom (regions m') = {}" using live by (auto simp: owns_def)
    then have "regions m' = Map.empty" "alloc_list m' = []"
      using inv by (auto simp: mem_inv_def tracked_def)
    then show ?thesis using n True inv by (simp add: secure_memory_stats_def mem_inv_def)
  next
    case False
    then obtain i where "i < length ts" "kt_pc (ts ! i) \<noteq> KDone"
      by (auto simp: in_set_conv_nth)
    then have "\<exists>c. interleave key_step (m', ts) c"
      using key_step_exists [of "ts ! i" m'] by (blast intro: thread_step)
    then show ?thesis using n by blast
  qed
qed

theorem clients_finish_clean_witness:
  "\<exists>n m' t. (interleave key_step ^^ n) (mem0, map key_client [Inr (replicate 32 7)]) (m', [t]) \<and>
     kt_used t = Some (replicate 32 7) \<and> n \<le> 6 \<and> regions m' = Map.empty \<and>
     secure_memory_stats m' = (0, 0)"
proof -
  let ?t = "key_client (Inr (replicate 32 7))"
  let ?u = "?t\<lparr>kt_pc := KDone, kt_used := Some (replicate 32 7)\<rparr>"
  obtain m' where "(solo key_step)\<^sup>*\<^sup>* (mem0, ?t) (m', ?u)"
    using solo_key [of mem0 4096 ?t "replicate 32 7"] by (auto simp: key_client_def)
  from solo_interleaves [OF this, of 0 "[?t]"]
  obtain n where run: "(interleave key_step ^^ n) (mem0, map key_client [Inr (replicate 32 7)]) (m', [?u])"
    by (auto dest: rtranclp_imp_relpowp)
  have "regions mem0 = Map.empty" by (rule ext) simp
  note fin = clients_finish_clean [OF mem0_facts(1) this run]
  have "\<not> interleave key_step (m', [?u]) c" for c
    by (auto elim!: interleaveE key_step.cases)
  then show ?thesis using fin run by (intro exI [of _ n] exI [of _ m'] exI [of _ ?u]) simp
qed

section \<open>An emergency wipe while a client holds its key\<close>

text \<open>The thread will use or free the dead region, or the fault has happened.\<close>

definition doomed :: "nat \<Rightarrow> mem_state \<times> key_thread \<Rightarrow> bool" where
  "doomed p c \<longleftrightarrow> heap_fault (fst c) \<or>
     (regions (fst c) p = None \<and>
      kt_pc (snd c) \<in> {KHeld p, KDerived p, KFreeing p, KUnlinked p})"

lemma tracker_remove_heap [simp]:
  "regions (tracker_remove p sz m) = regions m" "heap_fault (tracker_remove p sz m) = heap_fault m"
  "regions (tracker_add b p sz m) = regions m" "heap_fault (tracker_add b p sz m) = heap_fault m"
  by (auto simp: tracker_remove_def tracker_add_def split: option.splits)

lemma fold_free_fault: "heap_fault m \<Longrightarrow> heap_fault (fold (\<lambda>n. sodium_free (node_ptr n)) ns m)"
  by (induction ns arbitrary: m) (auto simp: sodium_free_def)

lemma doomed_step:
  assumes "solo key_step c c'" "doomed p c"
  shows "doomed p c'"
  using assms unfolding solo_def
  by (cases rule: key_step.cases)
    (auto simp: doomed_def store_region_def touch_region_def sodium_free_def
      secure_emergency_wipe_def fold_free_fault)

text \<open>
  C34: an emergency wipe frees the tracked key of a client that is using it. The client is not
  told: however it goes on by itself after the wipe, when it is done it has accessed or freed
  a region that is not live, where the process is killed.
\<close>

theorem wipe_faults_key_holder:
  assumes "mem_inv m" "p \<in> set (tracked m)" "kt_pc t \<in> {KHeld p, KDerived p, KFreeing p}"
    and "(solo key_step)\<^sup>*\<^sup>* (secure_emergency_wipe m, t) (m', t')" "kt_pc t' = KDone"
  shows "heap_fault m'"
proof -
  have "doomed p (secure_emergency_wipe m, t)"
    using assms(2,3) by (auto simp: doomed_def emergency_wipe_eq [OF assms(1)])
  with assms(4) have "doomed p (m', t')"
    by (induction rule: rtranclp_induct) (auto intro: doomed_step)
  then show ?thesis using assms(5) by (auto simp: doomed_def)
qed

theorem wipe_faults_key_holder_witness:
  "\<exists>m' t'. (solo key_step)\<^sup>*\<^sup>*
     (secure_emergency_wipe mem_example, (key_client (Inr (replicate 32 7)))\<lparr>kt_pc := KHeld 4096\<rparr>)
     (m', t') \<and> kt_pc t' = KDone \<and> heap_fault m'"
proof -
  let ?t = "(key_client (Inr (replicate 32 7)))\<lparr>kt_pc := KHeld 4096\<rparr>"
  obtain m' t' where run: "(solo key_step)\<^sup>*\<^sup>* (secure_emergency_wipe mem_example, ?t) (m', t')"
    "kt_pc t' = KDone"
    using solo_completes by blast
  have "4096 \<in> set (tracked mem_example)"
    by (simp add: mem_example_def secure_alloc_def secure_memory_init_def mem_start_def
        tracker_add_def tracked_def)
  then show ?thesis
    using wipe_faults_key_holder [OF mem_example_inv _ _ run, of 4096] run by auto
qed

end
