(* ===== verification/Session_Threads.thy ===== *)
theory Session_Threads
  imports Threads Secure_Session
begin

text \<open>
  The client threads of the daemon and the session table. \<open>session_create\<close> and
  \<open>session_destroy\<close> in \<open>crypticengine/src/secure_session.c\<close> do their work under
  \<open>session_mutex\<close>, one step each, but \<open>session_create\<close> reads the number it returns from the
  slot of the table after it has given up the lock, and \<open>session_destroy_all\<close> copies the
  numbers under the lock and destroys the sessions one by one afterwards. The flag
  \<open>session_initialized\<close>, which is read before the lock is taken, does not change while the
  clients run, so that its test can be part of the step.

  The theorems: a wipe that has finished leaves no session that existed when the clients
  began, whatever the other clients do in between; clients that only create sessions are
  each told the number of their own session; a client that destroys a session meanwhile can
  make another one be told a number that is not its own.
\<close>

section \<open>The steps of a client\<close>

datatype sess_pc =
    SCreate create_env "string option" u64 bool
  | SCreated nat int
  | SReturned int int
  | SFailed
  | SDestroy int
  | SDestroyed
  | SWipe
  | SWiping "int list"
  | SWiped

text \<open>
  \<open>SCreated idx i\<close>: the session with number \<open>i\<close> is in slot \<open>idx\<close>, and the lock is given up.
  \<open>SReturned r i\<close>: the client was told \<open>r\<close> for the session with number \<open>i\<close>.
\<close>

definition returned_id :: "nat \<Rightarrow> sess_state \<Rightarrow> int" where
  "returned_id idx st = sid (sessions st ! idx)"

definition copied_ids :: "sess_state \<Rightarrow> int list" where
  "copied_ids st = map sid (take (session_count st) (sessions st))"

inductive client_step :: "sess_state \<Rightarrow> sess_pc \<Rightarrow> sess_state \<Rightarrow> sess_pc \<Rightarrow> bool" where
  create_locked: "session_create e name mem net st = (Inr i, st') \<Longrightarrow>
     client_step st (SCreate e name mem net) st' (SCreated (session_count st) i)"
| create_failed: "session_create e name mem net st = (Inl err, st') \<Longrightarrow>
     client_step st (SCreate e name mem net) st' SFailed"
| create_return: "client_step st (SCreated idx i) st (SReturned (returned_id idx st) i)"
| destroy: "client_step st (SDestroy k) (snd (session_destroy k st)) SDestroyed"
| wipe_copy: "client_step st SWipe st (SWiping (copied_ids st))"
| wipe_next: "client_step st (SWiping (k # ks)) (snd (session_destroy k st)) (SWiping ks)"
| wipe_end: "client_step st (SWiping []) st SWiped"

fun client_start :: "sess_pc \<Rightarrow> bool" where
  "client_start (SCreate _ _ _ _) = True"
| "client_start (SDestroy _) = True"
| "client_start SWipe = True"
| "client_start _ = False"

fun client_done :: "sess_pc \<Rightarrow> bool" where
  "client_done (SReturned _ _) = True"
| "client_done SFailed = True"
| "client_done SDestroyed = True"
| "client_done SWiped = True"
| "client_done _ = False"

lemma client_step_exists: "\<not> client_done l \<Longrightarrow> \<exists>st' l'. client_step st l st' l'"
proof (cases l)
  case (SCreate e name mem net)
  then show ?thesis
    by (cases "fst (session_create e name mem net st)")
      (metis create_failed create_locked prod.collapse)+
next
  case (SWiping ks)
  then show ?thesis by (cases ks) (auto intro: wipe_next wipe_end)
qed (auto intro: client_step.intros)

lemma clients_progress:
  "(\<exists>c. interleave client_step (st, ls) c) \<or> (\<forall>l \<in> set ls. client_done l)"
  using interleave_progress [of client_done client_step "(st, ls)"] client_step_exists by simp

fun creator :: "sess_pc \<Rightarrow> bool" where
  "creator (SCreate _ _ _ _) = True"
| "creator _ = False"

text \<open>A wipe that is not disturbed is \<open>session_destroy_all\<close>.\<close>

lemma solo_wiping:
  "(solo client_step)\<^sup>*\<^sup>* (st, SWiping ks) (fold (\<lambda>i st. snd (session_destroy i st)) ks st, SWiped)"
proof (induction ks arbitrary: st)
  case Nil
  have "solo client_step (st, SWiping []) (st, SWiped)" by (simp add: solo_def wipe_end)
  then show ?case by simp
next
  case (Cons k ks)
  have "solo client_step (st, SWiping (k # ks)) (snd (session_destroy k st), SWiping ks)"
    by (simp add: solo_def wipe_next)
  then show ?case using Cons by (simp add: converse_rtranclp_into_rtranclp)
qed

lemma solo_wipe: "(solo client_step)\<^sup>*\<^sup>* (st, SWipe) (session_destroy_all st, SWiped)"
proof -
  have "solo client_step (st, SWipe) (st, SWiping (copied_ids st))"
    by (simp add: solo_def wipe_copy)
  then show ?thesis
    unfolding session_destroy_all_def copied_ids_def by (rule converse_rtranclp_into_rtranclp) (rule solo_wiping)
qed

section \<open>How the table moves\<close>

lemma destroy_next [simp]: "next_session_id (snd (session_destroy k st)) = next_session_id st"
  by (auto simp: session_destroy_def Let_def log_sys_def split: option.splits)

text \<open>
  What every step of every client does to the table: the invariant is kept, the next number
  never goes back, and a session of the new table was in the old one or has a new number.
\<close>

lemma client_step_table:
  assumes "sess_inv st" "client_step st l st' l'"
  shows "sess_inv st' \<and> next_session_id st \<le> next_session_id st' \<and>
    (\<forall>s \<in> set (active st'). s \<in> set (active st) \<or> next_session_id st \<le> sid s)"
proof -
  have create: ?thesis if "session_create e name mem net st = (r, st')" for e name mem net r
    using assms(1) that
  proof (cases rule: create_cases)
    case failed
    then show ?thesis using create_inv [OF assms(1), of e name mem net] that by simp
  next
    case (created s)
    then show ?thesis using create_inv [OF assms(1), of e name mem net] that by auto
  qed
  from assms(2) show ?thesis
  proof cases
    case (destroy k)
    then show ?thesis
      using assms(1) remove_key_subset [of sid k "active st"]
      by (auto simp: destroy_inv destroy_active)
  next
    case (wipe_next k ks)
    then show ?thesis
      using assms(1) remove_key_subset [of sid k "active st"]
      by (auto simp: destroy_inv destroy_active)
  qed (use assms(1) create in auto)
qed

section \<open>A wipe among other clients\<close>

text \<open>Sessions with a number below \<open>n\<close> that a wiping client has still to destroy.\<close>

definition wipe_assertion :: "int \<Rightarrow> sess_state \<Rightarrow> sess_pc \<Rightarrow> bool" where
  "wipe_assertion n st l \<longleftrightarrow> n \<le> next_session_id st \<and>
     (case l of
        SWiping ks \<Rightarrow> length ks \<le> SESSION_MAX_ACTIVE \<and>
          (\<forall>s \<in> set (active st). sid s < n \<longrightarrow> sid s \<in> set ks)
      | SWiped \<Rightarrow> (\<forall>s \<in> set (active st). n \<le> sid s)
      | _ \<Rightarrow> True)"

fun client_rank :: "sess_pc \<Rightarrow> nat" where
  "client_rank (SCreate _ _ _ _) = 2"
| "client_rank (SCreated _ _) = 1"
| "client_rank (SDestroy _) = 1"
| "client_rank SWipe = SESSION_MAX_ACTIVE + 2"
| "client_rank (SWiping ks) = length ks + 1"
| "client_rank _ = 0"

lemma wipe_assertion_table:
  assumes "wipe_assertion n st l" "next_session_id st \<le> next_session_id st'"
    and "\<forall>s \<in> set (active st'). s \<in> set (active st) \<or> next_session_id st \<le> sid s"
  shows "wipe_assertion n st' l"
  using assms by (cases l) (fastforce simp: wipe_assertion_def)+

lemma wipe_assertion_own:
  assumes "sess_inv st" "wipe_assertion n st l" "client_step st l st' l'"
  shows "wipe_assertion n st' l'"
proof -
  note t = client_step_table [OF assms(1,3)]
  from assms(3) show ?thesis
  proof cases
    case wipe_copy
    then show ?thesis
      using assms(1,2) by (auto simp: wipe_assertion_def copied_ids_def active_def sess_inv_def)
  next
    case (wipe_next k ks)
    have "sid ` set (active st') = sid ` set (active st) - {k}"
      using assms(1) by (simp add: wipe_next destroy_active keys_remove_key sess_inv_def)
    then show ?thesis using assms(2) wipe_next t by (fastforce simp: wipe_assertion_def)
  qed (use assms(2) t in \<open>auto simp: wipe_assertion_def\<close>)
qed

lemma client_rank_less:
  assumes "sess_inv st" "client_step st l st' l'"
  shows "client_rank l' < client_rank l"
  using assms(2,1) by (cases rule: client_step.cases) (auto simp: sess_inv_def copied_ids_def)

interpretation wt: ranked_threads client_step sess_inv "wipe_assertion n" "\<lambda>_ _. True" client_rank for n
proof (unfold_locales, goal_cases)
  case (1 s l s' l')
  then show ?case using client_step_table wipe_assertion_own by blast
next
  case (2 s l k s' l')
  then show ?case using client_step_table wipe_assertion_table by blast
next
  case (4 s l s' l')
  then show ?case using client_rank_less by blast
qed simp

lemma wipe_start:
  assumes "sess_inv st" "\<forall>l \<in> set ls. client_start l"
  shows "threads_ok sess_inv (wipe_assertion (next_session_id st)) (\<lambda>_ _. True) (st, ls)"
proof -
  have "wipe_assertion (next_session_id st) st l" if "client_start l" for l
    using that by (cases l) (auto simp: wipe_assertion_def)
  then show ?thesis using assms by (auto simp: threads_ok_def)
qed

text \<open>
  C16: clients create, destroy and wipe sessions at the same time, in any interleaving. The
  table stays well formed with unique numbers, and once one client's \<open>session_destroy_all\<close>
  has finished, no session that existed when the clients began is left: every session in the
  table has a number that was given out since. The clients come to an end: there are at most
  18 steps for each of them, and until all are done some client can go on.
\<close>

theorem wipe_among_clients:
  assumes "sess_inv st" "\<forall>l \<in> set ls. client_start l"
    and "(interleave client_step ^^ n) (st, ls) (st', ls')"
  shows "sess_inv st' \<and> distinct (map sid (active st')) \<and> n \<le> 18 * length ls \<and>
    ((\<exists>c. interleave client_step (st', ls') c) \<or> (\<forall>l \<in> set ls'. client_done l)) \<and>
    (SWiped \<in> set ls' \<longrightarrow> (\<forall>s \<in> set (active st'). next_session_id st \<le> sid s))"
proof -
  note start = wipe_start [OF assms(1,2)]
  have ok: "threads_ok sess_inv (wipe_assertion (next_session_id st)) (\<lambda>_ _. True) (st', ls')"
    using wt.interleaves_ok [OF relpowp_imp_rtranclp [OF assms(3)] start] .
  have "client_rank l \<le> 18" if "client_start l" for l
    using that by (cases l) auto
  then have "sum_list (map client_rank ls) \<le> sum_list (map (\<lambda>_. 18) ls)"
    using assms(2) by (intro sum_list_mono) auto
  then have "n \<le> 18 * length ls"
    using wt.interleaves_rank [OF assms(3) start] by (simp add: sum_list_triv)
  moreover have "\<forall>s \<in> set (active st'). next_session_id st \<le> sid s" if "SWiped \<in> set ls'"
    using ok that by (auto simp: threads_ok_def in_set_conv_nth wipe_assertion_def split: sess_pc.splits)
  ultimately show ?thesis
    using ok clients_progress [of st' ls'] by (simp add: threads_ok_def sess_inv_def)
qed

section \<open>Clients that only create sessions\<close>

fun made :: "sess_pc \<Rightarrow> int set" where
  "made (SCreated _ i) = {i}"
| "made (SReturned _ i) = {i}"
| "made _ = {}"

definition create_assertion :: "int \<Rightarrow> sess_state \<Rightarrow> sess_pc \<Rightarrow> bool" where
  "create_assertion n st l \<longleftrightarrow> n \<le> next_session_id st \<and> made l \<subseteq> sid ` set (active st) \<and>
     (case l of
        SCreate _ _ _ _ \<Rightarrow> True
      | SCreated idx i \<Rightarrow> n \<le> i \<and> idx < length (active st) \<and> sid (active st ! idx) = i
      | SReturned r i \<Rightarrow> n \<le> i \<and> r = i
      | SFailed \<Rightarrow> True
      | _ \<Rightarrow> False)"

text \<open>Among creating clients the table only grows at its end.\<close>

lemma creator_table:
  assumes "sess_inv st" "create_assertion n st l" "client_step st l st' l'"
  shows "(active st' = active st \<and> made l' = made l) \<or>
    (\<exists>s. active st' = active st @ [s] \<and> sid s = next_session_id st \<and> made l = {} \<and>
         l' = SCreated (length (active st)) (sid s))"
proof -
  have len: "length (active st) = session_count st"
    using assms(1) by (simp add: active_def sess_inv_def)
  from assms(3) show ?thesis
  proof cases
    case (create_locked e name mem net i)
    from assms(1) create_locked(3) show ?thesis
      by (cases rule: create_cases) (auto simp: create_locked len)
  next
    case (create_failed e name mem net err)
    from assms(1) create_failed(3) show ?thesis
      by (cases rule: create_cases) (auto simp: create_failed)
  qed (use assms(2) in \<open>auto simp: create_assertion_def\<close>)
qed

lemma creator_own:
  assumes "sess_inv st" "create_assertion n st l" "client_step st l st' l'"
  shows "create_assertion n st' l'"
proof -
  note t = client_step_table [OF assms(1,3)]
  have nth: "sessions st ! idx = active st ! idx" if "idx < length (active st)" for idx
    using that by (simp add: active_def)
  from creator_table [OF assms] show ?thesis
  proof (elim disjE exE)
    assume "active st' = active st \<and> made l' = made l"
    with assms(3,2) t show ?thesis
      by (cases rule: client_step.cases) (auto simp: create_assertion_def nth returned_id_def)
  next
    fix s assume "active st' = active st @ [s] \<and> sid s = next_session_id st \<and> made l = {} \<and>
      l' = SCreated (length (active st)) (sid s)"
    with assms(2) t show ?thesis by (auto simp: create_assertion_def)
  qed
qed

lemma creator_others:
  assumes "sess_inv st" "create_assertion n st l" "create_assertion n st k"
    and "made l \<inter> made k = {}" "client_step st l st' l'"
  shows "create_assertion n st' k \<and> made l' \<inter> made k = {}"
proof -
  have nx: "n \<le> next_session_id st'"
    using client_step_table [OF assms(1,5)] assms(2) by (simp add: create_assertion_def)
  from creator_table [OF assms(1,2,5)] show ?thesis
  proof (elim disjE exE)
    assume "active st' = active st \<and> made l' = made l"
    with assms(3,4) nx show ?thesis
      by (cases k) (auto simp: create_assertion_def)
  next
    fix s assume s: "active st' = active st @ [s] \<and> sid s = next_session_id st \<and> made l = {} \<and>
      l' = SCreated (length (active st)) (sid s)"
    have "\<forall>x \<in> set (active st). sid x \<noteq> next_session_id st"
      using assms(1) by (auto simp: sess_inv_def)
    with s assms(3) nx show ?thesis
      by (cases k) (auto simp: create_assertion_def nth_append)
  qed
qed

lemma creator_live:
  assumes "sess_inv st" "create_assertion n st l" "client_step st l st' l'"
  shows "sid ` set (active st') \<inter> {n..} = (sid ` set (active st) \<inter> {n..} - made l) \<union> made l'"
proof -
  have "made l \<subseteq> sid ` set (active st) \<inter> {n..}"
    using assms(2) by (cases l) (auto simp: create_assertion_def)
  then show ?thesis
    using creator_table [OF assms] assms(2) by (auto simp: create_assertion_def)
qed

interpretation ct: owning_threads client_step sess_inv "create_assertion n" made
  "\<lambda>st. sid ` set (active st) \<inter> {n..}" for n
proof (unfold_locales, goal_cases)
  case (1 s l s' l')
  then show ?case using client_step_table creator_own by blast
next
  case (2 s l k s' l')
  then show ?case by (rule creator_others)
next
  case (3 l k)
  then show ?case by blast
next
  case (4 s l s' l')
  then show ?case by (rule creator_live)
qed

lemma creators_start:
  assumes "sess_inv st" "\<forall>l \<in> set ls. creator l"
  defines "n \<equiv> next_session_id st"
  shows "threads_ok sess_inv (create_assertion n) (\<lambda>l k. made l \<inter> made k = {}) (st, ls)"
    "sid ` set (active st) \<inter> {n..} = \<Union> (made ` set ls)"
proof -
  have l: "create_assertion n st l \<and> made l = {}" if "creator l" for l
    using that by (cases l) (auto simp: create_assertion_def n_def)
  then show "threads_ok sess_inv (create_assertion n) (\<lambda>l k. made l \<inter> made k = {}) (st, ls)"
    using assms(1,2) by (auto simp: threads_ok_def)
  have "\<Union> (made ` set ls) = {}" using l assms(2) by auto
  then show "sid ` set (active st) \<inter> {n..} = \<Union> (made ` set ls)"
    using assms(1) by (auto simp: sess_inv_def n_def)
qed

text \<open>
  C22: clients that create sessions at the same time are each told the number of their own
  session, which is in the table; no two are told the same number; and the new sessions of
  the table are exactly those of the clients.
\<close>

theorem creators_get_own_sessions:
  assumes "sess_inv st" "\<forall>l \<in> set ls. creator l"
    and "(interleave client_step)\<^sup>*\<^sup>* (st, ls) (st', ls')"
  shows "(\<forall>r i. SReturned r i \<in> set ls' \<longrightarrow> r = i \<and> r \<in> sid ` set (active st')) \<and>
    (\<forall>j < length ls'. \<forall>k < length ls'. j \<noteq> k \<longrightarrow> made (ls' ! j) \<inter> made (ls' ! k) = {}) \<and>
    {i \<in> sid ` set (active st'). next_session_id st \<le> i} = \<Union> (made ` set ls')"
proof -
  let ?n = "next_session_id st"
  note start = creators_start [OF assms(1,2)]
  have ok: "threads_ok sess_inv (create_assertion ?n) (\<lambda>l k. made l \<inter> made k = {}) (st', ls')"
    using ct.interleaves_ok [OF assms(3) start(1)] .
  have "sid ` set (active st') \<inter> {?n..} = \<Union> (made ` set ls')"
    using ct.interleaves_live [OF assms(3) start(1)] start(2) by simp
  then have "{i \<in> sid ` set (active st'). ?n \<le> i} = \<Union> (made ` set ls')" by auto
  moreover have "r = i \<and> r \<in> sid ` set (active st')" if "SReturned r i \<in> set ls'" for r i
    using ok that by (fastforce simp: threads_ok_def in_set_conv_nth create_assertion_def)
  ultimately show ?thesis using ok by (simp add: threads_ok_def)
qed

section \<open>A client that is told the number of another session\<close>

lemma create_locked_step:
  assumes "sess_inv st" "session_initialized st" "session_count st < SESSION_MAX_ACTIVE"
    and "next_session_id st < 2 ^ 31 - 1" "ce_stack_ok e" "0 \<le> ce_clone e"
  obtains st' where "client_step st (SCreate e name mem net) st'
      (SCreated (session_count st) (next_session_id st))"
    "sess_inv st'" "session_initialized st'" "session_count st' = Suc (session_count st)"
    "next_session_id st' = next_session_id st + 1"
    "sid (sessions st' ! session_count st) = next_session_id st"
    "set (active st) \<subseteq> set (active st')"
proof -
  let ?st = "snd (session_create e name mem net st)"
  have r: "session_create e name mem net st = (Inr (next_session_id st), ?st)"
    using create_succeeds [OF assms(2-6), of name mem net] by (simp add: prod_eq_iff)
  have init: "session_initialized ?st" using assms(2) by (simp add: create_initialized)
  from assms(1) r show thesis
  proof (cases rule: create_cases)
    case failed
    then show thesis by simp
  next
    case (created s)
    have "sessions ?st ! session_count st = active ?st ! session_count st"
      by (simp only: created(6) active_def nth_take lessI)
    also have "\<dots> = s"
      using assms(1) by (simp only: created(2)) (simp add: active_def sess_inv_def nth_append)
    finally have "sid (sessions ?st ! session_count st) = next_session_id st"
      using created(3) by simp
    then show thesis
      using created create_inv [OF assms(1)] init create_locked [OF r] by (intro that) auto
  qed
qed

text \<open>
  C35: the number that \<open>session_create\<close> returns is read without the lock. Whatever the table,
  if it has room and a session \<open>k\<close> (and the numbers have not run out): a client creates a session, another one destroys \<open>k\<close>
  and a third one creates a session before the first has read its slot; then the first and
  the third client are both told the number of the session of the third.
\<close>

theorem session_create_wrong_id:
  assumes "sess_inv st" "session_initialized st" "session_count st < SESSION_MAX_ACTIVE"
    and "next_session_id st + 1 < 2 ^ 31 - 1" "ce_stack_ok e" "0 \<le> ce_clone e" "k \<in> sid ` set (active st)"
  defines "n \<equiv> next_session_id st"
  shows "\<exists>st'. (interleave client_step)\<^sup>*\<^sup>*
     (st, [SCreate e a1 a2 a3, SDestroy k, SCreate e b1 b2 b3])
     (st', [SReturned (n + 1) n, SDestroyed, SReturned (n + 1) (n + 1)])"
proof -
  let ?c = "session_count st"
  have room: "next_session_id st < 2 ^ 31 - 1" using assms(4) by simp
  from create_locked_step [OF assms(1-3) room assms(5,6), of a1 a2 a3] obtain s1 where s1:
    "client_step st (SCreate e a1 a2 a3) s1 (SCreated ?c n)"
    "sess_inv s1" "session_initialized s1" "session_count s1 = Suc ?c" "next_session_id s1 = n + 1"
    "set (active st) \<subseteq> set (active s1)"
    unfolding n_def by metis
  define s2 where "s2 = snd (session_destroy k s1)"
  have s2: "client_step s1 (SDestroy k) s2 SDestroyed" "sess_inv s2" "next_session_id s2 = n + 1"
    using s1 destroy destroy_inv by (simp_all add: s2_def)
  have "k \<in> sid ` set (active s1)" using assms(7) s1(6) by blast
  then have "find_session k s1 \<noteq> None" using s1(2) by (simp add: find_session_eq find_key_None)
  then have c2: "session_count s2 = ?c" "session_initialized s2"
    using s1(3,4) by (auto simp: s2_def session_destroy_def Let_def log_sys_def)
  have room2: "session_count s2 < SESSION_MAX_ACTIVE" "next_session_id s2 < 2 ^ 31 - 1"
    using assms(3,4) c2(1) s2(3) by (simp_all add: n_def)
  from create_locked_step [OF s2(2) c2(2) room2 assms(5,6), of b1 b2 b3] obtain s3 where s3:
    "client_step s2 (SCreate e b1 b2 b3) s3 (SCreated ?c (n + 1))" "sid (sessions s3 ! ?c) = n + 1"
    unfolding c2(1) s2(3) by metis
  have ret: "client_step s3 (SCreated ?c i) s3 (SReturned (n + 1) i)" for i
    using create_return [of s3 ?c i] s3(2) by (simp add: returned_id_def)
  let ?R = "(interleave client_step)\<^sup>*\<^sup>*"
  let ?from = "(st, [SCreate e a1 a2 a3, SDestroy k, SCreate e b1 b2 b3])"
  have "?R ?from ?from" by simp
  from interleaves_step [OF this, of 0 s1 "SCreated ?c n"]
  have "?R ?from (s1, [SCreated ?c n, SDestroy k, SCreate e b1 b2 b3])" using s1(1) by simp
  from interleaves_step [OF this, of 1 s2 SDestroyed]
  have "?R ?from (s2, [SCreated ?c n, SDestroyed, SCreate e b1 b2 b3])" using s2(1) by simp
  from interleaves_step [OF this, of 2 s3 "SCreated ?c (n + 1)"]
  have "?R ?from (s3, [SCreated ?c n, SDestroyed, SCreated ?c (n + 1)])" using s3(1) by simp
  from interleaves_step [OF this, of 0 s3 "SReturned (n + 1) n"]
  have "?R ?from (s3, [SReturned (n + 1) n, SDestroyed, SCreated ?c (n + 1)])" using ret by simp
  from interleaves_step [OF this, of 2 s3 "SReturned (n + 1) (n + 1)"]
  show ?thesis using ret by auto
qed

text \<open>The table with one session, number 1, is such a table.\<close>

lemma one_session_facts:
  "sess_inv one_session" "session_initialized one_session" "session_count one_session = 1"
  "sid ` set (active one_session) = {1}" "next_session_id one_session = 2"
proof -
  obtain s where s: "fst (session_list one_session) = [s]" "sid s = 1"
    "session_count one_session = 1" "session_initialized one_session"
    by (rule one_session_active)
  then show "session_initialized one_session" "session_count one_session = 1"
    "sid ` set (active one_session) = {1}"
    by (simp_all add: active_def session_list_def)
  show "sess_inv one_session" by (rule reachable_sess_inv [OF one_session_reachable])
  show "next_session_id one_session = 2" by (rule one_session_next)
qed

theorem session_create_wrong_id_witness:
  "\<exists>st'. (interleave client_step)\<^sup>*\<^sup>*
     (one_session, [SCreate create_ok None 0 False, SDestroy 1, SCreate create_ok None 0 True])
     (st', [SReturned 3 2, SDestroyed, SReturned 3 3])"
  using session_create_wrong_id [OF one_session_facts(1,2), of create_ok 1 None 0 False None 0 True]
  by (simp add: one_session_facts create_ok_def)

theorem wipe_among_clients_witness:
  "\<exists>n st' ls'. (interleave client_step ^^ n) (one_session, [SWipe, SDestroy 7]) (st', ls') \<and>
     SWiped \<in> set ls' \<and> n \<le> 36 \<and> (\<forall>s \<in> set (active st'). 2 \<le> sid s)"
proof -
  from solo_interleaves [OF solo_wipe, of 0 "[SWipe, SDestroy 7]" one_session]
  obtain n where run: "(interleave client_step ^^ n) (one_session, [SWipe, SDestroy 7])
      (session_destroy_all one_session, [SWiped, SDestroy 7])"
    by (auto dest: rtranclp_imp_relpowp)
  have "\<forall>l \<in> set [SWipe, SDestroy 7]. client_start l" by simp
  from wipe_among_clients [OF one_session_facts(1) this run] run show ?thesis
    by (intro exI [of _ n] exI [of _ "session_destroy_all one_session"]
        exI [of _ "[SWiped, SDestroy 7]"]) (simp add: one_session_facts)
qed

theorem creators_get_own_sessions_witness:
  "\<exists>st'. (interleave client_step)\<^sup>*\<^sup>* (one_session, [SCreate create_ok None 0 False])
       (st', [SReturned 2 2]) \<and> 2 \<in> sid ` set (active st')"
proof -
  let ?l = "SCreate create_ok None 0 False"
  obtain st' where st': "client_step one_session ?l st' (SCreated 1 2)" "sid (sessions st' ! 1) = 2"
    using create_locked_step [OF one_session_facts(1,2), of create_ok None 0 False]
    by (auto simp: one_session_facts create_ok_def)
  have "(interleave client_step)\<^sup>*\<^sup>* (one_session, [?l]) (one_session, [?l])" by simp
  from interleaves_step [OF this, of 0 st' "SCreated 1 2"]
  have "(interleave client_step)\<^sup>*\<^sup>* (one_session, [?l]) (st', [SCreated 1 2])" using st' by simp
  from interleaves_step [OF this, of 0 st' "SReturned 2 2"]
  have run: "(interleave client_step)\<^sup>*\<^sup>* (one_session, [?l]) (st', [SReturned 2 2])"
    using create_return [of st' 1 2] st'(2) by (simp add: returned_id_def)
  have "\<forall>l \<in> set [?l]. creator l" by simp
  from creators_get_own_sessions [OF one_session_facts(1) this run] run show ?thesis by auto
qed

end
