(* ===== verification/Container_Threads.thy ===== *)
theory Container_Threads
  imports Threads Hidden_Container
begin

text \<open>
  The client threads of the daemon and the containers. In
  \<open>crypticengine/src/hidden_container.c\<close> only \<open>container_open\<close>, \<open>container_close\<close> and the copying
  of the names in \<open>container_close_all\<close> hold \<open>container_mutex\<close>: each is one step.
  \<open>container_create\<close> and the part of \<open>container_destroy\<close> that works on the files hold no
  lock: every test, every program they run and every \<open>unlink\<close> is a step of its own.

  The theorems: a client that is left alone does what the sequential operations do; a
  container that was created opens with its password and with no other; two clients that
  create the same container are both told that they succeeded, and the password of one of
  them does not open it; a wipe that has finished leaves no container open, whatever the
  other clients do, as long as none opens one; and the clients come to an end.
\<close>

section \<open>The steps of a client\<close>

datatype cont_pc =
    CrStart string nat string
  | CrChecked string nat string string
  | CrFilled string string string
  | CrFormatted string string string
  | CrOpened string string
  | CrMade string string
  | CrShut string string
  | OpStart string string
  | ClStart string
  | DsStart string
  | DsClosed string
  | DsStat string string "nat option"
  | Unlinking "path list" "unit res"
  | WpStart
  | WpNames "string list"
  | CWiped
  | CDone "unit res"

text \<open>
  \<open>CrChecked\<close>: no vault of this name was found. \<open>CrFilled\<close>, \<open>CrFormatted\<close>, \<open>CrOpened\<close>,
  \<open>CrMade\<close>, \<open>CrShut\<close>: after \<open>dd\<close>, \<open>luksFormat\<close>, \<open>open\<close>, \<open>mkfs\<close>, \<open>close\<close>. \<open>DsStat\<close>: the size
  that \<open>stat\<close> reported. \<open>Unlinking ps r\<close>: the files \<open>ps\<close> are still to be removed, then the
  client is told \<open>r\<close>.
\<close>

definition dd_argv :: "path \<Rightarrow> nat \<Rightarrow> string list" where
  "dd_argv vault sz =
     [''dd'', ''if=/dev/urandom'', ''of='' @ vault, ''bs=1M'',
      snprintf_buf 32 (''count='' @ fmt_nat sz), ''status=progress'']"

definition shred_argv :: "path \<Rightarrow> nat \<Rightarrow> string list" where
  "shred_argv vault bytes =
     [''dd'', ''if=/dev/urandom'', ''of='' @ vault, ''bs=1M'',
      snprintf_buf 32 (''count='' @ fmt_nat (bytes div (1024 * 1024) + 1)),
      ''conv=notrunc'', ''status=none'']"

definition create_check :: "co_env \<Rightarrow> string \<Rightarrow> nat \<Rightarrow> string \<Rightarrow> fs \<times> cont_state \<Rightarrow> (fs \<times> cont_state) \<times> cont_pc" where
  "create_check e name sz pw w =
     (if sz = 0 \<or> length name \<ge> CONTAINER_NAME_MAX then (w, CDone (Inl EInval))
      else case get_container_base e (snd w) of (base, st0) \<Rightarrow>
        ((fst w, st0),
         if fst w (vault_of base name) \<noteq> None then CDone (Inl EExists) else CrChecked name sz pw base))"

definition create_fill :: "co_env \<Rightarrow> string \<Rightarrow> nat \<Rightarrow> string \<Rightarrow> string \<Rightarrow> fs \<times> cont_state \<Rightarrow> (fs \<times> cont_state) \<times> cont_pc" where
  "create_fill e name sz pw base w =
     (case run_command e (dd_argv (vault_of base name) sz) [] w of (x, w') \<Rightarrow>
        (w', if x \<noteq> 0 then CDone (Inl ESys)
             else if \<not> co_pipe1_ok e \<or> \<not> co_fork1_ok e then Unlinking [vault_of base name] (Inl ESys)
             else CrFilled name pw base))"

definition create_format :: "co_env \<Rightarrow> string \<Rightarrow> string \<Rightarrow> string \<Rightarrow> fs \<times> cont_state \<Rightarrow> (fs \<times> cont_state) \<times> cont_pc" where
  "create_format e name pw base w =
     (case run_command e (luks_format_argv (header_of base name) (vault_of base name)) pw w of (x, w') \<Rightarrow>
        (w', if x \<noteq> 0 \<or> \<not> co_pipe2_ok e
             then Unlinking [vault_of base name, header_of base name] (Inl ESys)
             else if \<not> co_fork2_ok e then CDone (Inl EUndefined)
             else CrFormatted name pw base))"

definition create_open :: "co_env \<Rightarrow> string \<Rightarrow> string \<Rightarrow> string \<Rightarrow> fs \<times> cont_state \<Rightarrow> (fs \<times> cont_state) \<times> cont_pc" where
  "create_open e name pw base w =
     (case run_command e (luks_open_argv (header_of base name) (vault_of base name) (mapper_of name)) pw w of
        (x, w') \<Rightarrow>
          (w', if x \<noteq> 0 then Unlinking [vault_of base name, header_of base name] (Inl ESys)
               else CrOpened name base))"

definition destroy_stat :: "co_env \<Rightarrow> string \<Rightarrow> fs \<times> cont_state \<Rightarrow> (fs \<times> cont_state) \<times> cont_pc" where
  "destroy_stat e name w =
     (case get_container_base e (snd w) of (base, st1) \<Rightarrow>
        ((fst w, st1), DsStat name base (map_option length (fst w (vault_of base name)))))"

definition destroy_shred :: "co_env \<Rightarrow> string \<Rightarrow> string \<Rightarrow> nat option \<Rightarrow> fs \<times> cont_state \<Rightarrow> (fs \<times> cont_state) \<times> cont_pc" where
  "destroy_shred e name base bytes w =
     (case bytes of None \<Rightarrow> w | Some n \<Rightarrow> snd (run_command e (shred_argv (vault_of base name) n) [] w),
      Unlinking [vault_of base name, header_of base name] (Inr ()))"

text \<open>The names \<open>container_close_all\<close> copies while it holds the lock.\<close>

definition copied_names :: "cont_state \<Rightarrow> string list" where
  "copied_names st = map cname (take (container_count st) (containers st))"

fun cont_do :: "co_env \<Rightarrow> cont_pc \<Rightarrow> fs \<times> cont_state \<Rightarrow> (fs \<times> cont_state) \<times> cont_pc" where
  "cont_do e (CrStart name sz pw) w = create_check e name sz pw w"
| "cont_do e (CrChecked name sz pw base) w = create_fill e name sz pw base w"
| "cont_do e (CrFilled name pw base) w = create_format e name pw base w"
| "cont_do e (CrFormatted name pw base) w = create_open e name pw base w"
| "cont_do e (CrOpened name base) w =
     (snd (run_command e [''mkfs.ext4'', ''-q'', dev_of (mapper_of name)] [] w), CrMade name base)"
| "cont_do e (CrMade name base) w =
     (snd (run_command e (luks_close_argv (mapper_of name)) [] w), CrShut name base)"
| "cont_do e (CrShut name base) w =
     ((fst w, clog_add [CChmod (header_of base name), CChmod (vault_of base name)] (snd w)), CDone (Inr ()))"
| "cont_do e (OpStart name pw) w =
     (case container_open e (Some name) (Some pw) w of (r, w') \<Rightarrow> (w', CDone r))"
| "cont_do e (ClStart name) w =
     (case container_close e (Some name) w of (r, w') \<Rightarrow> (w', CDone r))"
| "cont_do e (DsStart name) w = (snd (container_close e (Some name) w), DsClosed name)"
| "cont_do e (DsClosed name) w = destroy_stat e name w"
| "cont_do e (DsStat name base bytes) w = destroy_shred e name base bytes w"
| "cont_do e (Unlinking (p # ps) r) w = (unlinked [p] w, Unlinking ps r)"
| "cont_do e (Unlinking [] r) w = (w, CDone r)"
| "cont_do e WpStart w = (w, WpNames (copied_names (snd w)))"
| "cont_do e (WpNames (k # ks)) w = (snd (container_close e (Some k) w), WpNames ks)"
| "cont_do e (WpNames []) w = (w, CWiped)"
| "cont_do e CWiped w = (w, CWiped)"
| "cont_do e (CDone r) w = (w, CDone r)"

fun cont_done :: "cont_pc \<Rightarrow> bool" where
  "cont_done CWiped = True"
| "cont_done (CDone _) = True"
| "cont_done _ = False"

text \<open>
  The requests of a client. The daemon has commands for all but \<open>container_destroy\<close>, which is
  part of the interface of the library.
\<close>

fun cont_begin :: "cont_pc \<Rightarrow> bool" where
  "cont_begin (CrStart _ _ _) = True"
| "cont_begin (OpStart _ _) = True"
| "cont_begin (ClStart _) = True"
| "cont_begin (DsStart _) = True"
| "cont_begin WpStart = True"
| "cont_begin _ = False"

text \<open>
  A step of the thread that \<open>main\<close> starts for a client (\<open>pthread_create\<close> in \<open>crypticd.c\<close>), until its
  request is answered.
\<close>

definition cont_client :: "co_env \<Rightarrow> fs \<times> cont_state \<Rightarrow> cont_pc \<Rightarrow> fs \<times> cont_state \<Rightarrow> cont_pc \<Rightarrow> bool" where
  "cont_client e w l w' l' \<longleftrightarrow> \<not> cont_done l \<and> cont_do e l w = (w', l')"

section \<open>A client that is left alone\<close>

abbreviation alone :: "co_env \<Rightarrow> (fs \<times> cont_state) \<times> cont_pc \<Rightarrow> (fs \<times> cont_state) \<times> cont_pc \<Rightarrow> bool" where
  "alone e \<equiv> (solo (cont_client e))\<^sup>*\<^sup>*"

lemma alone_step: "\<not> cont_done l \<Longrightarrow> alone e (cont_do e l w) c \<Longrightarrow> alone e (w, l) c"
  by (rule converse_rtranclp_into_rtranclp [of "solo (cont_client e)" _ "cont_do e l w"])
    (simp_all add: solo_def cont_client_def)

lemma alone_to:
  "cont_do e l w = c1 \<Longrightarrow> \<not> cont_done l \<Longrightarrow> alone e c1 c \<Longrightarrow> alone e (w, l) c"
  using alone_step by simp

lemma unlinked_Cons: "unlinked ps (unlinked [p] w) = unlinked (p # ps) w"
  by (simp add: unlinked_def clog_add_def)

lemma unlinked_Nil: "unlinked [] w = w"
  by (simp add: unlinked_def clog_add_def)

lemma alone_unlinking: "alone e (w, Unlinking ps r) (unlinked ps w, CDone r)"
proof (induction ps arbitrary: w)
  case Nil
  show ?case by (rule alone_step) (simp_all add: unlinked_Nil)
next
  case (Cons p ps)
  show ?case by (rule alone_step) (use Cons [of "unlinked [p] w"] in \<open>simp_all add: unlinked_Cons\<close>)
qed

lemma alone_wiping:
  "alone e (w, WpNames ks) (fold (\<lambda>name w. snd (container_close e (Some name) w)) ks w, CWiped)"
proof (induction ks arbitrary: w)
  case Nil
  show ?case by (rule alone_step) simp_all
next
  case (Cons k ks)
  show ?case by (rule alone_step) (use Cons in simp_all)
qed

lemma alone_wipe: "alone e (w, WpStart) (container_close_all e w, CWiped)"
  unfolding container_close_all_def copied_names_def [symmetric]
  by (rule alone_step) (simp_all add: alone_wiping)

lemma alone_create:
  assumes "container_create e (Some name) sz (Some pw) w = (r, w')"
  shows "alone e (w, CrStart name sz pw) (w', CDone r)"
proof -
  obtain base st0 where b: "get_container_base e (snd w) = (base, st0)" by (rule prod.exhaust)
  let ?v = "vault_of base name" and ?h = "header_of base name" and ?m = "mapper_of name"
  obtain x1 w1 where r1: "run_command e (dd_argv ?v sz) [] (fst w, st0) = (x1, w1)" by (rule prod.exhaust)
  obtain x2 w2 where r2: "run_command e (luks_format_argv ?h ?v) pw w1 = (x2, w2)" by (rule prod.exhaust)
  obtain x3 w3 where r3: "run_command e (luks_open_argv ?h ?v ?m) pw w2 = (x3, w3)" by (rule prod.exhaust)
  obtain x4 w4 where r4: "run_command e [''mkfs.ext4'', ''-q'', dev_of ?m] [] w3 = (x4, w4)" by (rule prod.exhaust)
  obtain x5 w5 where r5: "run_command e (luks_close_argv ?m) [] w4 = (x5, w5)" by (rule prod.exhaust)
  note runs = b r1 [unfolded dd_argv_def] r2 r3 r4 r5
  note res = assms [unfolded container_create_def Let_def option.case prod.case runs]
  let ?fin = "(fst w5, clog_add [CChmod ?h, CChmod ?v] (snd w5))"
  note undo = alone_unlinking [of e _ "[?v, ?h]" "Inl ESys"] alone_unlinking [of e _ "[?v]" "Inl ESys"]
  have s4: "alone e (w3, CrOpened name base) (?fin, CDone (Inr ()))"
    by (rule alone_step, simp, simp add: r4, rule alone_step, simp, simp add: r5, rule alone_step, simp_all)
  have s3: "alone e (w2, CrFormatted name pw base)
      (if x3 \<noteq> 0 then (unlinked [?v, ?h] w3, CDone (Inl ESys)) else (?fin, CDone (Inr ())))"
    by (rule alone_step) (use undo s4 in \<open>simp_all add: create_open_def r3\<close>)
  have s2: "alone e (w1, CrFilled name pw base)
      (if x2 \<noteq> 0 \<or> \<not> co_pipe2_ok e then (unlinked [?v, ?h] w2, CDone (Inl ESys))
       else if \<not> co_fork2_ok e then (w2, CDone (Inl EUndefined))
       else if x3 \<noteq> 0 then (unlinked [?v, ?h] w3, CDone (Inl ESys)) else (?fin, CDone (Inr ())))"
    by (rule alone_step) (use undo s3 in \<open>simp_all add: create_format_def r2\<close>)
  have s1: "alone e ((fst w, st0), CrChecked name sz pw base)
      (if x1 \<noteq> 0 then (w1, CDone (Inl ESys))
       else if \<not> co_pipe1_ok e \<or> \<not> co_fork1_ok e then (unlinked [?v] w1, CDone (Inl ESys))
       else if x2 \<noteq> 0 \<or> \<not> co_pipe2_ok e then (unlinked [?v, ?h] w2, CDone (Inl ESys))
       else if \<not> co_fork2_ok e then (w2, CDone (Inl EUndefined))
       else if x3 \<noteq> 0 then (unlinked [?v, ?h] w3, CDone (Inl ESys)) else (?fin, CDone (Inr ())))"
    by (rule alone_step) (use undo s2 in \<open>simp_all add: create_fill_def r1\<close>)
  show ?thesis
    by (rule alone_step) (use s1 res in \<open>auto simp: create_check_def b split: if_splits\<close>)
qed

lemma alone_destroy:
  "alone e (w, DsStart name)
     (snd (container_destroy e (Some name) (Some pw) w), CDone (fst (container_destroy e (Some name) (Some pw) w)))"
proof -
  obtain base st1 where b: "get_container_base e (snd (snd (container_close e (Some name) w))) = (base, st1)"
    by (rule prod.exhaust)
  let ?w1 = "(fst (snd (container_close e (Some name) w)), st1)"
  have "alone e (?w1, DsStat name base (map_option length (fst ?w1 (vault_of base name))))
     (snd (container_destroy e (Some name) (Some pw) w), CDone (fst (container_destroy e (Some name) (Some pw) w)))"
    by (rule alone_step)
      (simp_all add: destroy_shred_def container_destroy_def Let_def b alone_unlinking shred_argv_def split: option.splits)
  then have "alone e (snd (container_close e (Some name) w), DsClosed name)
     (snd (container_destroy e (Some name) (Some pw) w), CDone (fst (container_destroy e (Some name) (Some pw) w)))"
    by (intro alone_step) (simp_all add: destroy_stat_def b)
  then show ?thesis by (intro alone_step) simp_all
qed

text \<open>Only one end can be reached alone.\<close>

lemma alone_unique:
  assumes "alone e c (w1, l1)" "alone e c (w2, l2)" "cont_done l1" "cont_done l2"
  shows "w1 = w2 \<and> l1 = l2"
  using assms
proof (induction rule: converse_rtranclp_induct)
  case base
  from base(1) show ?case
    by (cases rule: converse_rtranclpE) (use base in \<open>auto simp: solo_def cont_client_def\<close>)
next
  case (step c c1)
  from step(4) show ?case
  proof (cases rule: converse_rtranclpE)
    case base
    then show ?thesis using step by (auto simp: solo_def cont_client_def)
  next
    case (step c2)
    then have "c2 = c1"
      using \<open>solo (cont_client e) c c1\<close> by (auto simp: solo_def cont_client_def intro: prod_eqI)
    then show ?thesis using step \<open>alone e c1 (w1, l1)\<close> local.step.IH assms by blast
  qed
qed

text \<open>
  A client that no other client disturbs, taking the steps of the code one by one, ends
  exactly where the operation it calls ends, with the answer it gives.
\<close>

theorem container_ops_alone:
  "(alone e (w, CrStart name sz pw) (w', CDone r) \<longleftrightarrow> container_create e (Some name) sz (Some pw) w = (r, w')) \<and>
   (alone e (w, DsStart name) (w', CDone r) \<longleftrightarrow> container_destroy e (Some name) (Some pw) w = (r, w')) \<and>
   (alone e (w, WpStart) (w', CWiped) \<longleftrightarrow> container_close_all e w = w')"
proof (intro conjI)
  have exact: "alone e c (w', l) \<longleftrightarrow> (w', l) = d" if "alone e c d" "cont_done l" "cont_done (snd d)" for c d l
    using alone_unique [of e c w' l "fst d" "snd d"] that by (metis prod.collapse)
  show "alone e (w, CrStart name sz pw) (w', CDone r) \<longleftrightarrow> container_create e (Some name) sz (Some pw) w = (r, w')"
    by (subst exact [OF alone_create [OF prod.collapse [symmetric]]]) (auto intro: prod_eqI)
  show "alone e (w, DsStart name) (w', CDone r) \<longleftrightarrow> container_destroy e (Some name) (Some pw) w = (r, w')"
    by (subst exact [OF alone_destroy [of e w name pw]]) (auto intro: prod_eqI)
  show "alone e (w, WpStart) (w', CWiped) \<longleftrightarrow> container_close_all e w = w'"
    by (subst exact [OF alone_wipe]) auto
qed

section \<open>Passwords\<close>

text \<open>
  What the code relies on of the programs, for one container: \<open>dd\<close> writes the vault;
  \<open>luksFormat\<close> writes a header that the given key opens and no other; \<open>open\<close> exits with 0 and
  makes the device exactly when the header opens with the key it reads and the device is not
  there yet; \<open>mkfs\<close> works on the device that is there, \<open>close\<close> removes it.
\<close>

definition luks_works :: "co_env \<Rightarrow> (bytes \<Rightarrow> string \<Rightarrow> bool) \<Rightarrow> path \<Rightarrow> path \<Rightarrow> string \<Rightarrow> bool" where
  "luks_works e opens vault header mapper \<longleftrightarrow>
     (\<forall>sz files. \<exists>c. co_exec e (dd_argv vault sz) [] files = (Some 0, files(vault \<mapsto> c))) \<and>
     (\<forall>pw files. files vault \<noteq> None \<longrightarrow> pw \<noteq> [] \<longrightarrow>
        (\<exists>hdr. co_exec e (luks_format_argv header vault) pw files = (Some 0, files(header \<mapsto> hdr)) \<and>
          (\<forall>q. opens hdr q \<longleftrightarrow> q = pw))) \<and>
     (\<forall>pw files hdr. files vault \<noteq> None \<longrightarrow> files header = Some hdr \<longrightarrow>
        co_exec e (luks_open_argv header vault mapper) pw files =
          (if files (dev_of mapper) \<noteq> None then (Some 5, files)
           else if opens hdr pw then (Some 0, files(dev_of mapper \<mapsto> [])) else (Some 2, files))) \<and>
     (\<forall>files. files (dev_of mapper) \<noteq> None \<longrightarrow>
        co_exec e [''mkfs.ext4'', ''-q'', dev_of mapper] [] files = (Some 0, files) \<and>
        co_exec e (luks_close_argv mapper) [] files = (Some 0, files(dev_of mapper := None)))"

lemma luks_worksD:
  assumes "luks_works e opens vault header mapper"
  shows "\<exists>c. co_exec e (dd_argv vault sz) [] files = (Some 0, files(vault \<mapsto> c))"
    "files vault \<noteq> None \<Longrightarrow> pw \<noteq> [] \<Longrightarrow>
      \<exists>hdr. co_exec e (luks_format_argv header vault) pw files = (Some 0, files(header \<mapsto> hdr)) \<and>
        (\<forall>q. opens hdr q \<longleftrightarrow> q = pw)"
    "files vault \<noteq> None \<Longrightarrow> files header = Some hdr \<Longrightarrow>
      co_exec e (luks_open_argv header vault mapper) q files =
        (if files (dev_of mapper) \<noteq> None then (Some 5, files)
         else if opens hdr q then (Some 0, files(dev_of mapper \<mapsto> [])) else (Some 2, files))"
    "files (dev_of mapper) \<noteq> None \<Longrightarrow>
      co_exec e [''mkfs.ext4'', ''-q'', dev_of mapper] [] files = (Some 0, files)"
    "files (dev_of mapper) \<noteq> None \<Longrightarrow>
      co_exec e (luks_close_argv mapper) [] files = (Some 0, files(dev_of mapper := None))"
  using assms unfolding luks_works_def by simp_all

text \<open>
  The situation of a client that has found no vault: its environment works, the paths of the
  container are different, and no device of this name is open.
\<close>

definition luks_ready :: "co_env \<Rightarrow> (bytes \<Rightarrow> string \<Rightarrow> bool) \<Rightarrow> string \<Rightarrow> string \<Rightarrow> bool" where
  "luks_ready e opens base name \<longleftrightarrow>
     luks_works e opens (vault_of base name) (header_of base name) (mapper_of name) \<and>
     distinct [vault_of base name, header_of base name, dev_of (mapper_of name)] \<and>
     co_pipe1_ok e \<and> co_fork1_ok e \<and> co_pipe2_ok e \<and> co_fork2_ok e \<and> base \<noteq> []"

text \<open>The container as it was made: a vault, and a header that one password opens.\<close>

definition made_with :: "(bytes \<Rightarrow> string \<Rightarrow> bool) \<Rightarrow> string \<Rightarrow> string \<Rightarrow> string \<Rightarrow> fs \<Rightarrow> bool" where
  "made_with opens base name pw files \<longleftrightarrow>
     files (vault_of base name) \<noteq> None \<and> files (dev_of (mapper_of name)) = None \<and>
     (\<exists>hdr. files (header_of base name) = Some hdr \<and> (\<forall>q. opens hdr q \<longleftrightarrow> q = pw))"

lemma create_rest:
  assumes ready: "luks_ready e opens base name" and "pw \<noteq> []"
    and dev: "files (dev_of (mapper_of name)) = None"
  shows "\<exists>files' log. alone e ((files, st), CrChecked name sz pw base)
      ((files', st\<lparr>clog := log\<rparr>), CDone (Inr ())) \<and> made_with opens base name pw files'"
proof -
  let ?v = "vault_of base name" and ?h = "header_of base name" and ?m = "mapper_of name"
  let ?d = "dev_of ?m"
  have works: "luks_works e opens ?v ?h ?m" and paths: "?v \<noteq> ?h" "?v \<noteq> ?d" "?h \<noteq> ?d"
    and env: "co_pipe1_ok e" "co_fork1_ok e" "co_pipe2_ok e" "co_fork2_ok e"
    using ready by (auto simp: luks_ready_def)
  obtain c where c: "co_exec e (dd_argv ?v sz) [] files = (Some 0, files(?v \<mapsto> c))"
    using luks_worksD(1) [OF works] by blast
  let ?f1 = "files(?v \<mapsto> c)"
  obtain hdr where hdr: "co_exec e (luks_format_argv ?h ?v) pw ?f1 = (Some 0, ?f1(?h \<mapsto> hdr))"
    "\<forall>q. opens hdr q \<longleftrightarrow> q = pw"
    using luks_worksD(2) [OF works _ assms(2), of ?f1] by auto
  let ?f2 = "?f1(?h \<mapsto> hdr)" and ?f3 = "?f1(?h \<mapsto> hdr, ?d \<mapsto> [])"
  have "?f2 ?v \<noteq> None" "?f2 ?h = Some hdr" "?f2 ?d = None"
    using paths dev by auto
  then have op: "co_exec e (luks_open_argv ?h ?v ?m) pw ?f2 = (Some 0, ?f3)"
    using luks_worksD(3) [OF works] hdr(2) by simp
  have fin: "co_exec e [''mkfs.ext4'', ''-q'', ?d] [] ?f3 = (Some 0, ?f3)"
    "co_exec e (luks_close_argv ?m) [] ?f3 = (Some 0, ?f2(?d := None))"
    using luks_worksD(4,5) [OF works, of ?f3] by simp_all
  have run: "run_command e argv inp (f, st\<lparr>clog := l\<rparr>) = (0, f', st\<lparr>clog := l @ [CRun argv inp]\<rparr>)"
    if "co_exec e argv inp f = (Some 0, f')" for argv inp f f' l
    using that by (simp add: run_command_def clog_add_def)
  let ?l1 = "clog st @ [CRun (dd_argv ?v sz) []]"
  let ?l2 = "?l1 @ [CRun (luks_format_argv ?h ?v) pw]"
  let ?l3 = "?l2 @ [CRun (luks_open_argv ?h ?v ?m) pw]"
  let ?l4 = "?l3 @ [CRun [''mkfs.ext4'', ''-q'', ?d] []]"
  let ?l5 = "?l4 @ [CRun (luks_close_argv ?m) []]"
  have s: "cont_do e (CrChecked name sz pw base) (files, st\<lparr>clog := clog st\<rparr>) = ((?f1, st\<lparr>clog := ?l1\<rparr>), CrFilled name pw base)"
    "cont_do e (CrFilled name pw base) (?f1, st\<lparr>clog := ?l1\<rparr>) = ((?f2, st\<lparr>clog := ?l2\<rparr>), CrFormatted name pw base)"
    "cont_do e (CrFormatted name pw base) (?f2, st\<lparr>clog := ?l2\<rparr>) = ((?f3, st\<lparr>clog := ?l3\<rparr>), CrOpened name base)"
    "cont_do e (CrOpened name base) (?f3, st\<lparr>clog := ?l3\<rparr>) = ((?f3, st\<lparr>clog := ?l4\<rparr>), CrMade name base)"
    "cont_do e (CrMade name base) (?f3, st\<lparr>clog := ?l4\<rparr>) = ((?f2(?d := None), st\<lparr>clog := ?l5\<rparr>), CrShut name base)"
    unfolding cont_do.simps create_fill_def create_format_def create_open_def
      run [OF c] run [OF hdr(1)] run [OF op] run [OF fin(1)] run [OF fin(2)]
    using env by simp_all
  have "alone e ((?f2(?d := None), st\<lparr>clog := ?l5\<rparr>), CrShut name base)
      ((?f2(?d := None), st\<lparr>clog := ?l5 @ [CChmod ?h, CChmod ?v]\<rparr>), CDone (Inr ()))"
    by (rule alone_step) (simp_all add: clog_add_def)
  then have all: "alone e ((files, st\<lparr>clog := clog st\<rparr>), CrChecked name sz pw base)
      ((?f2(?d := None), st\<lparr>clog := ?l5 @ [CChmod ?h, CChmod ?v]\<rparr>), CDone (Inr ()))"
    by (intro s [THEN alone_to]) simp_all
  have "st\<lparr>clog := clog st\<rparr> = st" by simp
  note all [unfolded this]
  moreover have "made_with opens base name pw (?f2(?d := None))"
    using paths hdr(2) by (auto simp: made_with_def)
  ultimately show ?thesis by blast
qed

lemma open_made:
  assumes ready: "luks_ready e opens base name" and made: "made_with opens base name pw (fst w)"
    and tab: "container_base (snd w) = base" "find_container name (snd w) = None"
      "container_count (snd w) < CONTAINER_MAX_ACTIVE"
    and rd: "\<forall>p. co_readable e p" "co_mount_ok e"
  shows "fst (container_open e (Some name) (Some q) w) = (if q = pw then Inr () else Inl EAuth)"
proof -
  let ?v = "vault_of base name" and ?h = "header_of base name" and ?m = "mapper_of name"
  obtain hdr where "fst w ?v \<noteq> None" "fst w ?h = Some hdr" "fst w (dev_of ?m) = None" "\<forall>q. opens hdr q \<longleftrightarrow> q = pw"
    using made by (auto simp: made_with_def)
  moreover from this have "co_exec e (luks_open_argv ?h ?v ?m) q (fst w) =
      (if q = pw then (Some 0, (fst w)(dev_of ?m \<mapsto> [])) else (Some 2, fst w))"
    using ready luks_worksD(3) [of e opens ?v ?h ?m "fst w" hdr q] by (simp add: luks_ready_def)
  moreover have "get_container_base e (snd w) = (base, snd w)"
    using ready tab(1) by (simp add: get_container_base_def luks_ready_def)
  ultimately show ?thesis
    using ready tab rd by (auto simp: container_open_def Let_def run_command_def luks_ready_def)
qed

text \<open>No container of this name exists, the table has room for one, and the programs work.\<close>

definition new_container ::
  "co_env \<Rightarrow> (bytes \<Rightarrow> string \<Rightarrow> bool) \<Rightarrow> string \<Rightarrow> string \<Rightarrow> fs \<times> cont_state \<Rightarrow> bool" where
  "new_container e opens base name w \<longleftrightarrow>
     luks_ready e opens base name \<and> (\<forall>p. co_readable e p) \<and> co_mount_ok e \<and>
     container_base (snd w) = base \<and> find_container name (snd w) = None \<and>
     container_count (snd w) < CONTAINER_MAX_ACTIVE \<and>
     fst w (vault_of base name) = None \<and> fst w (dev_of (mapper_of name)) = None"

lemma new_containerD:
  assumes "new_container e opens base name w"
  shows "luks_ready e opens base name" "\<forall>p. co_readable e p" "co_mount_ok e"
    "container_base (snd w) = base" "find_container name (snd w) = None"
    "container_count (snd w) < CONTAINER_MAX_ACTIVE"
    "fst w (vault_of base name) = None" "fst w (dev_of (mapper_of name)) = None"
  using assms unfolding new_container_def by blast+

text \<open>
  A container that was created opens with the password it was created with, and with
  every other password it answers that the password is wrong.
\<close>

theorem container_create_then_open:
  assumes new: "new_container e opens base name w"
    and "0 < sz" "length name < CONTAINER_NAME_MAX" "pw \<noteq> []"
  shows "\<exists>w'. container_create e (Some name) sz (Some pw) w = (Inr (), w') \<and>
    fst (container_open e (Some name) (Some q) w') = (if q = pw then Inr () else Inl EAuth)"
proof -
  note new = new_containerD [OF new]
  obtain files st where w: "w = (files, st)" by (rule prod.exhaust)
  obtain files' log where rest: "alone e ((files, st), CrChecked name sz pw base)
      ((files', st\<lparr>clog := log\<rparr>), CDone (Inr ()))" "made_with opens base name pw files'"
    using create_rest [OF new(1) assms(4), of files st sz] new(8) w by auto
  have "get_container_base e st = (base, st)"
    using new(1,4) by (simp add: get_container_base_def luks_ready_def w)
  then have "alone e (w, CrStart name sz pw) ((files', st\<lparr>clog := log\<rparr>), CDone (Inr ()))"
    using assms(2,3) new rest(1) by (intro alone_to) (auto simp: create_check_def w)
  then have "container_create e (Some name) sz (Some pw) w = (Inr (), files', st\<lparr>clog := log\<rparr>)"
    using alone_unique [OF _ alone_create [OF prod.collapse [symmetric]]] by (metis cont_done.simps(2) cont_pc.inject(15) prod.collapse)
  moreover have "fst (container_open e (Some name) (Some q) (files', st\<lparr>clog := log\<rparr>)) =
      (if q = pw then Inr () else Inl EAuth)"
    by (rule open_made [OF new(1)])
      (use new rest(2) w in \<open>simp_all add: find_container_def\<close>)
  ultimately show ?thesis by blast
qed

text \<open>
  C36: two clients that ask for the same new container at the same time can both be told
  that it was created, each with its own password, while only the password of the client
  that was slower opens it: the other one is told that its password is wrong.
\<close>

theorem container_create_race:
  assumes new: "new_container e opens base name w"
    and "0 < sz1" "0 < sz2" "length name < CONTAINER_NAME_MAX" "pw1 \<noteq> []" "pw2 \<noteq> []" "pw1 \<noteq> pw2"
  shows "\<exists>w'. (interleave (cont_client e))\<^sup>*\<^sup>* (w, [CrStart name sz1 pw1, CrStart name sz2 pw2])
      (w', [CDone (Inr ()), CDone (Inr ())]) \<and>
    fst (container_open e (Some name) (Some pw1) w') = Inl EAuth \<and>
    fst (container_open e (Some name) (Some pw2) w') = Inr ()"
proof -
  let ?run = "(interleave (cont_client e))\<^sup>*\<^sup>*"
  note new = new_containerD [OF new]
  obtain files st where w: "w = (files, st)" by (rule prod.exhaust)
  have base: "get_container_base e st = (base, st)"
    using new(1,4) by (simp add: get_container_base_def luks_ready_def w)
  have check: "cont_client e w (CrStart name sz pw) w (CrChecked name sz pw base)" if "0 < sz" for sz pw
    using that assms(4) new(7) base by (simp add: cont_client_def create_check_def w)
  have "interleave (cont_client e) (w, [CrStart name sz1 pw1, CrStart name sz2 pw2])
      (w, [CrChecked name sz1 pw1 base, CrStart name sz2 pw2])"
    using thread_step [of 0 "[CrStart name sz1 pw1, CrStart name sz2 pw2]" "cont_client e"] check [OF assms(2)] by fastforce
  moreover have "interleave (cont_client e) (w, [CrChecked name sz1 pw1 base, CrStart name sz2 pw2])
      (w, [CrChecked name sz1 pw1 base, CrChecked name sz2 pw2 base])"
    using thread_step [of 1 "[CrChecked name sz1 pw1 base, CrStart name sz2 pw2]" "cont_client e"] check [OF assms(3)] by fastforce
  ultimately have start: "?run (w, [CrStart name sz1 pw1, CrStart name sz2 pw2])
      (w, [CrChecked name sz1 pw1 base, CrChecked name sz2 pw2 base])"
    by (rule converse_rtranclp_into_rtranclp [OF _ r_into_rtranclp])
  obtain f1 l1 where one: "alone e ((files, st), CrChecked name sz1 pw1 base)
      ((f1, st\<lparr>clog := l1\<rparr>), CDone (Inr ()))" "made_with opens base name pw1 f1"
    using create_rest [OF new(1) assms(5), of files st sz1] new(8) w by auto
  obtain f2 l2 where two: "alone e ((f1, st\<lparr>clog := l1\<rparr>), CrChecked name sz2 pw2 base)
      ((f2, st\<lparr>clog := l1, clog := l2\<rparr>), CDone (Inr ()))" "made_with opens base name pw2 f2"
    using create_rest [OF new(1) assms(6), of f1 "st\<lparr>clog := l1\<rparr>" sz2] one(2) by (auto simp: made_with_def)
  let ?w' = "(f2, st\<lparr>clog := l1, clog := l2\<rparr>)"
  have "?run (w, [CrChecked name sz1 pw1 base, CrChecked name sz2 pw2 base])
      ((f1, st\<lparr>clog := l1\<rparr>), [CDone (Inr ()), CrChecked name sz2 pw2 base])"
    using solo_interleaves [OF one(1), of 0 "[_, CrChecked name sz2 pw2 base]"] by (simp add: w)
  moreover have "?run ((f1, st\<lparr>clog := l1\<rparr>), [CDone (Inr ()), CrChecked name sz2 pw2 base])
      (?w', [CDone (Inr ()), CDone (Inr ())])"
    using solo_interleaves [OF two(1), of 1 "[CDone (Inr ()), _]"] by simp
  ultimately have run: "?run (w, [CrStart name sz1 pw1, CrStart name sz2 pw2]) (?w', [CDone (Inr ()), CDone (Inr ())])"
    using start by (meson rtranclp_trans)
  have "fst (container_open e (Some name) (Some q) ?w') = (if q = pw2 then Inr () else Inl EAuth)" for q
    by (rule open_made [OF new(1)])
      (use new two(2) w in \<open>simp_all add: find_container_def\<close>)
  then show ?thesis using run assms(7) by (intro exI [of _ ?w'] conjI) simp_all
qed

text \<open>Programs that work: the header holds the bytes of the key.\<close>

fun luks_exec :: "string list \<Rightarrow> string \<Rightarrow> fs \<Rightarrow> int option \<times> fs" where
  "luks_exec argv inp files =
     (if argv ! 0 = ''dd'' then (Some 0, files(drop 3 (argv ! 2) \<mapsto> []))
      else if argv ! 1 = ''luksFormat'' then (Some 0, files(argv ! 5 \<mapsto> to_bytes inp))
      else if argv ! 1 = ''open'' then
        (if files (dev_of (argv ! 9)) \<noteq> None then (Some 5, files)
         else if files (argv ! 5) = Some (to_bytes inp) then (Some 0, files(dev_of (argv ! 9) \<mapsto> []))
         else (Some 2, files))
      else if argv ! 1 = ''close'' then (Some 0, files(dev_of (argv ! 2) := None))
      else (Some 0, files))"

definition luks_demo :: co_env where
  "luks_demo = co_demo\<lparr>co_exec := luks_exec\<rparr>"

definition luks_start :: "fs \<times> cont_state" where
  "luks_start = (Map.empty, cont_start\<lparr>container_base := ''/c''\<rparr>)"

lemma luks_demo_new: "new_container luks_demo (\<lambda>h q. h = to_bytes q) ''/c'' ''tax'' luks_start"
proof -
  have inj: "to_bytes a = to_bytes b \<longleftrightarrow> a = b" for a b
    by (metis of_bytes_to_bytes)
  have p: "vault_of ''/c'' ''tax'' = ''/c/tax.vault''" "header_of ''/c'' ''tax'' = ''/c/tax.header''"
    "mapper_of ''tax'' = ''sz-tax''" "dev_of ''sz-tax'' = ''/dev/mapper/sz-tax''"
    by code_simp+
  have "luks_works luks_demo (\<lambda>h q. h = to_bytes q) ''/c/tax.vault'' ''/c/tax.header'' ''sz-tax''"
    unfolding luks_works_def
    by (auto simp: luks_demo_def dd_argv_def luks_format_argv_def luks_open_argv_def luks_close_argv_def p inj)
  then show ?thesis
    by (auto simp: new_container_def luks_ready_def p luks_demo_def luks_start_def co_demo_def cont_start_def
        find_container_def scan_slots.simps)
qed

theorem container_create_then_open_witness:
  "\<exists>w'. container_create luks_demo (Some ''tax'') 5 (Some ''pw'') luks_start = (Inr (), w') \<and>
    fst (container_open luks_demo (Some ''tax'') (Some ''pw'') w') = Inr ()"
  using container_create_then_open [OF luks_demo_new, of 5 "''pw''" "''pw''"] by simp

theorem container_create_race_witness:
  "\<exists>w'. (interleave (cont_client luks_demo))\<^sup>*\<^sup>* (luks_start, [CrStart ''tax'' 5 ''ann'', CrStart ''tax'' 7 ''bob''])
      (w', [CDone (Inr ()), CDone (Inr ())]) \<and>
    fst (container_open luks_demo (Some ''tax'') (Some ''ann'') w') = Inl EAuth \<and>
    fst (container_open luks_demo (Some ''tax'') (Some ''bob'') w') = Inr ()"
  by (rule container_create_race [OF luks_demo_new]) simp_all

section \<open>A wipe among other clients\<close>

fun opener :: "cont_pc \<Rightarrow> bool" where
  "opener (OpStart _ _) = True"
| "opener _ = False"

definition cont_ok :: "fs \<times> cont_state \<Rightarrow> bool" where
  "cont_ok w \<longleftrightarrow> cont_inv (snd w) \<and> distinct (map cname (cactive (snd w)))"

text \<open>What a client knows of the open containers: a wipe has copied the name of each.\<close>

fun wiper_knows :: "fs \<times> cont_state \<Rightarrow> cont_pc \<Rightarrow> bool" where
  "wiper_knows w (OpStart _ _) = False"
| "wiper_knows w (WpNames ks) = (cname ` set (cactive (snd w)) \<subseteq> set ks)"
| "wiper_knows w CWiped = (cactive (snd w) = [])"
| "wiper_knows w _ = True"

lemma close_ok:
  assumes "cont_ok w"
  shows "cont_ok (snd (container_close e (Some k) w))"
    "cname ` set (cactive (snd (snd (container_close e (Some k) w)))) = cname ` set (cactive (snd w)) - {k}"
  using assms by (simp_all add: cont_ok_def close_inv close_active distinct_remove_key keys_remove_key)

lemma same_table_ok:
  "same_table w w' \<Longrightarrow> cactive (snd w') = cactive (snd w) \<and> (cont_ok w' \<longleftrightarrow> cont_ok w)"
  unfolding same_table_def cont_ok_def using cactive_cong [of "snd w'" "snd w"] by auto

text \<open>Every step either closes a container or leaves the table as it is.\<close>

lemma cont_do_table:
  assumes "cont_do e l w = (w', l')" "\<not> opener l"
  shows "same_table w w' \<or> (\<exists>k. w' = snd (container_close e (Some k) w))"
proof (cases "\<exists>k. l = ClStart k")
  case True
  then show ?thesis using assms by (auto split: prod.splits) (metis snd_conv)
next
  case False
  note fr = get_base_frame run_command_frame_eq
  from assms False show ?thesis
    by (cases "(e, l, w)" rule: cont_do.cases)
      (auto simp: same_table_def create_check_def create_fill_def create_format_def create_open_def
        destroy_stat_def destroy_shred_def dest!: fr split: if_splits prod.splits option.splits)
qed

lemma cont_do_shrinks:
  assumes "cont_ok w" "cont_do e l w = (w', l')" "\<not> opener l"
  shows "cont_ok w' \<and> cname ` set (cactive (snd w')) \<subseteq> cname ` set (cactive (snd w))"
  using cont_do_table [OF assms(2,3)]
proof (elim disjE exE)
  assume "same_table w w'"
  then show ?thesis using assms(1) same_table_ok [of w w'] by simp
next
  fix k assume "w' = snd (container_close e (Some k) w)"
  then show ?thesis using close_ok [OF assms(1), of e k] by auto
qed

lemma wiper_knows_mono:
  "wiper_knows w k \<Longrightarrow> cname ` set (cactive (snd w')) \<subseteq> cname ` set (cactive (snd w)) \<Longrightarrow> wiper_knows w' k"
  by (cases k) auto

lemma wiper_knows_own:
  assumes "cont_ok w" "wiper_knows w l" "cont_do e l w = (w', l')"
  shows "wiper_knows w' l'"
  using assms
  by (cases "(e, l, w)" rule: cont_do.cases)
    (auto simp: close_ok(2) image_subset_iff copied_names_def cactive_def [symmetric] create_check_def create_fill_def create_format_def
      create_open_def destroy_stat_def destroy_shred_def split: if_splits prod.splits)

interpretation wipe: threads "cont_client e" cont_ok wiper_knows "\<lambda>_ _. True"
  for e
proof (unfold_locales, goal_cases)
  case (1 w l w' l')
  then have "\<not> opener l" by (cases l) auto
  then show ?case using 1 cont_do_shrinks wiper_knows_own by (metis cont_client_def)
next
  case (2 w l k w' l')
  then have "\<not> opener l" by (cases l) auto
  then show ?case using 2 cont_do_shrinks wiper_knows_mono by (metis cont_client_def)
qed simp

text \<open>
  C21: as long as no client opens a container, a wipe that has finished leaves the table
  empty, however its steps were interleaved with those of other clients that create, close,
  destroy or wipe.
\<close>

theorem container_wipe_among_clients:
  assumes "cont_reachable w" "distinct (map cname (fst (container_list (snd w))))"
    and "\<forall>l \<in> set ls. cont_begin l \<and> \<not> opener l"
    and "(interleave (cont_client e))\<^sup>*\<^sup>* (w, ls) (w', ls')" "CWiped \<in> set ls'"
  shows "container_list (snd w') = ([], 0)"
proof -
  have "wiper_knows w l" if "l \<in> set ls" for l
    using assms(3) that by (cases l) auto
  then have "threads_ok cont_ok wiper_knows (\<lambda>_ _. True) (w, ls)"
    using assms(2) reachable_cont_inv [OF assms(1)]
    by (auto simp: threads_ok_def cont_ok_def container_list_def cactive_def)
  then have "threads_ok cont_ok wiper_knows (\<lambda>_ _. True) (w', ls')"
    by (rule wipe.interleaves_ok [OF assms(4)])
  then have "cont_inv (snd w')" "wiper_knows w' CWiped"
    using assms(5) by (auto simp: threads_ok_def cont_ok_def in_set_conv_nth)
  then show ?thesis by (auto simp: container_list_def cactive_def cont_inv_def)
qed

section \<open>The clients come to an end\<close>

fun cont_rank :: "cont_pc \<Rightarrow> nat" where
  "cont_rank (CrStart _ _ _) = 7"
| "cont_rank (CrChecked _ _ _ _) = 6"
| "cont_rank (CrFilled _ _ _) = 5"
| "cont_rank (CrFormatted _ _ _) = 4"
| "cont_rank (CrOpened _ _) = 3"
| "cont_rank (CrMade _ _) = 2"
| "cont_rank (CrShut _ _) = 1"
| "cont_rank (OpStart _ _) = 1"
| "cont_rank (ClStart _) = 1"
| "cont_rank (DsStart _) = 6"
| "cont_rank (DsClosed _) = 5"
| "cont_rank (DsStat _ _ _) = 4"
| "cont_rank (Unlinking ps _) = Suc (length ps)"
| "cont_rank WpStart = CONTAINER_MAX_ACTIVE + 2"
| "cont_rank (WpNames ks) = Suc (length ks)"
| "cont_rank CWiped = 0"
| "cont_rank (CDone _) = 0"

lemma cont_do_inv:
  assumes "cont_inv (snd w)" "cont_do e l w = (w', l')"
  shows "cont_inv (snd w')"
proof (cases "opener l")
  case True
  then obtain name pw where "l = OpStart name pw" by (cases l) auto
  then show ?thesis using assms open_inv [OF assms(1), of e name pw] by (auto split: prod.splits)
next
  case False
  then show ?thesis
    using cont_do_table [OF assms(2)] assms(1) close_inv [OF assms(1)] cactive_cong [of "snd w'" "snd w"]
    by (auto simp: same_table_def)
qed

lemma cont_do_rank:
  assumes "cont_inv (snd w)" "cont_do e l w = (w', l')" "\<not> cont_done l"
  shows "cont_rank l' < cont_rank l"
  using assms
  by (cases "(e, l, w)" rule: cont_do.cases)
    (auto simp: copied_names_def cont_inv_def create_check_def create_fill_def create_format_def
      create_open_def destroy_stat_def destroy_shred_def split: if_splits prod.splits)

interpretation clients: ranked_threads "cont_client e" "\<lambda>w. cont_inv (snd w)" "\<lambda>_ _. True" "\<lambda>_ _. True" cont_rank
  for e
  by unfold_locales (auto simp: cont_client_def dest: cont_do_inv cont_do_rank)

lemma cont_clients_progress:
  "(\<exists>c'. interleave (cont_client e) c c') \<or> (\<forall>l \<in> set (snd c). cont_done l)"
  by (rule interleave_progress) (metis cont_client_def prod.collapse)

text \<open>
  Clients that create, open, close, destroy or wipe containers, in whatever order their
  steps are taken, take at most 18 steps each, and as long as one of them has not got its
  answer a step is possible: no client blocks another for ever.
\<close>

theorem container_clients_finish:
  assumes "cont_reachable w" "\<forall>l \<in> set ls. cont_begin l"
    and "(interleave (cont_client e) ^^ n) (w, ls) c"
  shows "n \<le> 18 * length ls \<and> ((\<exists>c'. interleave (cont_client e) c c') \<or> (\<forall>l \<in> set (snd c). cont_done l))"
proof -
  have "cont_rank l \<le> 18" if "l \<in> set ls" for l
    using assms(2) that by (cases l) auto
  then have "sum_list (map cont_rank ls) \<le> sum_list (map (\<lambda>_. 18) ls)"
    by (intro sum_list_mono) simp
  moreover have "n + sum_list (map cont_rank (snd c)) \<le> sum_list (map cont_rank ls)"
    using clients.interleaves_rank [OF assms(3)] reachable_cont_inv [OF assms(1)] by (simp add: threads_ok_def)
  ultimately show ?thesis
    using cont_clients_progress [of e c] by (simp add: sum_list_triv)
qed

lemma demo_wipe_run:
  "(interleave (cont_client co_demo))\<^sup>*\<^sup>* (one_container, [WpStart]) (container_close_all co_demo one_container, [CWiped])"
proof -
  have "alone co_demo (one_container, WpStart) (container_close_all co_demo one_container, CWiped)"
    by (rule alone_wipe)
  from solo_interleaves [OF this, of 0 "[WpStart]"] show ?thesis by simp
qed

theorem container_wipe_among_clients_witness:
  "map cname (fst (container_list (snd one_container))) = [''tax''] \<and>
   container_list (snd (container_close_all co_demo one_container)) = ([], 0)"
  using container_wipe_among_clients [OF one_container_reachable _ _ demo_wipe_run] one_container_names by simp

lemma demo_one_step:
  "(interleave (cont_client co_demo) ^^ 1) (one_container, [WpStart, WpStart])
     (one_container, [WpNames (copied_names (snd one_container)), WpStart])"
  using thread_step [of 0 "[WpStart, WpStart]" "cont_client co_demo" one_container one_container
      "WpNames (copied_names (snd one_container))"]
  by (simp add: cont_client_def eq_OO)

theorem container_clients_finish_witness:
  "\<exists>c'. interleave (cont_client co_demo)
     (one_container, [WpNames (copied_names (snd one_container)), WpStart]) c'"
  using container_clients_finish [OF one_container_reachable _ demo_one_step] by simp

end
