(* ===== verification/File_Threads.thy ===== *)
theory File_Threads
  imports Threads File_Encryption
begin

text \<open>
  The client threads of the daemon and the file system. \<open>cryptic_encrypt_file\<close> and
  \<open>cryptic_decrypt_file\<close> in \<open>crypticengine/src/cryptic_engine.c\<close> take no lock: opening the input,
  asking for its size, reading it, opening the output (which empties it), writing it and
  removing it after a failed write are steps of their own. An open file is an inode: a name
  that is removed or replaced meanwhile does not change what a thread has open. The key and
  the secure heap are the matter of \<open>Memory_Threads\<close>; here a step computes the output.

  The theorems: clients whose outputs are no input or output of another client have, in every
  interleaving, exactly the effect and the answers of the sequential operations; and a client
  that encrypts a file while another one is decrypting to it can seal an empty file.
\<close>

section \<open>Files as inodes\<close>

record inodes =
  names :: "path \<rightharpoonup> nat"
  inode :: "nat \<Rightarrow> bytes"
  fresh_inode :: nat

definition files_of :: "inodes \<Rightarrow> fs" where
  "files_of s = (\<lambda>p. map_option (inode s) (names s p))"

definition inodes_ok :: "inodes \<Rightarrow> bool" where
  "inodes_ok s \<longleftrightarrow>
     (\<forall>p i. names s p = Some i \<longrightarrow> i < fresh_inode s) \<and>
     (\<forall>p q i. names s p = Some i \<longrightarrow> names s q = Some i \<longrightarrow> p = q)"

text \<open>\<open>fopen(path, "wb")\<close>: the inode of the name, emptied, or a new one.\<close>

definition open_trunc :: "path \<Rightarrow> inodes \<Rightarrow> nat \<times> inodes" where
  "open_trunc p s =
     (case names s p of
        Some i \<Rightarrow> (i, s\<lparr>inode := (inode s)(i := [])\<rparr>)
      | None \<Rightarrow> (fresh_inode s, s\<lparr>names := (names s)(p \<mapsto> fresh_inode s), inode := (inode s)(fresh_inode s := []),
                               fresh_inode := Suc (fresh_inode s)\<rparr>))"

section \<open>The steps of a client\<close>

record file_job =
  fj_dec :: bool
  fj_path :: path
  fj_pw :: string
  fj_env :: file_env

datatype file_pc =
    FStart
  | FOpened nat
  | FSized nat nat
  | FRead bytes
  | FSealed bytes
  | FWriting nat bytes
  | FShort
  | FDone "unit res"

definition out_path :: "file_job \<Rightarrow> path" where
  "out_path j = (if fj_dec j then decrypt_path (fj_path j) else fj_path j @ SZENC_EXTENSION)"

text \<open>The test of the size, before the buffer is allocated.\<close>

definition size_error :: "file_job \<Rightarrow> nat \<Rightarrow> err option" where
  "size_error j n =
     (if fj_dec j
      then if n < SZENC_HEADER_LEN + CRYPTIC_MAC_LEN then Some ETooSmall
           else if \<not> fe_malloc_in (fj_env j) then Some ENoMem else None
      else if n > SZENC_MAX_FILE then Some ETooBig
           else if \<not> fe_malloc_in (fj_env j) then Some ENoMem else None)"

text \<open>From the bytes that were read to the bytes to be written.\<close>

definition seal :: "sodium \<Rightarrow> file_job \<Rightarrow> bytes \<Rightarrow> bytes res" where
  "seal S j d =
     (let v = fj_env j;
          salt = (if fj_dec j then take CRYPTIC_SALT_LEN d else crypto_generate_salt (fe_salt v));
          nonce = (if fj_dec j then take CRYPTIC_NONCE_LEN (drop CRYPTIC_SALT_LEN d)
                   else crypto_random_bytes (fe_nonce v) CRYPTIC_NONCE_LEN)
      in if fe_key_mem v = None then Inl ENoMem
         else (case derive_normal S (fj_pw j) salt of
            Inl e \<Rightarrow> Inl e
          | Inr k \<Rightarrow>
              if \<not> fe_malloc_out v then Inl ENoMem
              else (case (if fj_dec j then crypto_decrypt_buffer S True (Some (drop SZENC_HEADER_LEN d)) (Some nonce) (Some k)
                          else crypto_encrypt_buffer S True (Some d) (Some nonce) (Some k)) of
                 Inl e \<Rightarrow> Inl e
               | Inr x \<Rightarrow>
                   if \<not> fe_malloc_path v then Inl ENoMem
                   else Inr (if fj_dec j then x else salt @ nonce @ x))))"

fun file_do :: "sodium \<Rightarrow> file_job \<Rightarrow> file_pc \<Rightarrow> inodes \<Rightarrow> inodes \<times> file_pc" where
  "file_do S j FStart s =
     (case (if fe_open_in (fj_env j) then names s (fj_path j) else None) of
        None \<Rightarrow> (s, FDone (Inl EOpen))
      | Some i \<Rightarrow> (s, FOpened i))"
| "file_do S j (FOpened i) s =
     (case size_error j (length (inode s i)) of
        Some e \<Rightarrow> (s, FDone (Inl e))
      | None \<Rightarrow> (s, FSized i (length (inode s i))))"
| "file_do S j (FSized i n) s =
     (if \<not> fe_read_ok (fj_env j) \<or> length (inode s i) < n then (s, FDone (Inl EIo))
      else (s, FRead (take n (inode s i))))"
| "file_do S j (FRead d) s =
     (case seal S j d of Inl e \<Rightarrow> (s, FDone (Inl e)) | Inr x \<Rightarrow> (s, FSealed x))"
| "file_do S j (FSealed x) s =
     (if \<not> fe_open_out (fj_env j) then (s, FDone (Inl EOpen))
      else (case open_trunc (out_path j) s of (i, s') \<Rightarrow> (s', FWriting i x)))"
| "file_do S j (FWriting i x) s =
     (if fe_write_ok (fj_env j)
      then (s\<lparr>inode := (inode s)(i := put_at 0 (flushed (fe_torn (fj_env j)) x) (inode s i))\<rparr>, FDone (Inr ()))
      else (s\<lparr>inode := (inode s)(i := put_at 0 (take (fe_part (fj_env j)) x) (inode s i))\<rparr>, FShort))"
| "file_do S j FShort s =
     (if fe_unlink_ok (fj_env j) then s\<lparr>names := (names s)(out_path j := None)\<rparr> else s, FDone (Inl EIo))"
| "file_do S j (FDone r) s = (s, FDone r)"

fun file_done :: "file_pc \<Rightarrow> bool" where
  "file_done (FDone _) = True"
| "file_done _ = False"

definition file_client ::
  "sodium \<Rightarrow> inodes \<Rightarrow> file_job \<times> file_pc \<Rightarrow> inodes \<Rightarrow> file_job \<times> file_pc \<Rightarrow> bool" where
  "file_client S s l s' l' \<longleftrightarrow>
     \<not> file_done (snd l) \<and> fst l' = fst l \<and> file_do S (fst l) (snd l) s = (s', snd l')"

text \<open>The operation as a whole.\<close>

definition file_op :: "sodium \<Rightarrow> file_job \<Rightarrow> fs \<times> mem_state \<Rightarrow> unit res \<times> fs \<times> mem_state" where
  "file_op S j w =
     (if fj_dec j then cryptic_decrypt_file S (fj_env j) (Some (fj_path j)) (Some (fj_pw j)) w
      else cryptic_encrypt_file S (fj_env j) (Some (fj_path j)) (Some (fj_pw j)) w)"

section \<open>What an operation does to its output\<close>

fun file_rank :: "file_pc \<Rightarrow> nat" where
  "file_rank FStart = 7"
| "file_rank (FOpened _) = 6"
| "file_rank (FSized _ _) = 5"
| "file_rank (FRead _) = 4"
| "file_rank (FSealed _) = 3"
| "file_rank (FWriting _ _) = 2"
| "file_rank FShort = 1"
| "file_rank (FDone _) = 0"

text \<open>
  The answer and the content of the output, from the content of the input \<open>c\<close> and the old
  content of the output \<open>o\<close>; and the same from every point on the way.
\<close>

function ending :: "sodium \<Rightarrow> file_job \<Rightarrow> file_pc \<Rightarrow> bytes option \<Rightarrow> bytes option \<Rightarrow> unit res \<times> bytes option" where
  "ending S j FShort c q = (Inl EIo, if fe_unlink_ok (fj_env j) then None else q)"
| "ending S j (FDone r) c q = (r, q)"
| "ending S j (FWriting i x) c q = 
     (if fe_write_ok (fj_env j) then (Inr (), Some (flushed (fe_torn (fj_env j)) x))
      else (Inl EIo, if fe_unlink_ok (fj_env j) then None else Some (take (fe_part (fj_env j)) x)))"
| "ending S j (FSealed x) c q =
     (if \<not> fe_open_out (fj_env j) then (Inl EOpen, q) else ending S j (FWriting 0 x) c q)"
| "ending S j (FRead d) c q =
     (case seal S j d of Inl e \<Rightarrow> (Inl e, q) | Inr x \<Rightarrow> ending S j (FSealed x) c q)"
| "ending S j (FSized i n) c q =
     (if \<not> fe_read_ok (fj_env j) then (Inl EIo, q) else ending S j (FRead (the c)) c q)"
| "ending S j (FOpened i) c q =
     (case size_error j (length (the c)) of
        Some e \<Rightarrow> (Inl e, q) | None \<Rightarrow> ending S j (FSized 0 0) c q)"
| "ending S j FStart c q =
     (if fe_open_in (fj_env j) \<and> c \<noteq> None then ending S j (FOpened 0) c q else (Inl EOpen, q))"
  by pat_completeness auto
termination
  by (relation "measure (\<lambda>(S, j, l, c, q). file_rank l)") auto

lemma file_op_ending:
  assumes "initialized m"
  shows "fst (file_op S j (files, m)) = fst (ending S j FStart (files (fj_path j)) (files (out_path j)))"
    and "fst (snd (file_op S j (files, m))) =
      files(out_path j := snd (ending S j FStart (files (fj_path j)) (files (out_path j))))"
proof -
  have "fst (file_op S j (files, m)) = fst (ending S j FStart (files (fj_path j)) (files (out_path j))) \<and>
    fst (snd (file_op S j (files, m))) =
      files(out_path j := snd (ending S j FStart (files (fj_path j)) (files (out_path j))))"
  proof (cases "fj_dec j")
    case True
    let ?v = "fj_env j"
    consider "\<not> fe_open_in ?v \<or> files (fj_path j) = None"
      | c where "fe_open_in ?v" "files (fj_path j) = Some c" "length c < 56"
      | c where "fe_open_in ?v" "files (fj_path j) = Some c" "56 \<le> length c"
      by (meson not_le option.exhaust)
    then show ?thesis
    proof cases
      case 1
      then show ?thesis using True by (auto simp: file_op_def cryptic_decrypt_file_def)
    next
      case 2
      then show ?thesis using True by (simp add: file_op_def cryptic_decrypt_file_def size_error_def)
    next
      case (3 c)
      let ?salt = "take 16 c" and ?nonce = "take 24 (drop 16 c)" and ?ct = "drop 40 c"
      have r: "fread_all 16 c = Some (?salt, drop 16 c)" "fread_all 24 (drop 16 c) = Some (?nonce, ?ct)"
        "fread_all (length c - 40) ?ct = Some (?ct, [])"
        using 3(3) by (simp_all add: fread_all_def)
      show ?thesis
        using True assms 3
        by (cases "fe_malloc_in ?v"; cases "fe_read_ok ?v"; cases "fe_key_mem ?v";
            cases "derive_normal S (fj_pw j) ?salt"; cases "fe_malloc_out ?v")
          (auto simp: file_op_def cryptic_decrypt_file_def out_path_def size_error_def seal_def Let_def
            secure_alloc_def write_output_def r
            simp del: derive_key_Some decrypt_buffer_Some split: sum.splits)
    qed
  next
    case False
    show ?thesis
      using False assms
      by (auto simp: file_op_def cryptic_encrypt_file_def out_path_def size_error_def seal_def Let_def
          secure_alloc_def write_output_def
          simp del: derive_key_Some encrypt_buffer_Some split: option.splits sum.splits if_splits prod.splits)
  qed
  then show "fst (file_op S j (files, m)) = fst (ending S j FStart (files (fj_path j)) (files (out_path j)))"
    "fst (snd (file_op S j (files, m))) =
      files(out_path j := snd (ending S j FStart (files (fj_path j)) (files (out_path j))))"
    by blast+
qed

section \<open>Clients that do not meet\<close>

lemma out_path_differs: "out_path j \<noteq> fj_path j"
proof
  assume "out_path j = fj_path j"
  then have "length (out_path j) = length (fj_path j)" by simp
  then show False
    by (auto simp: out_path_def decrypt_path_def SZENC_EXTENSION_def Let_def split: if_splits)
qed

text \<open>A step leaves every file alone but one.\<close>

definition changes_only :: "path \<Rightarrow> inodes \<Rightarrow> inodes \<Rightarrow> bool" where
  "changes_only q s s' \<longleftrightarrow>
     (\<forall>p. p \<noteq> q \<longrightarrow> names s' p = names s p \<and> (\<forall>i. names s p = Some i \<longrightarrow> inode s' i = inode s i))"

lemma changes_only_files: "changes_only q s s' \<Longrightarrow> p \<noteq> q \<Longrightarrow> files_of s' p = files_of s p"
  by (auto simp: changes_only_def files_of_def split: option.splits) (metis not_None_eq option.map)

text \<open>What a client knows of the inodes it has open.\<close>

fun holds :: "inodes \<Rightarrow> file_job \<Rightarrow> file_pc \<Rightarrow> bool" where
  "holds s j (FOpened i) \<longleftrightarrow> names s (fj_path j) = Some i"
| "holds s j (FSized i n) \<longleftrightarrow> names s (fj_path j) = Some i \<and> n = length (inode s i)"
| "holds s j (FWriting i x) \<longleftrightarrow> names s (out_path j) = Some i \<and> inode s i = []"
| "holds s j _ \<longleftrightarrow> True"

lemma open_trunc_frame:
  assumes "inodes_ok s" "open_trunc p s = (i, s')"
  shows "inodes_ok s' \<and> changes_only p s s' \<and> names s' p = Some i \<and> inode s' i = []"
proof (cases "names s p")
  case None
  then have s': "i = fresh_inode s" "s' = s\<lparr>names := (names s)(p \<mapsto> fresh_inode s),
      inode := (inode s)(fresh_inode s := []), fresh_inode := Suc (fresh_inode s)\<rparr>"
    using assms(2) by (auto simp: open_trunc_def)
  have below: "k < fresh_inode s" if "names s q = Some k" for q k
    using assms(1) that by (simp add: inodes_ok_def)
  have "inodes_ok s'"
    using assms(1) below unfolding inodes_ok_def s'(2) by (auto simp: less_Suc_eq split: if_splits dest: below)
  moreover have "changes_only p s s'"
    using below unfolding changes_only_def s'(2) by auto
  ultimately show ?thesis by (simp add: s')
next
  case (Some k)
  then have s': "i = k" "s' = s\<lparr>inode := (inode s)(k := [])\<rparr>"
    using assms(2) by (auto simp: open_trunc_def)
  have "changes_only p s s'"
    using Some assms(1) unfolding changes_only_def inodes_ok_def s'(2) by auto
  then show ?thesis using Some assms(1) by (simp add: s' inodes_ok_def)
qed

lemma write_frame:
  assumes "inodes_ok s" "names s p = Some i"
  shows "inodes_ok (s\<lparr>inode := (inode s)(i := d)\<rparr>) \<and> changes_only p s (s\<lparr>inode := (inode s)(i := d)\<rparr>)"
  using assms by (auto simp: inodes_ok_def changes_only_def)

lemma file_do_frame:
  assumes "inodes_ok s" "holds s j l" "file_do S j l s = (s', l')"
  shows "inodes_ok s' \<and> changes_only (out_path j) s s'"
proof (cases l)
  case (FSealed x)
  then show ?thesis
    using assms open_trunc_frame [OF assms(1)] by (auto simp: changes_only_def split: if_splits prod.splits)
next
  case (FWriting i x)
  then show ?thesis using assms write_frame [OF assms(1), of "out_path j" i] by (auto split: if_splits)
next
  case FShort
  then show ?thesis using assms by (auto simp: inodes_ok_def changes_only_def split: if_splits)
qed (use assms in \<open>auto simp: changes_only_def split: if_splits option.splits sum.splits\<close>)

text \<open>
  The assertion of a client, on the files \<open>f\<close> the clients started with: its input is as it
  was, and from here it ends as it would have ended there.
\<close>

definition file_knows :: "sodium \<Rightarrow> fs \<Rightarrow> inodes \<Rightarrow> file_job \<times> file_pc \<Rightarrow> bool" where
  "file_knows S f s t \<longleftrightarrow>
     (case t of (j, l) \<Rightarrow>
        holds s j l \<and> files_of s (fj_path j) = f (fj_path j) \<and>
        ending S j l (files_of s (fj_path j)) (files_of s (out_path j)) =
          ending S j FStart (f (fj_path j)) (f (out_path j)))"

definition file_apart :: "file_job \<times> file_pc \<Rightarrow> file_job \<times> file_pc \<Rightarrow> bool" where
  "file_apart t u \<longleftrightarrow>
     out_path (fst t) \<notin> {fj_path (fst u), out_path (fst u)} \<and>
     out_path (fst u) \<notin> {fj_path (fst t), out_path (fst t)}"

lemma holds_frame:
  assumes "holds s k l" "changes_only q s s'" "q \<noteq> fj_path k" "q \<noteq> out_path k"
  shows "holds s' k l"
  using assms by (cases l) (auto simp: changes_only_def)

lemma file_knows_others:
  assumes "file_knows S f s (k, l)" "changes_only q s s'" "q \<noteq> fj_path k" "q \<noteq> out_path k"
  shows "file_knows S f s' (k, l)"
proof -
  have "files_of s' (fj_path k) = files_of s (fj_path k)" "files_of s' (out_path k) = files_of s (out_path k)"
    using changes_only_files [OF assms(2)] assms(3,4) by auto
  then show ?thesis using assms(1) holds_frame [OF _ assms(2-4)] by (auto simp: file_knows_def simp del: ending.simps)
qed

lemma ending_step:
  assumes "inodes_ok s" "holds s j l" "file_do S j l s = (s', l')"
  shows "holds s' j l' \<and>
    ending S j l' (files_of s (fj_path j)) (files_of s' (out_path j)) =
      ending S j l (files_of s (fj_path j)) (files_of s (out_path j))"
proof (cases l)
  case FStart
  then show ?thesis using assms by (auto simp: files_of_def split: if_splits option.splits sum.splits)
next
  case (FOpened i)
  then show ?thesis using assms by (auto simp: files_of_def split: if_splits option.splits)
next
  case (FSized i n)
  then show ?thesis using assms by (auto simp: files_of_def split: if_splits option.splits)
next
  case (FRead d)
  then show ?thesis using assms by (auto split: sum.splits)
next
  case (FSealed x)
  then show ?thesis
    using assms open_trunc_frame [OF assms(1)] by (auto simp: split: if_splits prod.splits)
next
  case (FWriting i x)
  then show ?thesis using assms by (auto simp: files_of_def put_at_def split: if_splits)
next
  case FShort
  then show ?thesis using assms by (auto simp: files_of_def)
next
  case (FDone r)
  then show ?thesis using assms by auto
qed

lemma file_do_rank: "file_do S j l s = (s', l') \<Longrightarrow> \<not> file_done l \<Longrightarrow> file_rank l' < file_rank l"
  by (cases l) (auto split: if_splits option.splits sum.splits prod.splits)

interpretation ft: ranked_threads "file_client S" inodes_ok "file_knows S f" file_apart "\<lambda>t. file_rank (snd t)"
  for S f
proof (unfold_locales, goal_cases)
  case (1 s t s' t')
  obtain j l l' where t: "t = (j, l)" "t' = (j, l')" "file_do S j l s = (s', l')"
    using 1(3) by (cases t; cases t') (auto simp: file_client_def)
  have h: "holds s j l" using 1(2) by (simp add: file_knows_def t)
  have same: "files_of s' (fj_path j) = files_of s (fj_path j)"
    using changes_only_files file_do_frame [OF 1(1) h t(3)] out_path_differs [of j] by metis
  show ?case
    using 1(2) file_do_frame [OF 1(1) h t(3)] ending_step [OF 1(1) h t(3)] same by (auto simp: file_knows_def t simp del: ending.simps)
next
  case (2 s t u s' t')
  obtain j l l' where t: "t = (j, l)" "t' = (j, l')" "file_do S j l s = (s', l')"
    using 2(5) by (cases t; cases t') (auto simp: file_client_def)
  obtain k n where u: "u = (k, n)" by (rule prod.exhaust)
  have "changes_only (out_path j) s s'"
    using file_do_frame [OF 2(1) _ t(3)] 2(2) by (simp add: file_knows_def t)
  then have "file_knows S f s' (k, n)"
    using 2(3,4) by (intro file_knows_others [of S f s k n "out_path j" s']) (auto simp: file_apart_def t u)
  then show ?case using 2(4) by (simp add: file_apart_def t u)
next
  case (3 t u)
  then show ?case by (simp add: file_apart_def)
next
  case (4 s t s' t')
  then show ?case
    using file_do_rank [of S "fst t" "snd t" s s' "snd t'"] by (simp add: file_client_def)
qed

lemma file_client_exists: "\<not> file_done (snd t) \<Longrightarrow> \<exists>s' t'. file_client S s t s' t'"
  unfolding file_client_def by (metis fst_conv prod.collapse snd_conv)

lemma other_files_kept:
  assumes ok: "threads_ok inodes_ok (file_knows S f) file_apart c" and runs: "(interleave (file_client S))\<^sup>*\<^sup>* c c'"
    and "p \<notin> (out_path \<circ> fst) ` set (snd c)"
  shows "files_of (fst c') p = files_of (fst c) p"
  using runs
proof (induction rule: rtranclp_induct)
  case (step c1 c2)
  have ok1: "threads_ok inodes_ok (file_knows S f) file_apart c1" by (rule ft.interleaves_ok [OF step(1) ok])
  have "map fst (snd c1) = map fst (snd c)"
    by (rule interleaves_map [OF step(1)]) (simp add: file_client_def)
  then have jobs: "fst ` set (snd c1) = fst ` set (snd c)" by (metis set_map)
  from step(2) obtain i ls s s' t' where c: "c1 = (s, ls)" "c2 = (s', ls[i := t'])" "i < length ls"
    "file_client S s (ls ! i) s' t'"
    by (auto elim: interleave.cases)
  obtain j l where t: "ls ! i = (j, l)" by (rule prod.exhaust)
  have "inodes_ok s" "holds s j l"
    using ok1 c(3) t by (auto simp: threads_ok_def c(1) file_knows_def simp del: ending.simps)
  then have "changes_only (out_path j) s s'"
    using file_do_frame c(4) t by (auto simp: file_client_def)
  moreover have "j \<in> fst ` set (snd c)" using jobs c(1,3) t by (metis fst_conv image_eqI nth_mem snd_conv)
  then have "p \<noteq> out_path j" using assms(3) by (auto simp: image_comp [symmetric])
  ultimately show ?case using step.IH changes_only_files by (simp add: c)
qed simp

text \<open>
  C5: any number of clients encrypt and decrypt files at the same time. When the output of
  no client is the input or the output of another one, then in every interleaving of their
  steps each client is told what the operation would have told it alone, on the files they
  started with, its output is what the operation would have written, and no other file has
  changed. No client can wait for ever: each takes at most seven steps.
\<close>

theorem file_clients_isolated:
  assumes "inodes_ok s" "initialized m"
    and "\<forall>i < length js. \<forall>k < length js. i \<noteq> k \<longrightarrow> out_path (js ! i) \<notin> {fj_path (js ! k), out_path (js ! k)}"
    and run: "(interleave (file_client S) ^^ n) (s, map (\<lambda>j. (j, FStart)) js) (s', ts)"
  shows "n \<le> 7 * length js \<and> length ts = length js \<and>
    ((\<exists>c. interleave (file_client S) (s', ts) c) \<or> (\<forall>t \<in> set ts. file_done (snd t))) \<and>
    (\<forall>i r. i < length js \<longrightarrow> snd (ts ! i) = FDone r \<longrightarrow>
       r = fst (file_op S (js ! i) (files_of s, m)) \<and>
       files_of s' (out_path (js ! i)) = fst (snd (file_op S (js ! i) (files_of s, m))) (out_path (js ! i))) \<and>
    (\<forall>p. p \<notin> out_path ` set js \<longrightarrow> files_of s' p = files_of s p)"
proof -
  let ?ok = "threads_ok inodes_ok (file_knows S (files_of s)) file_apart"
  let ?c = "(s, map (\<lambda>j. (j, FStart)) js)"
  have start: "?ok ?c"
    using assms(1,3) by (auto simp: threads_ok_def file_knows_def file_apart_def simp del: ending.simps)
  have runs: "(interleave (file_client S))\<^sup>*\<^sup>* ?c (s', ts)" by (rule relpowp_imp_rtranclp [OF run])
  have ok: "?ok (s', ts)" by (rule ft.interleaves_ok [OF runs start])
  have len: "length ts = length js" using interleaves_length [OF runs] by simp
  have jobs: "map fst ts = js"
    using interleaves_map [OF runs, of fst] by (simp add: file_client_def comp_def)
  have "n + sum_list (map (\<lambda>t. file_rank (snd t)) ts) \<le> 7 * length js"
    using ft.interleaves_rank [OF run start] by (simp add: comp_def sum_list_triv)
  moreover have "r = fst (file_op S (js ! i) (files_of s, m)) \<and>
      files_of s' (out_path (js ! i)) = fst (snd (file_op S (js ! i) (files_of s, m))) (out_path (js ! i))"
    if "i < length js" "snd (ts ! i) = FDone r" for i r
  proof -
    have "ts ! i = (js ! i, FDone r)"
      using that jobs len by (metis nth_map prod.collapse)
    then have "file_knows S (files_of s) s' (js ! i, FDone r)"
      using ok that(1) len by (auto simp: threads_ok_def)
    then show ?thesis
      using file_op_ending [OF assms(2), of S "js ! i" "files_of s"]
      by (simp add: file_knows_def del: ending.simps) (metis ending.simps(2) fst_conv snd_conv)
  qed
  moreover have "(\<exists>c. interleave (file_client S) (s', ts) c) \<or> (\<forall>t \<in> set ts. file_done (snd t))"
    using interleave_progress [of "\<lambda>t. file_done (snd t)" "file_client S" "(s', ts)"] file_client_exists by auto
  moreover have "files_of s' p = files_of s p" if "p \<notin> out_path ` set js" for p
    using other_files_kept [OF start runs] that by (auto simp: image_image)
  ultimately show ?thesis using len by auto
qed

section \<open>Clients that meet\<close>

definition calls_work :: "file_env \<Rightarrow> bool" where
  "calls_work v \<longleftrightarrow>
     fe_open_in v \<and> fe_malloc_in v \<and> fe_read_ok v \<and> fe_key_mem v \<noteq> None \<and> fe_malloc_out v \<and>
     fe_malloc_path v \<and> fe_open_out v \<and> fe_write_ok v \<and> fe_torn v = None"

abbreviation alone_file ::
  "sodium \<Rightarrow> inodes \<times> file_job \<times> file_pc \<Rightarrow> inodes \<times> file_job \<times> file_pc \<Rightarrow> bool" where
  "alone_file S \<equiv> (solo (file_client S))\<^sup>*\<^sup>*"

lemma alone_file_step:
  "file_do S j l s = (s1, l1) \<Longrightarrow> \<not> file_done l \<Longrightarrow> alone_file S (s1, j, l1) c \<Longrightarrow> alone_file S (s, j, l) c"
  by (rule converse_rtranclp_into_rtranclp [of "solo (file_client S)" _ "(s1, j, l1)"])
    (simp_all add: solo_def file_client_def)

lemma reads_input:
  assumes "calls_work (fj_env j)" "names s (fj_path j) = Some i" "size_error j (length (inode s i)) = None"
    and "seal S j (inode s i) = Inr x"
  shows "alone_file S (s, j, FStart) (s, j, FSealed x)"
proof -
  have "file_do S j FStart s = (s, FOpened i)" "file_do S j (FOpened i) s = (s, FSized i (length (inode s i)))"
    "file_do S j (FSized i (length (inode s i))) s = (s, FRead (inode s i))"
    "file_do S j (FRead (inode s i)) s = (s, FSealed x)"
    using assms by (simp_all add: calls_work_def)
  from this [THEN alone_file_step] show ?thesis by simp
qed

lemma opens_output:
  assumes "calls_work (fj_env j)" "open_trunc (out_path j) s = (i, s1)"
  shows "file_do S j (FSealed x) s = (s1, FWriting i x)"
  using assms by (simp add: calls_work_def)

lemma writes_output:
  assumes "calls_work (fj_env j)" "inode s i = []"
  shows "file_do S j (FWriting i x) s = (s\<lparr>inode := (inode s)(i := x)\<rparr>, FDone (Inr ()))"
  using assms by (simp add: calls_work_def put_at_def)

text \<open>
  One client decrypts \<open>p.szenc\<close>, which creates \<open>p\<close>, while another one encrypts \<open>p\<close>. Both can
  be told that they succeeded while \<open>p.szenc\<close>, which held the content, now holds the encryption
  of the empty file: the second client has read \<open>p\<close> between its creation and its writing.
\<close>

theorem file_clients_race:
  assumes ok: "inodes_ok s" "p \<noteq> []" "names s p = None" "names s (p @ SZENC_EXTENSION) = Some e"
    and dec: "fj_dec j" "fj_path j = p @ SZENC_EXTENSION" "calls_work (fj_env j)"
      "56 \<le> length (inode s e)" "seal S j (inode s e) = Inr content"
    and enc: "\<not> fj_dec k" "fj_path k = p" "calls_work (fj_env k)" "seal S k [] = Inr sealed"
  shows "\<exists>s'. (interleave (file_client S))\<^sup>*\<^sup>* (s, [(j, FStart), (k, FStart)])
      (s', [(j, FDone (Inr ())), (k, FDone (Inr ()))]) \<and>
    files_of s' p = Some content \<and> files_of s' (p @ SZENC_EXTENSION) = Some sealed"
proof -
  let ?i = "fresh_inode s"
  let ?s1 = "s\<lparr>names := (names s)(p \<mapsto> ?i), inode := (inode s)(?i := []), fresh_inode := Suc ?i\<rparr>"
  let ?s2 = "?s1\<lparr>inode := (inode ?s1)(e := [])\<rparr>"
  let ?s3 = "?s2\<lparr>inode := (inode ?s2)(e := sealed)\<rparr>"
  let ?s4 = "?s3\<lparr>inode := (inode ?s3)(?i := content)\<rparr>"
  have paths: "out_path j = p" "out_path k = p @ SZENC_EXTENSION" "p \<noteq> p @ SZENC_EXTENSION"
    using dec enc ok(2) decrypt_path_szenc [OF ok(2)] by (simp_all add: out_path_def SZENC_EXTENSION_def)
  have e: "e < ?i" using ok(1,4) by (simp add: inodes_ok_def)
  have "alone_file S (s, j, FStart) (s, j, FSealed content)"
    using dec ok(4) by (intro reads_input [where i = e]) (auto simp: size_error_def calls_work_def)
  moreover have "file_do S j (FSealed content) s = (?s1, FWriting ?i content)"
    by (rule opens_output [OF dec(3)]) (simp add: paths open_trunc_def ok(3))
  ultimately have "alone_file S (s, j, FStart) (?s1, j, FWriting ?i content)"
    by (meson alone_file_step file_done.simps rtranclp.rtrancl_refl rtranclp_trans)
  from solo_interleaves [OF this, of 0 "[(j, FStart), (k, FStart)]"]
  have one: "(interleave (file_client S))\<^sup>*\<^sup>* (s, [(j, FStart), (k, FStart)])
      (?s1, [(j, FWriting ?i content), (k, FStart)])" by simp
  have "alone_file S (?s1, k, FStart) (?s1, k, FSealed sealed)"
    using enc by (intro reads_input [where i = ?i]) (auto simp: size_error_def calls_work_def)
  moreover have "file_do S k (FSealed sealed) ?s1 = (?s2, FWriting e sealed)"
    by (rule opens_output [OF enc(3)]) (use ok(4) paths(3) in \<open>simp add: paths open_trunc_def\<close>)
  moreover have "file_do S k (FWriting e sealed) ?s2 = (?s3, FDone (Inr ()))"
    by (rule writes_output [OF enc(3)]) simp
  ultimately have "alone_file S (?s1, k, FStart) (?s3, k, FDone (Inr ()))"
    by (meson alone_file_step file_done.simps rtranclp.rtrancl_refl rtranclp_trans)
  from solo_interleaves [OF this, of 1 "[(j, FWriting ?i content), (k, FStart)]"]
  have two: "(interleave (file_client S))\<^sup>*\<^sup>* (?s1, [(j, FWriting ?i content), (k, FStart)])
      (?s3, [(j, FWriting ?i content), (k, FDone (Inr ()))])" by simp
  have "file_do S j (FWriting ?i content) ?s3 = (?s4, FDone (Inr ()))"
    by (rule writes_output [OF dec(3)]) (use e in simp)
  then have "alone_file S (?s3, j, FWriting ?i content) (?s4, j, FDone (Inr ()))"
    by (rule alone_file_step) simp_all
  from solo_interleaves [OF this, of 0 "[(j, FWriting ?i content), (k, FDone (Inr ()))]"]
  have three: "(interleave (file_client S))\<^sup>*\<^sup>* (?s3, [(j, FWriting ?i content), (k, FDone (Inr ()))])
      (?s4, [(j, FDone (Inr ())), (k, FDone (Inr ()))])" by simp
  have "files_of ?s4 p = Some content" "files_of ?s4 (p @ SZENC_EXTENSION) = Some sealed"
    using ok(4) paths(3) e by (simp_all add: files_of_def)
  then show ?thesis using rtranclp_trans [OF one rtranclp_trans [OF two three]] by blast
qed

section \<open>Examples\<close>

definition inodes0 :: inodes where
  "inodes0 = \<lparr>names = [''x.szenc'' \<mapsto> 0], inode = (\<lambda>_. replicate 40 7 @ [5] @ replicate 16 0), fresh_inode = 1\<rparr>"

definition job0 :: "bool \<Rightarrow> path \<Rightarrow> file_job" where
  "job0 d q = \<lparr>fj_dec = d, fj_path = q, fj_pw = ''pw'', fj_env = file_env0\<rparr>"

lemma example0:
  "inodes_ok inodes0" "calls_work file_env0" "''x'' @ SZENC_EXTENSION = ''x.szenc''"
  "seal sodium_example (job0 True ''x.szenc'') (inode inodes0 0) = Inr [5]"
  "seal sodium_example (job0 False ''x'') [] = Inr (replicate 16 7 @ replicate 24 9 @ replicate 16 0)"
  by (simp_all add: inodes_ok_def inodes0_def calls_work_def file_env0_def SZENC_EXTENSION_def seal_def job0_def
      sodium_example_def crypto_generate_salt_def crypto_random_bytes_def randombytes_buf_def map_replicate_const)

theorem file_clients_race_witness:
  "\<exists>s'. (interleave (file_client sodium_example))\<^sup>*\<^sup>* (inodes0, [(job0 True ''x.szenc'', FStart), (job0 False ''x'', FStart)])
      (s', [(job0 True ''x.szenc'', FDone (Inr ())), (job0 False ''x'', FDone (Inr ()))]) \<and>
    files_of s' ''x'' = Some [5] \<and>
    files_of s' ''x.szenc'' = Some (replicate 16 7 @ replicate 24 9 @ replicate 16 0)"
  using file_clients_race [OF example0(1), of "''x''" 0 "job0 True ''x.szenc''" sodium_example "[5]" "job0 False ''x''"
      "replicate 16 7 @ replicate 24 9 @ replicate 16 0"] example0(2-5)
  by (simp add: job0_def inodes0_def)

lemma demo_client_run:
  "\<exists>n s'. (interleave (file_client sodium_example) ^^ n)
     (inodes0, map (\<lambda>j. (j, FStart)) [job0 True ''x.szenc'', job0 False ''y''])
     (s', [(job0 True ''x.szenc'', FDone (Inr ())), (job0 False ''y'', FStart)])"
proof -
  let ?j = "job0 True ''x.szenc''" and ?S = "sodium_example"
  obtain i s1 where o: "open_trunc (out_path ?j) inodes0 = (i, s1)" by (rule prod.exhaust)
  have "inode s1 i = []" using open_trunc_frame [OF example0(1) o] by simp
  moreover have work: "calls_work (fj_env ?j)" using example0(2) by (simp add: job0_def)
  ultimately have "file_do ?S ?j (FSealed [5]) inodes0 = (s1, FWriting i [5])"
    "file_do ?S ?j (FWriting i [5]) s1 = (s1\<lparr>inode := (inode s1)(i := [5])\<rparr>, FDone (Inr ()))"
    using opens_output [OF _ o] writes_output by blast+
  moreover have "alone_file ?S (inodes0, ?j, FStart) (inodes0, ?j, FSealed [5])"
    by (rule reads_input [OF work, where i = 0])
      (use example0(4) in \<open>simp_all add: size_error_def job0_def inodes0_def file_env0_def\<close>)
  ultimately have "alone_file ?S (inodes0, ?j, FStart) (s1\<lparr>inode := (inode s1)(i := [5])\<rparr>, ?j, FDone (Inr ()))"
    by (meson alone_file_step file_done.simps rtranclp.rtrancl_refl rtranclp_trans)
  from solo_interleaves [OF this, of 0 "[(?j, FStart), (job0 False ''y'', FStart)]"] show ?thesis
    by (auto dest!: rtranclp_imp_relpowp)
qed

theorem file_clients_isolated_witness:
  "\<exists>s'. Inr () = fst (file_op sodium_example (job0 True ''x.szenc'') (files_of inodes0, mem0)) \<and>
     files_of s' ''x'' = fst (snd (file_op sodium_example (job0 True ''x.szenc'') (files_of inodes0, mem0))) ''x''"
proof -
  obtain n s' where run: "(interleave (file_client sodium_example) ^^ n)
     (inodes0, map (\<lambda>j. (j, FStart)) [job0 True ''x.szenc'', job0 False ''y''])
     (s', [(job0 True ''x.szenc'', FDone (Inr ())), (job0 False ''y'', FStart)])"
    using demo_client_run by blast
  have o: "out_path (job0 True ''x.szenc'') = ''x''" "out_path (job0 False ''y'') = ''y.szenc''"
    by (simp_all add: out_path_def job0_def decrypt_path_def SZENC_EXTENSION_def)
  show ?thesis
    using file_clients_isolated [OF example0(1) mem0_facts(2) _ run] o
    by (auto simp: job0_def less_Suc_eq nth_Cons')
qed

end
