(* ===== verification/Key_Spec.thy ===== *)
theory Key_Spec
  imports Key_Storage Refinement
begin

text \<open>
  What \<open>crypticengine/src/key_storage.c\<close> promises, without bytes, files and ciphertexts: a
  master key that accepts passwords, and a list of names with the key stored under each and the
  password it was stored with. \<open>ring_step\<close> is the abstract machine, \<open>ring_do\<close> the operations of
  the file as one function; the refinement theorem says that every sequence of operations, with
  every failure of the system in between, is answered as the abstract machine answers it.
\<close>

section \<open>Operations and answers\<close>

datatype ring_op =
    RSetup bytes bool "nat option" string
  | RVerify bool string
  | RChange bytes bool bool bool "nat option" string string
  | RStore store_env string u32 bytes string
  | RRetrieve retrieve_env string string
  | RList bool
  | RDelete string string
  | RWipe wipe_env

datatype ring_answer =
    ADone "unit res"
  | AKey "bytes res"
  | ANames "string list res"

fun ring_do :: "sodium \<Rightarrow> ring_op \<Rightarrow> fs \<times> mem_state \<Rightarrow> ring_answer \<times> fs \<times> mem_state" where
  "ring_do S (RSetup salt ok torn pw) w =
     (case keystore_master_setup S salt ok torn (Some pw) (fst w) of (r, files') \<Rightarrow> (ADone r, files', snd w))"
| "ring_do S (RVerify ok pw) w = (ADone (keystore_master_verify S ok (Some pw) (fst w)), w)"
| "ring_do S (RChange salt rok unl wok torn old_pw new_pw) w =
     (case keystore_master_change S salt rok unl wok torn (Some old_pw) (Some new_pw) (fst w) of
        (r, files') \<Rightarrow> (ADone r, files', snd w))"
| "ring_do S (RStore v name ty key pw) w =
     (case keystore_store S v (Some name) ty (Some key) (Some pw) w of (r, w') \<Rightarrow> (ADone r, w'))"
| "ring_do S (RRetrieve v name pw) w =
     (case keystore_retrieve S v (Some name) True (Some pw) w of
        (r, m') \<Rightarrow> (AKey (map_sum id snd r), fst w, m'))"
| "ring_do S (RList ok) w =
     (ANames (map_sum id (map ki_name) (keystore_list True ok (fst w))), w)"
| "ring_do S (RDelete name pw) w =
     (case keystore_delete name pw (fst w) of (r, files') \<Rightarrow> (ADone r, files', snd w))"
| "ring_do S (RWipe v) w =
     (case keystore_emergency_wipe v (fst w) of (r, _, files') \<Rightarrow> (ADone r, files', snd w))"

section \<open>The abstract machine\<close>

text \<open>
  A keyring is damaged when the file goes on, behind the keys that can be found, with bytes that
  are not a whole, well-formed record: from there on the machine promises nothing of names it
  does not know.
\<close>

record ring_spec =
  rs_set :: bool
  rs_accepts :: "string \<Rightarrow> bool"
  rs_keys :: "(string \<times> string \<times> bytes) list"
  rs_damaged :: bool

text \<open>Did the system let the operation do its work?\<close>

fun works :: "sodium \<Rightarrow> ring_op \<Rightarrow> bool" where
  "works S (RSetup salt ok torn pw) = (ok \<and> s_pwhash_str S salt pw \<noteq> None)"
| "works S (RVerify ok pw) = ok"
| "works S (RChange salt rok unl wok torn old_pw new_pw) = (rok \<and> wok \<and> s_pwhash_str S salt new_pw \<noteq> None)"
| "works S (RStore v name ty key pw) =
     (se_verify_open v \<and> se_key_mem v \<noteq> None \<and> se_malloc_ok v \<and> (se_append_ok v \<or> se_create_ok v) \<and>
      derive_normal S pw (crypto_generate_salt (se_salt v)) \<noteq> Inl ENoMem)"
| "works S (RRetrieve v name pw) =
     (re_verify_open v \<and> re_open_ok v \<and> re_malloc_ok v \<and> re_wrap_mem v \<noteq> None \<and> re_data_mem v \<noteq> None)"
| "works S (RList ok) = ok"
| "works S _ = True"

text \<open>Is what a store writes a record that the other operations can read?\<close>

definition readable :: "store_env \<Rightarrow> string \<Rightarrow> bytes \<Rightarrow> bool" where
  "readable v name key \<longleftrightarrow> length name < KEYSTORE_NAME_MAX \<and> length key + 56 < 2 ^ 32 \<and> se_torn v = None"

text \<open>
  The rules. A name finds the key that was stored under it first, also in a damaged keyring.
  Nothing is said of the answer when the key was stored with another password than the one that
  is given now. A store that succeeds adds the key; if the record cannot be read back (a name of
  64 characters or more, a key of almost 4 GB, a record that did not reach the disk as a whole)
  it damages the keyring, and a store into a damaged keyring adds nothing; a file that can be
  created but not appended to is emptied first. Where the system fails, an error is answered
  and nothing changes; but a change of the master key that fails half way leaves no master key
  (or the old one, if its file could not be removed), a list that cannot be opened is empty, and
  what a wipe leaves of files that could not be removed is the overwritten file, or the old
  one if it could not be opened either. Of a master key whose line did not reach the disk as a
  whole it is not said which passwords it accepts.
\<close>

inductive ring_step :: "sodium \<Rightarrow> ring_spec \<Rightarrow> ring_op \<Rightarrow> ring_answer \<Rightarrow> ring_spec \<Rightarrow> bool" for S where
  set_up: "\<not> rs_set p \<Longrightarrow> 16 \<le> length pw \<Longrightarrow> (torn = None \<Longrightarrow> acc pw) \<Longrightarrow>
     ring_step S p (RSetup salt ok torn pw) (ADone (Inr ())) (p\<lparr>rs_set := True, rs_accepts := acc\<rparr>)"
| setup_short: "length pw < 16 \<Longrightarrow> ring_step S p (RSetup salt ok torn pw) (ADone (Inl ETooSmall)) p"
| setup_again: "rs_set p \<Longrightarrow> ring_step S p (RSetup salt ok torn pw) (ADone (Inl EExists)) p"
| verified: "rs_accepts p pw \<Longrightarrow> ring_step S p (RVerify ok pw) (ADone (Inr ())) p"
| verify_denied: "\<not> rs_accepts p pw \<Longrightarrow> e \<in> {EOpen, EIo, EAuth} \<Longrightarrow>
     ring_step S p (RVerify ok pw) (ADone (Inl e)) p"
| change: "rs_accepts p old_pw \<Longrightarrow> 16 \<le> length new_pw \<Longrightarrow> unl \<Longrightarrow> (torn = None \<Longrightarrow> acc new_pw) \<Longrightarrow>
     ring_step S p (RChange salt rok unl wok torn old_pw new_pw) (ADone (Inr ()))
       (p\<lparr>rs_set := True, rs_accepts := acc\<rparr>)"
| change_short: "rs_accepts p old_pw \<Longrightarrow> length new_pw < 16 \<Longrightarrow>
     ring_step S p (RChange salt rok unl wok torn old_pw new_pw) (ADone (Inl ETooSmall)) p"
| change_denied: "\<not> rs_accepts p old_pw \<Longrightarrow> e \<in> {EOpen, EIo, EAuth} \<Longrightarrow>
     ring_step S p (RChange salt rok unl wok torn old_pw new_pw) (ADone (Inl e)) p"
| change_stays: "rs_accepts p old_pw \<Longrightarrow> \<not> unl \<Longrightarrow>
     ring_step S p (RChange salt rok unl wok torn old_pw new_pw) (ADone (Inl EExists)) p"
| change_lost: "rs_accepts p old_pw \<Longrightarrow> unl \<Longrightarrow> \<not> works S (RChange salt rok unl wok torn old_pw new_pw) \<Longrightarrow>
     ring_step S p (RChange salt rok unl wok torn old_pw new_pw) (ADone (Inl e))
       (p\<lparr>rs_set := False, rs_accepts := (\<lambda>_. False)\<rparr>)"
| store: "rs_accepts p pw \<Longrightarrow> key \<noteq> [] \<Longrightarrow> se_append_ok v \<Longrightarrow> readable v name key \<Longrightarrow> \<not> rs_damaged p \<Longrightarrow>
     ring_step S p (RStore v name ty key pw) (ADone (Inr ())) (p\<lparr>rs_keys := rs_keys p @ [(name, pw, key)]\<rparr>)"
| store_damages: "rs_accepts p pw \<Longrightarrow> key \<noteq> [] \<Longrightarrow> se_append_ok v \<Longrightarrow> \<not> readable v name key \<or> rs_damaged p \<Longrightarrow>
     ring_step S p (RStore v name ty key pw) (ADone (Inr ())) (p\<lparr>rs_damaged := True\<rparr>)"
| store_anew: "rs_accepts p pw \<Longrightarrow> key \<noteq> [] \<Longrightarrow> \<not> se_append_ok v \<Longrightarrow>
     ring_step S p (RStore v name ty key pw) (ADone (Inr ()))
       (p\<lparr>rs_keys := if readable v name key then [(name, pw, key)] else [], rs_damaged := \<not> readable v name key\<rparr>)"
| store_empty: "ring_step S p (RStore v name ty [] pw) (ADone (Inl EInval)) p"
| store_denied: "\<not> rs_accepts p pw \<Longrightarrow> e \<in> {EOpen, EIo, EAuth} \<Longrightarrow>
     ring_step S p (RStore v name ty key pw) (ADone (Inl e)) p"
| retrieve: "rs_accepts p pw \<Longrightarrow> map_of (rs_keys p) name = Some (pw, key) \<Longrightarrow>
     ring_step S p (RRetrieve u name pw) (AKey (Inr key)) p"
| retrieve_other: "rs_accepts p pw \<Longrightarrow> map_of (rs_keys p) name = Some (pw', key) \<Longrightarrow> pw' \<noteq> pw \<Longrightarrow>
     ring_step S p (RRetrieve u name pw) (AKey r) p"
| retrieve_missing: "rs_accepts p pw \<Longrightarrow> map_of (rs_keys p) name = None \<Longrightarrow> \<not> rs_damaged p \<Longrightarrow> e \<in> {ENotFound, EOpen} \<Longrightarrow>
     ring_step S p (RRetrieve u name pw) (AKey (Inl e)) p"
| retrieve_damaged: "rs_accepts p pw \<Longrightarrow> map_of (rs_keys p) name = None \<Longrightarrow> rs_damaged p \<Longrightarrow>
     ring_step S p (RRetrieve u name pw) (AKey r) p"
| retrieve_denied: "\<not> rs_accepts p pw \<Longrightarrow> e \<in> {EOpen, EIo, EAuth} \<Longrightarrow>
     ring_step S p (RRetrieve u name pw) (AKey (Inl e)) p"
| names: "(\<not> rs_damaged p \<Longrightarrow> ns = []) \<Longrightarrow>
     ring_step S p (RList ok) (ANames (Inr (take KEYSTORE_MAX_KEYS (map fst (rs_keys p) @ ns)))) p"
| names_closed: "ring_step S p (RList False) (ANames (Inr [])) p"
| delete: "ring_step S p (RDelete name pw) (ADone (Inl EUnsupported)) p"
| wipe: "(if wp_unlink1 v then ks = [] \<and> \<not> d
      else if wp_open1 v \<and> wp_malloc v then ks = [] \<and> d else ks = rs_keys p \<and> d = rs_damaged p) \<Longrightarrow>
     (if wp_unlink2 v \<or> \<not> rs_set p then \<not> b \<and> acc = (\<lambda>_. False) else b \<and> (wp_open2 v \<or> acc = rs_accepts p)) \<Longrightarrow>
     ring_step S p (RWipe v) (ADone (Inr ())) \<lparr>rs_set = b, rs_accepts = acc, rs_keys = ks, rs_damaged = d\<rparr>"
| failed: "\<not> works S x \<Longrightarrow> a \<in> {ADone (Inl e), AKey (Inl e)} \<Longrightarrow> ring_step S p x a p"

section \<open>Keyring files and what they stand for\<close>

text \<open>An entry that opens, with the password \<open>pw\<close>, to the key.\<close>

definition entry_rep :: "sodium \<Rightarrow> ks_entry \<Rightarrow> string \<times> string \<times> bytes \<Rightarrow> bool" where
  "entry_rep S e x \<longleftrightarrow>
     (case x of (name, pw, key) \<Rightarrow>
        entry_name e = name \<and> wf_entry e \<and> e_data e \<noteq> [] \<and> length (e_data e) + 40 < 2 ^ 32 \<and>
        (\<exists>k. derive_normal S pw (e_salt e) = Inr k \<and>
           crypto_decrypt_buffer S True (Some (e_data e)) (Some (e_nonce e)) (Some k) = Inr key))"

definition ring_rel :: "sodium \<Rightarrow> fs \<Rightarrow> ring_spec \<Rightarrow> bool" where
  "ring_rel S files p \<longleftrightarrow>
     (case files KEYSTORE_PATH of
        None \<Rightarrow> rs_keys p = []
      | Some c \<Rightarrow> \<exists>es tail. c = keyring es @ tail \<and> list_all2 (entry_rep S) es (rs_keys p) \<and>
          (\<not> rs_damaged p \<longrightarrow> tail = [])) \<and>
     rs_accepts p = (\<lambda>pw. keystore_master_verify S True (Some pw) files = Inr ()) \<and>
     (rs_set p \<longleftrightarrow> files KEYSTORE_MASTER_PATH \<noteq> None)"

text \<open>Names are C strings.\<close>

fun op_ok :: "ring_op \<Rightarrow> bool" where
  "op_ok (RStore v name ty key pw) \<longleftrightarrow> CHR 0x00 \<notin> set name"
| "op_ok _ \<longleftrightarrow> True"

section \<open>Every operation is an abstract step\<close>

lemma failed_done: "\<not> works S x \<Longrightarrow> ring_step S p x (ADone (Inl e)) p"
  and failed_key: "\<not> works S x \<Longrightarrow> ring_step S p x (AKey (Inl e)) p"
  by (rule failed; simp)+

lemma verify_error:
  "keystore_master_verify S b (Some pw) files = Inl e \<Longrightarrow> e \<in> {EOpen, EIo, EAuth}"
  by (auto simp: keystore_master_verify_def split: if_splits option.splits)

lemma verify_open:
  "keystore_master_verify S b (Some pw) files =
     (if b then keystore_master_verify S True (Some pw) files else Inl EOpen)"
  by (simp add: keystore_master_verify_def)

lemma rel_accepts:
  "ring_rel S files p \<Longrightarrow> rs_accepts p pw \<longleftrightarrow> keystore_master_verify S True (Some pw) files = Inr ()"
  by (simp add: ring_rel_def)

lemma rel_entries:
  assumes "ring_rel S files p" "files KEYSTORE_PATH = Some c"
  obtains es tail where "c = keyring es @ tail" "list_all2 (entry_rep S) es (rs_keys p)" "\<forall>e \<in> set es. wf_entry e"
    "\<not> rs_damaged p \<longrightarrow> tail = []"
proof -
  from assms obtain es tail where es: "c = keyring es @ tail" "list_all2 (entry_rep S) es (rs_keys p)"
    "\<not> rs_damaged p \<longrightarrow> tail = []"
    by (auto simp: ring_rel_def)
  from es(2) have "\<forall>e \<in> set es. wf_entry e"
    by (induction rule: list_all2_induct) (auto simp: entry_rep_def)
  with es show thesis using that by blast
qed

text \<open>What is in front of the place where the next record goes.\<close>

lemma rel_old:
  assumes "ring_rel S files p"
  obtains es tail where "(case files KEYSTORE_PATH of None \<Rightarrow> [] | Some c \<Rightarrow> c) = keyring es @ tail"
    "list_all2 (entry_rep S) es (rs_keys p)" "\<not> rs_damaged p \<longrightarrow> tail = []"
proof (cases "files KEYSTORE_PATH")
  case None
  then show thesis using assms that [of "[]" "[]"] by (simp add: ring_rel_def)
next
  case (Some c)
  then show thesis using rel_entries [OF assms Some] that by (metis option.simps(5))
qed

lemma rel_master:
  assumes "ring_rel S files p" "acc = (\<lambda>pw. keystore_master_verify S True (Some pw) (files(KEYSTORE_MASTER_PATH := h)) = Inr ())"
  shows "ring_rel S (files(KEYSTORE_MASTER_PATH := h)) (p\<lparr>rs_set := h \<noteq> None, rs_accepts := acc\<rparr>)"
  using assms by (simp add: ring_rel_def split: option.splits)

lemma rel_new_master:
  assumes "pwhash_str_correct S" "ring_rel S files p"
    and "keystore_master_setup S salt ok torn (Some pw) (files(KEYSTORE_MASTER_PATH := None)) = (Inr (), files')"
  obtains acc where "ring_rel S files' (p\<lparr>rs_set := True, rs_accepts := acc\<rparr>)" "torn = None \<Longrightarrow> acc pw" "16 \<le> length pw"
proof -
  from assms(3) obtain h where h: "files' = files(KEYSTORE_MASTER_PATH \<mapsto> h)" "16 \<le> length pw"
    by (elim master_setup_ok) simp
  let ?acc = "\<lambda>pw. keystore_master_verify S True (Some pw) files' = Inr ()"
  have "ring_rel S files' (p\<lparr>rs_set := True, rs_accepts := ?acc\<rparr>)"
    using rel_master [OF assms(2), of ?acc "Some h"] h(1) by simp
  moreover have "?acc pw" if "torn = None" using master_setup_verifies [OF assms(1)] assms(3) that by simp
  ultimately show thesis using that h(2) by blast
qed

lemma sim_setup:
  assumes "pwhash_str_correct S" "ring_rel S files p"
    and "keystore_master_setup S salt ok torn (Some pw) files = (r, files')"
  shows "\<exists>p'. ring_step S p (RSetup salt ok torn pw) (ADone r) p' \<and> ring_rel S files' p'"
proof (cases r)
  case (Inr u)
  with assms(3) have s: "keystore_master_setup S salt ok torn (Some pw) files = (Inr (), files')" by simp
  then have none: "files KEYSTORE_MASTER_PATH = None" by (elim master_setup_ok)
  then have "files(KEYSTORE_MASTER_PATH := None) = files" by (simp add: fun_upd_idem)
  with s obtain acc where "ring_rel S files' (p\<lparr>rs_set := True, rs_accepts := acc\<rparr>)" "torn = None \<Longrightarrow> acc pw" "16 \<le> length pw"
    using rel_new_master [OF assms(1,2)] by metis
  moreover have "\<not> rs_set p" using assms(2) none by (simp add: ring_rel_def)
  ultimately show ?thesis using Inr set_up [of p pw torn acc S salt ok] by auto
next
  case (Inl e)
  then have "files' = files" "length pw < 16 \<and> e = ETooSmall \<or> rs_set p \<and> e = EExists \<or> \<not> works S (RSetup salt ok torn pw)"
    using assms(2,3) by (auto simp: keystore_master_setup_def ring_rel_def split: if_splits option.splits)
  then show ?thesis using assms(2) Inl by (metis setup_short setup_again failed_done)
qed

lemma sim_verify:
  assumes "ring_rel S files p"
  shows "ring_step S p (RVerify ok pw) (ADone (keystore_master_verify S ok (Some pw) files)) p"
proof (cases "keystore_master_verify S ok (Some pw) files")
  case (Inl e)
  then have "\<not> works S (RVerify ok pw) \<or> \<not> rs_accepts p pw \<and> e \<in> {EOpen, EIo, EAuth}"
    using rel_accepts [OF assms] verify_error [OF Inl] by (cases ok) auto
  then show ?thesis using Inl by (metis verify_denied failed_done)
next
  case (Inr u)
  then have "rs_accepts p pw" using rel_accepts [OF assms] verify_open [of S ok] by (auto split: if_splits)
  then show ?thesis using Inr verified by simp
qed

lemma sim_change:
  assumes "pwhash_str_correct S" "ring_rel S files p"
    and c: "keystore_master_change S salt rok unl wok torn (Some old_pw) (Some new_pw) files = (r, files')"
  shows "\<exists>p'. ring_step S p (RChange salt rok unl wok torn old_pw new_pw) (ADone r) p' \<and> ring_rel S files' p'"
proof (cases "keystore_master_verify S rok (Some old_pw) files")
  case (Inl e)
  then have "r = Inl e" "files' = files" using c by (simp_all add: keystore_master_change_def)
  moreover have "\<not> works S (RChange salt rok unl wok torn old_pw new_pw) \<or> \<not> rs_accepts p old_pw \<and> e \<in> {EOpen, EIo, EAuth}"
    using Inl rel_accepts [OF assms(2)] verify_error [OF Inl] by (cases rok) auto
  ultimately show ?thesis using assms(2) by (metis change_denied failed_done)
next
  case (Inr u)
  then have ok: "rok" "rs_accepts p old_pw"
    using rel_accepts [OF assms(2)] verify_open [of S rok] by (auto split: if_splits)
  have there: "files KEYSTORE_MASTER_PATH \<noteq> None"
    using Inr by (auto simp: keystore_master_verify_def split: if_splits option.splits)
  let ?gone = "files(KEYSTORE_MASTER_PATH := None)"
  consider "length new_pw < 16" | "16 \<le> length new_pw" "\<not> unl" | "16 \<le> length new_pw" unl by linarith
  then show ?thesis
  proof cases
    case 1
    then have "r = Inl ETooSmall" "files' = files" using c Inr by (simp_all add: keystore_master_change_def)
    then show ?thesis using ok 1 assms(2) by (auto intro: change_short)
  next
    case 2
    then have "r = Inl EExists" "files' = files"
      using c Inr there by (simp_all add: keystore_master_change_def keystore_master_setup_def)
    then show ?thesis using ok 2 assms(2) by (auto intro: change_stays)
  next
    case 3
    then have s: "keystore_master_setup S salt wok torn (Some new_pw) ?gone = (r, files')"
      using c Inr by (simp add: keystore_master_change_def)
    show ?thesis
    proof (cases r)
      case (Inl e)
      then have "files' = ?gone" "\<not> works S (RChange salt rok unl wok torn old_pw new_pw)"
        using s 3(1) by (auto simp: keystore_master_setup_def split: if_splits option.splits)
      moreover have "\<not> keystore_master_verify S True (Some pw) ?gone = Inr ()" for pw
        by (simp add: keystore_master_verify_def)
      then have "ring_rel S ?gone (p\<lparr>rs_set := False, rs_accepts := (\<lambda>_. False)\<rparr>)"
        using rel_master [OF assms(2), of "\<lambda>_. False" None] by simp
      ultimately show ?thesis using Inl ok 3(2) by (metis change_lost)
    next
      case (Inr u)
      with s obtain acc where "ring_rel S files' (p\<lparr>rs_set := True, rs_accepts := acc\<rparr>)" "torn = None \<Longrightarrow> acc new_pw"
        using rel_new_master [OF assms(1,2)] by (metis old.unit.exhaust)
      then show ?thesis using Inr ok 3 change [of p old_pw new_pw unl torn acc S salt rok wok] by auto
    qed
  qed
qed

lemma sim_wipe:
  assumes rel: "ring_rel S files p" and w: "keystore_emergency_wipe v files = (r, ws, files')"
  shows "\<exists>p'. ring_step S p (RWipe v) (ADone r) p' \<and> ring_rel S files' p'"
proof -
  let ?ks = "if wp_unlink1 v \<or> wp_open1 v \<and> wp_malloc v then [] else rs_keys p"
  let ?d = "if wp_unlink1 v then False else wp_open1 v \<and> wp_malloc v \<or> rs_damaged p"
  let ?acc = "\<lambda>pw. keystore_master_verify S True (Some pw) files' = Inr ()"
  let ?p = "\<lparr>rs_set = files' KEYSTORE_MASTER_PATH \<noteq> None, rs_accepts = ?acc, rs_keys = ?ks, rs_damaged = ?d\<rparr>"
  have r: "r = Inr ()" using w by (auto simp: keystore_emergency_wipe_def Let_def split: prod.splits)
  have ring: "files' KEYSTORE_PATH =
      (case files KEYSTORE_PATH of None \<Rightarrow> None
       | Some c \<Rightarrow> if c = [] then Some []
           else if wp_unlink1 v then None
           else Some (overwrite_front (if wp_open1 v \<and> wp_malloc v
             then flushed (wp_torn1 v) (randombytes_buf (wp_random1 v) (length c)) else []) c))"
    and master: "files' KEYSTORE_MASTER_PATH =
      (case files KEYSTORE_MASTER_PATH of None \<Rightarrow> None
       | Some c \<Rightarrow> if wp_unlink2 v then None
           else Some (overwrite_front (if wp_open2 v
             then flushed (wp_torn2 v) (randombytes_buf (wp_random2 v) 256) else []) c))"
    using w by (auto simp: keystore_emergency_wipe_def Let_def split: option.splits if_splits)
  have keep: "overwrite_front [] c = c" for c by (simp add: overwrite_front_def)
  have keys: "case files' KEYSTORE_PATH of None \<Rightarrow> ?ks = []
      | Some c \<Rightarrow> \<exists>es tail. c = keyring es @ tail \<and> list_all2 (entry_rep S) es ?ks \<and> (\<not> ?d \<longrightarrow> tail = [])"
  proof (cases "files KEYSTORE_PATH")
    case None
    then show ?thesis using ring rel by (simp add: ring_rel_def)
  next
    case (Some c)
    then obtain es tail where es: "c = keyring es @ tail" "list_all2 (entry_rep S) es (rs_keys p)" "\<not> rs_damaged p \<longrightarrow> tail = []"
      using rel_entries [OF rel Some] by blast
    show ?thesis
    proof (cases "wp_unlink1 v \<or> wp_open1 v \<and> wp_malloc v")
      case True
      then show ?thesis using ring Some by (auto simp: keyring_def)
    next
      case False
      then have "files' KEYSTORE_PATH = Some c" using ring Some keep by auto
      then show ?thesis using False es by auto
    qed
  qed
  then have "ring_rel S files' ?p" by (simp only: ring_rel_def ring_spec.simps simp_thms)
  moreover have "if wp_unlink2 v \<or> \<not> rs_set p then files' KEYSTORE_MASTER_PATH = None \<and> ?acc = (\<lambda>_. False)
      else files' KEYSTORE_MASTER_PATH \<noteq> None \<and> (wp_open2 v \<or> ?acc = rs_accepts p)"
    using rel master keep
    by (auto simp: ring_rel_def keystore_master_verify_def split: option.splits)
  then have "ring_step S p (RWipe v) (ADone (Inr ())) ?p" by (intro wipe) (auto split: if_splits)
  ultimately show ?thesis using r by blast
qed

lemma sim_list:
  assumes "ring_rel S files p"
  shows "ring_step S p (RList ok) (ANames (map_sum id (map ki_name) (keystore_list True ok files))) p"
proof (cases "ok \<and> files KEYSTORE_PATH \<noteq> None")
  case True
  then obtain c where ok: ok and c: "files KEYSTORE_PATH = Some c" by auto
  then obtain es tail where es: "c = keyring es @ tail" "list_all2 (entry_rep S) es (rs_keys p)"
    and tail: "\<not> rs_damaged p \<longrightarrow> tail = []"
    using rel_entries [OF assms c] by blast
  from es(2) have e: "(\<forall>e \<in> set es. wf_entry e \<and> length (e_data e) + 40 < 2 ^ 32) \<and>
      map entry_name es = map fst (rs_keys p)"
    by (induction rule: list_all2_induct) (auto simp: entry_rep_def)
  let ?ns = "map ki_name (list_from (KEYSTORE_MAX_KEYS - length es) tail)"
  have len: "length (list_from n bs) \<le> n" for n bs
    by (induction n arbitrary: bs) (auto split: option.splits)
  have "map ki_name (list_from KEYSTORE_MAX_KEYS c) = take KEYSTORE_MAX_KEYS (map entry_name es) @ ?ns"
    unfolding es(1) using e by (subst list_from_keyring) (simp_all add: entry_info_def comp_def flip: take_map)
  also have "\<dots> = take KEYSTORE_MAX_KEYS (map fst (rs_keys p) @ ?ns)"
    using e len [of "KEYSTORE_MAX_KEYS - length es" tail] by (simp flip: e [THEN conjunct2])
  finally have "keystore_list True ok files = Inr (list_from KEYSTORE_MAX_KEYS c)"
    "map ki_name (list_from KEYSTORE_MAX_KEYS c) = take KEYSTORE_MAX_KEYS (map fst (rs_keys p) @ ?ns)"
    using ok c by (simp_all add: keystore_list_def)
  moreover have "ring_step S p (RList ok) (ANames (Inr (take KEYSTORE_MAX_KEYS (map fst (rs_keys p) @ ?ns)))) p"
    by (rule names) (simp add: tail)
  ultimately show ?thesis by simp
next
  case False
  then have "keystore_list True ok files = Inr []"
    by (auto simp: keystore_list_def)
  moreover have "rs_keys p = [] \<or> \<not> ok" using False assms by (auto simp: ring_rel_def)
  ultimately show ?thesis using names [of p "[]" S ok] names_closed [of S p] by auto
qed

lemma rel_keyring:
  assumes "ring_rel S files p" "list_all2 (entry_rep S) es (rs_keys q)" "\<not> rs_damaged q \<Longrightarrow> tail = []"
    and "rs_set q = rs_set p" "rs_accepts q = rs_accepts p"
  shows "ring_rel S (files(KEYSTORE_PATH \<mapsto> keyring es @ tail)) q"
  using assms by (auto simp: ring_rel_def keystore_verify_frame)

lemma sim_stored:
  assumes laws: "aead_correct S" "pwhash_sized S"
    and rel: "ring_rel S files p" and ok: "CHR 0x00 \<notin> set name"
    and s: "keystore_store S v (Some name) ty (Some key) (Some pw) (files, m) = (Inr (), files', m')"
  shows "\<exists>p'. ring_step S p (RStore v name ty key pw) (ADone (Inr ())) p' \<and> ring_rel S files' p'"
proof -
  let ?salt = "crypto_generate_salt (se_salt v)" and ?nonce = "crypto_random_bytes (se_nonce v) 24"
  from s obtain k ct where
    ver: "keystore_master_verify S (se_verify_open v) (Some pw) files = Inr ()"
    and k: "derive_normal S pw ?salt = Inr k"
    and ct: "crypto_encrypt_buffer S True (Some key) (Some ?nonce) (Some k) = Inr ct"
    and files': "files' = files(KEYSTORE_PATH \<mapsto>
       (if se_append_ok v then (case files KEYSTORE_PATH of None \<Rightarrow> [] | Some c \<Rightarrow> c) else []) @
       written v (put_entry \<lparr>e_name = to_bytes name, e_type = ty, e_created = se_time v,
         e_salt = ?salt, e_nonce = ?nonce, e_data = ct\<rparr>))"
    by (elim keystore_store_ok)
  let ?e = "\<lparr>e_name = to_bytes name, e_type = ty, e_created = se_time v, e_salt = ?salt, e_nonce = ?nonce, e_data = ct\<rparr>"
  have key: "key \<noteq> []"
    using s by (auto simp: keystore_store_def)
  have len: "length ct = length key + 16"
    using cc.seal_length [of S key _ k ct] laws ct by blast
  have pt: "crypto_decrypt_buffer S True (Some ct) (Some ?nonce) (Some k) = Inr key"
    by (rule cc.open_sealed [OF _ _ k ct]) (simp_all add: laws)
  have rep: "entry_rep S ?e (name, pw, key) \<and> written v (put_entry ?e) = keyring [?e]" if "readable v name key"
    unfolding entry_rep_def using that ok k pt len
    by (auto simp: wf_entry_def entry_name_def readable_def written_def simp del: derive_key_Some decrypt_buffer_Some)
  have acc: "rs_accepts p pw"
    using ver rel_accepts [OF rel] verify_open [of S "se_verify_open v"] by (auto split: if_splits)
  obtain es tail where old: "(case files KEYSTORE_PATH of None \<Rightarrow> [] | Some c \<Rightarrow> c) = keyring es @ tail"
    "list_all2 (entry_rep S) es (rs_keys p)" "\<not> rs_damaged p \<longrightarrow> tail = []"
    using rel_old [OF rel] by blast
  consider "se_append_ok v" "readable v name key" "\<not> rs_damaged p"
    | "se_append_ok v" "\<not> readable v name key \<or> rs_damaged p" | "\<not> se_append_ok v" by blast
  then show ?thesis
  proof cases
    case 1
    have "ring_rel S (files(KEYSTORE_PATH \<mapsto> keyring (es @ [?e]) @ [])) (p\<lparr>rs_keys := rs_keys p @ [(name, pw, key)]\<rparr>)"
      by (rule rel_keyring [OF rel]) (use old(2) rep [OF 1(2)] in \<open>auto intro: list_all2_appendI\<close>)
    then show ?thesis
      using store [OF acc key 1] old(1,3) 1 rep [OF 1(2)] by (auto simp: files')
  next
    case 2
    have "ring_rel S (files(KEYSTORE_PATH \<mapsto> keyring es @ (tail @ written v (put_entry ?e)))) (p\<lparr>rs_damaged := True\<rparr>)"
      by (rule rel_keyring [OF rel]) (use old(2) in auto)
    then show ?thesis using store_damages [OF acc key 2] old(1) 2(1) by (auto simp: files')
  next
    case 3
    let ?p = "p\<lparr>rs_keys := if readable v name key then [(name, pw, key)] else [], rs_damaged := \<not> readable v name key\<rparr>"
    have "ring_rel S (files(KEYSTORE_PATH \<mapsto> keyring (if readable v name key then [?e] else []) @
        (if readable v name key then [] else written v (put_entry ?e)))) ?p"
      by (rule rel_keyring [OF rel]) (use rep in auto)
    then have "ring_rel S files' ?p" using 3 rep by (simp add: files' split: if_splits)
    then show ?thesis using store_anew [OF acc key 3] by blast
  qed
qed

lemma sim_store:
  assumes laws: "aead_correct S" "aead_total S" "pwhash_sized S"
    and rel: "ring_rel S files p" and ok: "op_ok (RStore v name ty key pw)" and m: "initialized m"
    and st: "keystore_store S v (Some name) ty (Some key) (Some pw) (files, m) = (r, files', m')"
  shows "\<exists>p'. ring_step S p (RStore v name ty key pw) (ADone r) p' \<and> ring_rel S files' p'"
proof (cases r)
  case (Inr u)
  then show ?thesis using sim_stored [OF laws(1,3) rel] ok st by simp
next
  case (Inl e)
  note fails = st [unfolded Inl] keystore_store_def Let_def
  have "files' = files"
    using fails(1)
    by (auto simp: fails(2,3) simp del: derive_key_Some encrypt_buffer_Some
        split: if_splits sum.splits option.splits prod.splits)
  moreover have "key = [] \<and> e = EInval \<or> \<not> works S (RStore v name ty key pw) \<or>
      \<not> rs_accepts p pw \<and> e \<in> {EOpen, EIo, EAuth}"
  proof (cases "key = []")
    case True
    then show ?thesis using fails(1) by (simp add: fails(2))
  next
    case False
    show ?thesis
    proof (cases "keystore_master_verify S (se_verify_open v) (Some pw) files")
      case (Inl x)
      then have "e = x" using fails(1) False by (simp add: fails(2))
      then show ?thesis
        using Inl verify_error [OF Inl] rel_accepts [OF rel] by (cases "se_verify_open v") auto
    next
      case (Inr u)
      have total: "s_aead_encrypt S key (crypto_random_bytes rnd 24) k \<noteq> None"
        if "s_pwhash S 32 pw salt a b = Some k" for rnd k salt a b
        using laws(2,3) that by (simp add: aead_total_def pwhash_sized_def)
      have "\<not> works S (RStore v name ty key pw)"
        using fails(1) False Inr m ok
        by (auto dest: total simp: fails(2,3) secure_alloc_def split: if_splits sum.splits option.splits prod.splits)
      then show ?thesis by blast
    qed
  qed
  ultimately show ?thesis using rel Inl by (metis store_empty store_denied failed_done)
qed

lemma scan_rep:
  assumes "list_all2 (entry_rep S) es ks"
  shows "case map_of ks name of
      None \<Rightarrow> scan_for name (keyring es @ tail) = scan_for name tail
    | Some x \<Rightarrow> \<exists>e rest. entry_rep S e (name, x) \<and> scan_for name (keyring es @ tail) =
        ScanFound (e_salt e) (e_nonce e) (word_of_nat (length (e_data e))) (e_data e @ rest)"
  using assms
proof (induction rule: list_all2_induct)
  case (Cons e es x ks)
  have e: "entry_rep S e (fst x, snd x)" "entry_name e = fst x" "wf_entry e"
    using Cons.hyps(1) by (auto simp: entry_rep_def split: prod.splits)
  show ?case
  proof (cases "fst x = name")
    case True
    then show ?thesis using e scan_hit [OF e(3), of name "keyring es @ tail"] by (cases x) auto
  next
    case False
    have "scan_for name (keyring [e] @ keyring es @ tail) = scan_for name (keyring es @ tail)"
      by (rule scan_skip) (use e False in auto)
    then have "scan_for name (keyring (e # es) @ tail) = scan_for name (keyring es @ tail)" by simp
    moreover have "map_of (x # ks) name = map_of ks name" using False by (cases x) simp
    ultimately show ?thesis using Cons.IH by (simp only:)
  qed
qed simp

lemma retrieve_works:
  assumes "keystore_retrieve S u (Some name) True (Some pw) (files, m) = (Inr z, m')"
  shows "works S (RRetrieve u name pw)"
  using assms
  by (auto simp: keystore_retrieve_def keystore_master_verify_def secure_alloc_def
      split: if_splits sum.splits option.splits prod.splits ks_scan.splits)

lemma retrieve_found:
  assumes "entry_rep S e (name, pw, key)" "files KEYSTORE_PATH = Some c"
    and "scan_for name c = ScanFound (e_salt e) (e_nonce e) (word_of_nat (length (e_data e))) (e_data e @ rest)"
    and "keystore_master_verify S True (Some pw) files = Inr ()" "initialized m" "works S (RRetrieve u name pw)"
  shows "map_sum id snd (fst (keystore_retrieve S u (Some name) True (Some pw) (files, m))) = Inr key"
proof -
  from assms(1) obtain k where e: "wf_entry e" "e_data e \<noteq> []" "derive_normal S pw (e_salt e) = Inr k"
    "crypto_decrypt_buffer S True (Some (e_data e)) (Some (e_nonce e)) (Some k) = Inr key"
    by (auto simp: entry_rep_def simp del: derive_key_Some decrypt_buffer_Some)
  have el: "unat (word_of_nat (length (e_data e)) :: u32) = length (e_data e)"
    using e(1) by (simp add: wf_entry_def unat_word_of_nat_32)
  moreover have "(ucast (word_of_nat (length (e_data e)) :: u32) :: u64) \<noteq> 0"
    by (metis el e(2) unat_ucast_32_64 unsigned_0 length_0_conv)
  ultimately show ?thesis
    using assms(2-) e(3,4)
    by (auto simp: keystore_retrieve_def secure_alloc_def tracker_add_def fread_all_def
        simp del: derive_key_Some decrypt_buffer_Some)
qed

lemma sim_retrieve:
  assumes rel: "ring_rel S files p" and m: "initialized m"
    and rt: "keystore_retrieve S u (Some name) True (Some pw) (files, m) = (r, m')"
  shows "ring_step S p (RRetrieve u name pw) (AKey (map_sum id snd r)) p"
proof (cases "works S (RRetrieve u name pw)")
  case False
  then obtain e where "r = Inl e" using retrieve_works [of S u name pw files m] rt by (cases r) auto
  then show ?thesis using failed_key [OF False] by simp
next
  case True
  show ?thesis
  proof (cases "keystore_master_verify S True (Some pw) files")
    case (Inl e)
    then have "r = Inl e" using rt True by (simp add: keystore_retrieve_def)
    then show ?thesis using Inl verify_error [OF Inl] rel_accepts [OF rel] by (auto intro: retrieve_denied)
  next
    case (Inr x)
    then have acc: "rs_accepts p pw" using rel_accepts [OF rel] by simp
    show ?thesis
    proof (cases "files KEYSTORE_PATH")
      case None
      then have "r = Inl EOpen" "rs_keys p = []"
        using rt True Inr rel by (auto simp: keystore_retrieve_def ring_rel_def)
      then show ?thesis
        using acc retrieve_missing [of p pw name EOpen S u] retrieve_damaged [of p pw name S u] by (cases "rs_damaged p") auto
    next
      case ring: (Some c)
      then obtain es tail where es: "c = keyring es @ tail" "list_all2 (entry_rep S) es (rs_keys p)"
        and tail: "\<not> rs_damaged p \<longrightarrow> tail = []"
        using rel_entries [OF rel ring] by blast
      show ?thesis
      proof (cases "map_of (rs_keys p) name")
        case None
        show ?thesis
        proof (cases "rs_damaged p")
          case False
          then have "r = Inl ENotFound"
            using scan_rep [OF es(2), of name tail] rt True Inr ring es(1) tail None
            by (simp add: keystore_retrieve_def scan_nil)
          then show ?thesis using acc None False by (auto intro: retrieve_missing)
        qed (use acc None in \<open>auto intro: retrieve_damaged\<close>)
      next
        case (Some y)
        then obtain pw' key where y: "map_of (rs_keys p) name = Some (pw', key)" by (cases y) auto
        show ?thesis
        proof (cases "pw' = pw")
          case False
          then show ?thesis by (rule retrieve_other [OF acc y])
        next
          case True
          with y scan_rep [OF es(2), of name tail] obtain e rest where "entry_rep S e (name, pw, key)"
            "scan_for name c = ScanFound (e_salt e) (e_nonce e) (word_of_nat (length (e_data e))) (e_data e @ rest)"
            using es(1) by auto
          then have "map_sum id snd r = Inr key"
            using retrieve_found [of S e name pw key files c rest m u] rt m Inr ring \<open>works S (RRetrieve u name pw)\<close>
            by simp
          then show ?thesis using retrieve [OF acc, of name key S u] y True by simp
        qed
      qed
    qed
  qed
qed

lemma ring_do_initialized:
  "initialized (snd w) \<Longrightarrow> ring_do S x w = (b, w') \<Longrightarrow> initialized (snd w')"
proof -
  have a: "initialized (snd (secure_alloc sm node sz m)) = initialized m" for sm node sz m
    by (simp add: secure_alloc_def tracker_add_def split: option.splits)
  have f: "initialized (secure_free q sz m) = initialized m" for q sz m
    by (cases q) (simp_all add: secure_free_def tracker_remove_def sodium_free_def split: option.splits)
  have r: "initialized (write_region q d m) = initialized m" for q d m
    by (simp add: write_region_def split: option.splits)
  have af: "secure_alloc sm node sz m = (q, m1) \<Longrightarrow> initialized m1 = initialized m" for sm node sz m q m1
    using a [of sm node sz m] by simp
  assume "initialized (snd w)" "ring_do S x w = (b, w')"
  then show "initialized (snd w')"
    by (cases x)
      (auto simp: keystore_store_def keystore_retrieve_def Let_def f r dest!: af
        simp del: derive_key_Some encrypt_buffer_Some decrypt_buffer_Some
        split: if_splits sum.splits option.splits prod.splits ks_scan.splits)
qed

lemma ring_simulation:
  assumes laws: "aead_correct S" "aead_total S" "pwhash_sized S" "pwhash_str_correct S"
    and rel: "ring_rel S (fst w) p" and ok: "op_ok x" "initialized (snd w)"
    and do: "ring_do S x w = (a, w')"
  shows "\<exists>p'. ring_step S p x a p' \<and> ring_rel S (fst w') p'"
proof -
  obtain files m where w: "w = (files, m)" by (rule prod.exhaust)
  note rel = rel [unfolded w fst_conv] and m = ok(2) [unfolded w snd_conv] and do = do [unfolded w]
  show ?thesis
  proof (cases x)
    case (RSetup salt fok torn pw)
    then show ?thesis using do sim_setup [OF laws(4) rel] by (auto split: prod.splits)
  next
    case (RVerify fok pw)
    then show ?thesis using do rel sim_verify [OF rel, of fok pw] by (auto intro!: exI [of _ p])
  next
    case (RChange salt rok unl wok torn old_pw new_pw)
    then show ?thesis using do sim_change [OF laws(4) rel] by (auto split: prod.splits)
  next
    case (RStore v name ty key pw)
    then show ?thesis using do sim_store [OF laws(1-3) rel _ m, of v name ty key pw] ok(1) by (cases w') (auto split: prod.splits)
  next
    case (RRetrieve u name pw)
    then show ?thesis
      using do rel sim_retrieve [OF rel m, of u name pw] by (auto split: prod.splits intro!: exI [of _ p])
  next
    case (RList fok)
    then show ?thesis using do rel sim_list [OF rel, of fok] by (auto intro!: exI [of _ p])
  next
    case (RDelete name pw)
    then show ?thesis using do rel delete by (auto simp: keystore_delete_def intro!: exI [of _ p])
  next
    case (RWipe v)
    then show ?thesis using do sim_wipe [OF rel] by (auto split: prod.splits)
  qed
qed

definition sodium_laws :: "sodium \<Rightarrow> bool" where
  "sodium_laws S \<longleftrightarrow> aead_correct S \<and> aead_total S \<and> pwhash_sized S \<and> pwhash_str_correct S"

definition ring_stands :: "sodium \<Rightarrow> fs \<times> mem_state \<Rightarrow> ring_spec \<Rightarrow> bool" where
  "ring_stands S w p \<longleftrightarrow> sodium_laws S \<and> initialized (snd w) \<and> ring_rel S (fst w) p"

interpretation ring: refinement "ring_do S" "ring_step S" "ring_stands S" op_ok
  for S
proof unfold_locales
  fix w p x a w'
  assume "ring_stands S w p" "op_ok x" "ring_do S x w = (a, w')"
  then show "\<exists>p'. ring_step S p x a p' \<and> ring_stands S w' p'"
    using ring_simulation [of S w p x a w'] ring_do_initialized [of w S x a w']
    by (auto simp: ring_stands_def sodium_laws_def)
qed

text \<open>
  C10: the key storage refines the abstract machine: started on files that stand for an
  abstract state, every sequence of operations, with any failure of the system in between,
  answers as the abstract machine may answer, and ends on files that stand for the state it
  ends in. A name finds the key that was stored first under it, unchanged, as long as the
  password is accepted that it was stored with; a record that cannot be read back (too long a
  name, a torn write) is reported as stored and from then on the machine promises only the
  keys in front of it.
\<close>

theorem keyring_refinement:
  assumes "aead_correct S" "aead_total S" "pwhash_sized S" "pwhash_str_correct S"
    and "ring_rel S files p" "\<forall>x \<in> set xs. op_ok x" "initialized m"
    and "run_ops (ring_do S) xs (files, m) = (as, files', m')"
  shows "\<exists>p'. op_trace (ring_step S) p xs as p' \<and> ring_rel S files' p'"
  using ring.runs_refine [of S "(files, m)" p xs as "(files', m')"] assms
  by (auto simp: ring_stands_def sodium_laws_def)

definition ring_spec0 :: ring_spec where
  "ring_spec0 = \<lparr>rs_set = False, rs_accepts = (\<lambda>_. False), rs_keys = [], rs_damaged = False\<rparr>"

definition ring_ops0 :: "ring_op list" where
  "ring_ops0 = [RSetup [] True None master_pw0, RVerify True master_pw0, RVerify True ''another key'',
     RStore store_env0 ''ssh'' 1 [1, 2, 3] master_pw0, RStore store_env0 ''ssh'' 1 [4] master_pw0,
     RStore (store_env0\<lparr>se_torn := Some 3\<rparr>) ''torn'' 1 [5] master_pw0,
     RRetrieve retrieve_env0 ''ssh'' master_pw0, RList True]"

theorem keyring_refinement_witness:
  "\<exists>as files' m' p'. run_ops (ring_do sodium_example) ring_ops0 (Map.empty, mem0) = (as, files', m') \<and>
     op_trace (ring_step sodium_example) ring_spec0 ring_ops0 as p' \<and> ring_rel sodium_example files' p'"
proof -
  have "ring_rel sodium_example Map.empty ring_spec0"
    by (simp add: ring_rel_def ring_spec0_def keystore_master_verify_def)
  moreover have "\<forall>x \<in> set ring_ops0. op_ok x"
    by (simp add: ring_ops0_def)
  ultimately show ?thesis
    using keyring_refinement [OF sodium_example_laws(1-3,6), of Map.empty ring_spec0 ring_ops0 mem0] mem0_facts(2)
    by (metis prod.collapse)
qed

end
