(* ===== verification/Container_Spec.thy ===== *)
theory Container_Spec
  imports Hidden_Container Refinement
begin

text \<open>
  What \<open>crypticengine/src/hidden_container.c\<close> promises of its table, without the array: the list
  of the names of the open containers, at most 16. A name is stored cut to 63 characters but
  looked for as a whole, so that a container with a longer name can be opened again and again
  and is not found by its name; the abstract machine says so. The programs the file runs may
  fail at any time; the abstract machine leaves open when, but not what an answer means.
\<close>

datatype box_op =
    BCreate string nat string
  | BOpen string string
  | BClose string
  | BDestroy string string
  | BCloseAll
  | BNames
  | BInfo string

datatype box_answer =
    BDone "unit res"
  | BList "string list"
  | BState "container_state res"

fun box_do :: "co_env \<times> box_op \<Rightarrow> fs \<times> cont_state \<Rightarrow> box_answer \<times> fs \<times> cont_state" where
  "box_do (e, BCreate name sz pw) w =
     (case container_create e (Some name) sz (Some pw) w of (r, w') \<Rightarrow> (BDone r, w'))"
| "box_do (e, BOpen name pw) w =
     (case container_open e (Some name) (Some pw) w of (r, w') \<Rightarrow> (BDone r, w'))"
| "box_do (e, BClose name) w =
     (case container_close e (Some name) w of (r, w') \<Rightarrow> (BDone r, w'))"
| "box_do (e, BDestroy name pw) w =
     (case container_destroy e (Some name) (Some pw) w of (r, w') \<Rightarrow> (BDone r, w'))"
| "box_do (e, BCloseAll) w = (BDone (Inr ()), container_close_all e w)"
| "box_do (e, BNames) w = (BList (map cname (fst (container_list (snd w)))), w)"
| "box_do (e, BInfo name) w = (BState (map_sum id cstate (container_get_info name (snd w))), w)"

section \<open>The abstract machine\<close>

inductive box_step :: "string list \<Rightarrow> co_env \<times> box_op \<Rightarrow> box_answer \<Rightarrow> string list \<Rightarrow> bool" where
  box_create: "box_step ns (e, BCreate name sz pw) (BDone r) ns"
| box_open_again: "name \<in> set ns \<Longrightarrow> box_step ns (e, BOpen name pw) (BDone (Inr ())) ns"
| box_open: "name \<notin> set ns \<Longrightarrow> length ns < CONTAINER_MAX_ACTIVE \<Longrightarrow>
     box_step ns (e, BOpen name pw) (BDone (Inr ())) (ns @ [take 63 name])"
| box_open_failed: "name \<notin> set ns \<Longrightarrow> box_step ns (e, BOpen name pw) (BDone (Inl err)) ns"
| box_close: "name \<in> set ns \<Longrightarrow> box_step ns (e, BClose name) (BDone (Inr ())) (remove1 name ns)"
| box_close_none: "name \<notin> set ns \<Longrightarrow> box_step ns (e, BClose name) (BDone (Inl ENotFound)) ns"
| box_destroy: "box_step ns (e, BDestroy name pw) (BDone (Inr ())) (remove1 name ns)"
| box_close_all: "box_step ns (e, BCloseAll) (BDone (Inr ())) []"
| box_names: "box_step ns (e, BNames) (BList ns) ns"
| box_info: "name \<in> set ns \<Longrightarrow> box_step ns (e, BInfo name) (BState (Inr CONTAINER_STATE_OPEN)) ns"
| box_info_none: "name \<notin> set ns \<Longrightarrow> box_step ns (e, BInfo name) (BState (Inl ENotFound)) ns"

definition box_rel :: "fs \<times> cont_state \<Rightarrow> string list \<Rightarrow> bool" where
  "box_rel w ns \<longleftrightarrow> cont_inv (snd w) \<and> ns = map cname (cactive (snd w))"

text \<open>The names in the list fit their buffer; they differ as long as only such names are opened.\<close>

lemma box_names_fit: "op_trace box_step ns xs as ns' \<Longrightarrow> \<forall>n \<in> set ns. length n < 64 \<Longrightarrow> \<forall>n \<in> set ns'. length n < 64"
proof (induction rule: op_trace.induct)
  case (trace_step ns x a ns1 xs as ns2)
  from trace_step(1,4) have "\<forall>n \<in> set ns1. length n < 64"
    by cases (auto dest: notin_set_remove1 set_remove1_subset [THEN subsetD])
  then show ?case by (rule trace_step(3))
qed

lemma box_names_differ:
  "op_trace box_step ns xs as ns' \<Longrightarrow> distinct ns \<Longrightarrow>
   \<forall>e name pw. (e, BOpen name pw) \<in> set xs \<longrightarrow> length name < CONTAINER_NAME_MAX \<Longrightarrow> distinct ns'"
proof (induction rule: op_trace.induct)
  case (trace_step ns x a ns1 xs as ns2)
  have "take 63 name = name" if "x = (e, BOpen name pw)" for e name pw
    using trace_step(5) [rule_format, of e name pw] that by simp
  with trace_step(1,4) have "distinct ns1" by cases (auto simp: distinct_remove1)
  then show ?case using trace_step(3,5) by auto
qed

section \<open>Every operation is an abstract step\<close>

lemma map_remove_key: "map key (remove_key key k es) = remove1 k (map key es)"
  by (induction es) auto

lemma box_rel_same:
  "box_rel w ns \<Longrightarrow> containers (snd w') = containers (snd w) \<Longrightarrow> container_count (snd w') = container_count (snd w) \<Longrightarrow>
   box_rel w' ns"
  using cactive_cong [of "snd w'" "snd w"] by (auto simp: box_rel_def)

lemma box_rel_find:
  "box_rel w ns \<Longrightarrow> find_container name (snd w) = None \<longleftrightarrow> name \<notin> set ns"
  by (auto simp: box_rel_def find_container_eq find_key_None)

lemma box_rel_close: "box_rel w ns \<Longrightarrow> box_rel (snd (container_close e (Some name) w)) (remove1 name ns)"
  by (auto simp: box_rel_def close_inv close_active map_remove_key)

lemma close_answer:
  assumes "box_rel w ns"
  shows "fst (container_close e (Some name) w) = (if name \<in> set ns then Inr () else Inl ENotFound)"
proof (cases "find_container name (snd w)")
  case None
  then show ?thesis using box_rel_find [OF assms, of name] by (simp add: container_close_def)
next
  case (Some i)
  then have "cstate (containers (snd w) ! i) = CONTAINER_STATE_OPEN"
    using found_open(2) assms by (simp add: box_rel_def)
  then show ?thesis using Some box_rel_find [OF assms, of name] by (simp add: container_close_def Let_def)
qed

lemma sim_open:
  assumes "box_rel w ns" "container_open e (Some name) (Some pw) w = (r, w')"
  shows "\<exists>ns'. box_step ns (e, BOpen name pw) (BDone r) ns' \<and> box_rel w' ns'"
proof -
  have inv: "cont_inv (snd w)" using assms(1) by (simp add: box_rel_def)
  from inv assms(2) show ?thesis
  proof (cases rule: open_cases)
    case already
    then show ?thesis using box_rel_find [OF assms(1), of name] assms(1) by (auto intro: box_open_again)
  next
    case (failed err)
    have "name \<notin> set ns"
    proof
      assume "name \<in> set ns"
      then obtain i where i: "find_container name (snd w) = Some i"
        using box_rel_find [OF assms(1), of name] by auto
      then show False
        using found_open(2) [OF inv i] assms(2) failed(1) by (simp add: container_open_def)
    qed
    then show ?thesis using failed assms(1) by (auto simp: box_rel_def intro: box_open_failed)
  next
    case (opened base c)
    then have new: "name \<notin> set ns" using box_rel_find [OF assms(1)] by simp
    have "length (cactive (snd w')) \<le> CONTAINER_MAX_ACTIVE"
      using opened(4) by (simp add: cont_inv_def cactive_def)
    then have room: "length ns < CONTAINER_MAX_ACTIVE"
      using opened(3) assms(1) by (simp add: box_rel_def)
    have "box_rel w' (ns @ [take 63 name])"
      using opened assms(1) new by (auto simp: box_rel_def open_slot_def strncpy_buf_def)
    then show ?thesis using opened(1) box_open [OF new room] by blast
  qed
qed

lemma sim_destroy:
  assumes "box_rel w ns" "container_destroy e (Some name) (Some pw) w = (r, w')"
  shows "r = Inr () \<and> box_rel w' (remove1 name ns)"
proof -
  have "r = Inr ()" using assms(2) by (auto simp: container_destroy_def Let_def split: prod.splits)
  moreover have "box_rel w' (remove1 name ns)"
    using destroy_table [of e name pw w] box_rel_close [OF assms(1), of e name] assms(2) by (auto simp: box_rel_def)
  ultimately show ?thesis by blast
qed

lemma sim_info:
  assumes "box_rel w ns"
  shows "map_sum id cstate (container_get_info name (snd w)) =
    (if name \<in> set ns then Inr CONTAINER_STATE_OPEN else Inl ENotFound)"
proof (cases "find_container name (snd w)")
  case None
  then show ?thesis using box_rel_find [OF assms, of name] by (simp add: container_get_info_def)
next
  case (Some i)
  then show ?thesis
    using box_rel_find [OF assms, of name] found_open(2) [of "snd w" name i] assms
    by (simp add: container_get_info_def box_rel_def)
qed

interpretation box: refinement box_do box_step box_rel "\<lambda>_. True"
proof unfold_locales
  fix w ns x a w'
  assume rel: "box_rel w ns" and do: "box_do x w = (a, w')"
  obtain e y where x: "x = (e, y)" by (rule prod.exhaust)
  show "\<exists>ns'. box_step ns x a ns' \<and> box_rel w' ns'"
  proof (cases y)
    case (BCreate name sz pw)
    have "box_rel (snd (container_create e (Some name) sz (Some pw) w)) ns"
      using box_rel_same [OF rel] create_frame [of e "Some name" sz "Some pw" w] by blast
    moreover obtain r where "container_create e (Some name) sz (Some pw) w = (r, w')" "a = BDone r"
      using do by (auto simp: x BCreate split: prod.splits)
    ultimately show ?thesis using x BCreate box_create by (auto intro!: exI [of _ ns])
  next
    case (BOpen name pw)
    then show ?thesis using do x sim_open [OF rel, of e name pw] by (cases w') (auto split: prod.splits)
  next
    case (BClose name)
    obtain r where r: "container_close e (Some name) w = (r, w')" "a = BDone r"
      using do by (auto simp: x BClose split: prod.splits)
    have rel': "box_rel w' (remove1 name ns)" using box_rel_close [OF rel, of e name] r(1) by simp
    have "r = (if name \<in> set ns then Inr () else Inl ENotFound)"
      using close_answer [OF rel, of e name] r(1) by simp
    then have "box_step ns x a (remove1 name ns)"
      using box_close [of name ns e] box_close_none [of name ns e] r(2) by (simp add: x BClose remove1_idem)
    then show ?thesis using rel' by blast
  next
    case (BDestroy name pw)
    then obtain r where r: "container_destroy e (Some name) (Some pw) w = (r, w')" "a = BDone r"
      using do by (auto simp: x split: prod.splits)
    then show ?thesis using sim_destroy [OF rel r(1)] box_destroy x BDestroy by (auto intro!: exI [of _ "remove1 name ns"])
  next
    case BCloseAll
    have "box_rel (container_close_all e w) []"
      using close_all_empties [of w e] rel by (simp add: box_rel_def)
    then show ?thesis using do x BCloseAll box_close_all by auto
  next
    case BNames
    have "a = BList ns" "w' = w" using do x BNames rel by (auto simp: container_list_def box_rel_def cactive_def)
    then show ?thesis using x BNames rel box_names by blast
  next
    case (BInfo name)
    then have "a = BState (if name \<in> set ns then Inr CONTAINER_STATE_OPEN else Inl ENotFound)" "w' = w"
      using do x sim_info [OF rel, of name] by simp_all
    then show ?thesis using x BInfo rel box_info box_info_none by (cases "name \<in> set ns") (auto intro!: exI [of _ ns])
  qed
qed


definition box_ops0 :: "(co_env \<times> box_op) list" where
  "box_ops0 = [(co_demo, BOpen ''tax'' ''pw''), (co_demo, BOpen ''tax'' ''other''), (co_demo, BNames),
     (co_demo, BClose ''tax''), (co_demo, BClose ''tax''), (co_demo, BNames)]"

lemma box_run0:
  "fst (run_ops box_do box_ops0 (demo_files, cont_start)) =
     [BDone (Inr ()), BDone (Inr ()), BList [''tax''], BDone (Inr ()), BDone (Inl ENotFound), BList []]"
  by code_simp


end
