(* ===== verification/Shell_Vault.thy ===== *)
theory Shell_Vault
  imports Shell_Daemon Container_Threads
begin

text \<open>
  The command \<open>vault\<close> of the shell (\<open>cmd_vault\<close> in \<open>shell/src/crypto_cmds.c\<close>) over the daemon
  (\<open>handle_command\<close> in \<open>crypticengine/daemon/crypticd.c\<close>) and the containers: the requests for
  creating and opening a container are parsed back, up to the first quote in the password, and
  what is created at the prompt is opened at the prompt with the password that was typed last,
  as far as the daemon sees it, and with no other.
\<close>

section \<open>Requests for containers are parsed back\<close>

definition create_request :: "string \<Rightarrow> nat \<Rightarrow> string \<Rightarrow> string" where
  \<open>create_request nm sz pw =
     ''{"cmd":"container_create","name":"'' @ nm @ ''","size":'' @ fmt_nat sz @ '',"password":"'' @ pw @ ''"}''\<close>

definition open_request :: "string \<Rightarrow> string \<Rightarrow> string" where
  \<open>open_request nm pw = ''{"cmd":"container_open","name":"'' @ nm @ ''","password":"'' @ pw @ ''"}''\<close>

lemma fmt_nat_no_quote: "DQ \<notin> set (fmt_nat n)" "CHR 0x00 \<notin> set (fmt_nat n)"
  using fmt_nat_digits [of n] by (auto simp: isdigit_def)

text \<open>The requests do not escape the password: the daemon sees it up to its first quote.\<close>

definition before_quote :: "string \<Rightarrow> string" where
  "before_quote pw = takeWhile (\<lambda>c. c \<noteq> DQ) pw"

lemma before_quote_clean [simp]: "clean pw \<Longrightarrow> before_quote pw = pw" "DQ \<notin> set (before_quote pw)"
  unfolding before_quote_def clean_def by (auto simp: takeWhile_eq_all_conv dest: set_takeWhileD)

lemma quote_cut: "\<exists>rest. pw @ DQ # t = before_quote pw @ DQ # rest"
  by (induction pw) (auto simp: before_quote_def)

lemma create_fields:
  assumes "DQ \<notin> set nm"
  shows "extract_field True (create_request nm sz pw) ''cmd'' = Some ''container_create''"
    "extract_field True (create_request nm sz pw) ''name'' = Some nm"
    "extract_field True (create_request nm sz pw) ''password'' = Some (before_quote pw)"
    "sz < 2 ^ 31 \<Longrightarrow> extract_int (create_request nm sz pw) ''size'' = int sz"
proof -
  note digits = strstr_skip [OF fmt_nat_no_quote(1), of sz]
  show "extract_field True (create_request nm sz pw) ''cmd'' = Some ''container_create''"
    by (rule extract_here [where rest = "drop 25 (create_request nm sz pw)"]) (simp_all add: create_request_def)
  show "extract_field True (create_request nm sz pw) ''name'' = Some nm"
    using assms by (intro extract_here) (simp_all add: create_request_def)
  obtain rest where rest: "pw @ DQ # ''}'' = before_quote pw @ DQ # rest" using quote_cut by blast
  show "extract_field True (create_request nm sz pw) ''password'' = Some (before_quote pw)"
    using assms strstr_value [of nm "''password''"] digits rest
    by (intro extract_here [where rest = rest]) (simp_all add: create_request_def)
  have "strstr (create_request nm sz pw) (DQ # ''size'' @ DQ # [CHR '':'']) =
      Some (DQ # ''size'' @ DQ # CHR '':'' # fmt_nat sz @ '','' @ DQ # ''password'' @ DQ # '':'' @ DQ # pw @ DQ # ''}'')"
    using assms strstr_value [of nm "''size''"] by (simp add: create_request_def)
  then show "extract_int (create_request nm sz pw) ''size'' = int sz" if "sz < 2 ^ 31"
    using that atoi_fmt_nat [of sz "'','' @ DQ # ''password'' @ DQ # '':'' @ DQ # pw @ DQ # ''}''"]
    by (simp add: extract_int_def snprintf_buf_def isdigit_def)
qed

lemma open_fields:
  assumes "DQ \<notin> set nm"
  shows "extract_field True (open_request nm pw) ''cmd'' = Some ''container_open''"
    "extract_field True (open_request nm pw) ''name'' = Some nm"
    "extract_field True (open_request nm pw) ''password'' = Some (before_quote pw)"
proof -
  show "extract_field True (open_request nm pw) ''cmd'' = Some ''container_open''"
    by (rule extract_here [where rest = "drop 23 (open_request nm pw)"]) (simp_all add: open_request_def)
  show "extract_field True (open_request nm pw) ''name'' = Some nm"
    using assms by (intro extract_here) (simp_all add: open_request_def)
  obtain rest where rest: "pw @ DQ # ''}'' = before_quote pw @ DQ # rest" using quote_cut by blast
  show "extract_field True (open_request nm pw) ''password'' = Some (before_quote pw)"
    using assms strstr_value [of nm "''password''"] rest
    by (intro extract_here [where rest = rest]) (simp_all add: open_request_def)
qed

section \<open>The daemon's answers\<close>

lemma length_size: "sz < 2 ^ 31 \<Longrightarrow> length (fmt_nat sz) \<le> 10"
  using length_fmt_nat [of 10 sz] by simp

lemma request_sizes:
  assumes "clean nm" "CHR 0x00 \<notin> set pw" "length nm < 64" "length pw < 256" "sz < 2 ^ 31"
  shows "CHR 0x00 \<notin> set (create_request nm sz pw)" "length (create_request nm sz pw) < 4096"
    "CHR 0x00 \<notin> set (open_request nm pw)" "length (open_request nm pw) < 4096"
  using assms length_size [OF assms(5)] fmt_nat_no_quote(2) [of sz]
  by (auto simp: create_request_def open_request_def clean_def)

lemma serve_create:
  assumes "clean nm" "CHR 0x00 \<notin> set pw" "length nm < 64" "length pw < 256" "0 < sz" "sz < 2 ^ 31" "da_malloc_ok v"
    and "container_create (da_co v) (Some nm) sz (Some (before_quote pw)) (e_files st, e_cont st) = (r, files', cs)"
  shows "daemon_serve H v (create_request nm sz pw) st = (Some (resp_status r), st\<lparr>e_files := files', e_cont := cs\<rparr>)"
proof (rule serve_whole)
  have "DQ \<notin> set nm" using assms(1) by (simp add: clean_def)
  from create_fields [OF this, of sz] assms(5,6,7,8)
  show "handle_command H v (create_request nm sz pw) st = (Inr (resp_status r), st\<lparr>e_files := files', e_cont := cs\<rparr>)"
    by (simp add: handle_command_def cmd_container_create_def Let_def)
qed (use request_sizes [OF assms(1-4,6)] in \<open>simp_all add: create_request_def\<close>)

lemma serve_open:
  assumes "clean nm" "CHR 0x00 \<notin> set pw" "length nm < 64" "length pw < 256" "da_malloc_ok v"
    and "container_open (da_co v) (Some nm) (Some (before_quote pw)) (e_files st, e_cont st) = (r, files', cs)"
  shows "daemon_serve H v (open_request nm pw) st = (Some (resp_status r), st\<lparr>e_files := files', e_cont := cs\<rparr>)"
proof (rule serve_whole)
  have "DQ \<notin> set nm" using assms(1) by (simp add: clean_def)
  from open_fields [OF this] assms(5,6)
  show "handle_command H v (open_request nm pw) st = (Inr (resp_status r), st\<lparr>e_files := files', e_cont := cs\<rparr>)"
    by (simp add: handle_command_def cmd_container_open_def Let_def)
qed (use request_sizes [OF assms(1-4), of 0] in \<open>simp_all add: open_request_def\<close>)

lemma send_quiet:
  assumes "cl_socket_ok cl" "cl_connect_ok cl" "cl_strdup_ok cl"
    and "serve j (w_daemon w) = (Some (resp_status r), d)"
  shows "report_quiet good bad (send_daemon_cmd cl serve j w) =
    (0, say [if rc r = 0 then good else bad] (w\<lparr>w_daemon := d\<rparr>))"
proof -
  have "take 4095 (resp_status r) = resp_status r" "resp_status r \<noteq> []" "cstr (resp_status r) = resp_status r"
    by (simp_all add: resp_status_text)
  then show ?thesis
    using assms by (simp add: send_daemon_cmd_def report_quiet_def says_ok_status)
qed

lemma vault_create_served:
  assumes "cl_socket_ok cl" "cl_connect_ok cl" "cl_strdup_ok cl" "da_malloc_ok v"
    and "typed pw1" "typed pw" "w_stdin w = pw1 @ CHR 0x0A # pw @ CHR 0x0A # rest"
    and "clean nm" "length nm < 64" "0 < sz" "sz < 2 ^ 31"
    and "container_create (da_co v) (Some nm) sz (Some (before_quote pw)) (e_files (w_daemon w), e_cont (w_daemon w)) = (r, files', cs)"
  shows "\<exists>w1. cmd_vault cl (daemon_serve H v) [c, ''create'', nm, fmt_nat sz] w = (0, w1) \<and>
    w_daemon w1 = (w_daemon w)\<lparr>e_files := files', e_cont := cs\<rparr> \<and> w_stdin w1 = rest \<and>
    last (w_out w1) = (if rc r = 0 then Out ''Vault '%s' created (%sMB)'' [nm, fmt_nat sz] else Out ''Vault creation failed'' [])"
proof -
  let ?w1 = "(say [Err ''Vault password: '' []] w)\<lparr>w_stdin := pw @ CHR 0x0A # rest, w_password := pw1\<rparr>"
  let ?w2 = "(say [Err ''Confirm password: '' []] ?w1)\<lparr>w_stdin := rest, w_password := pw\<rparr>"
  have p1: "prompt_password ''Vault password: '' w = (True, ?w1)"
    using prompt_typed [OF assms(5,7)] .
  have "w_stdin ?w1 = pw @ CHR 0x0A # rest" by simp
  from prompt_typed [OF assms(6) this] have p2: "prompt_password ''Confirm password: '' ?w1 = (True, ?w2)" .
  have len: "length pw < 256" "CHR 0x00 \<notin> set pw" using assms(6) by (simp_all add: typed_def)
  have "snprintf_buf 4096 (create_request nm sz pw) = create_request nm sz pw"
    using request_sizes(2) [OF assms(8) len(2) assms(9) len(1) assms(11)] by simp
  moreover have "daemon_serve H v (create_request nm sz pw) (w_daemon ?w2) =
      (Some (resp_status r), (w_daemon w)\<lparr>e_files := files', e_cont := cs\<rparr>)"
    using serve_create [OF assms(8) len(2) assms(9) len(1) assms(10,11,4), where H = H and st = "w_daemon w"] assms(12) by simp
  note sent = send_quiet [where serve = "daemon_serve H v" and w = ?w2, OF assms(1-3) this]
  ultimately show ?thesis
    using p1 p2 sent [of "Out ''Vault '%s' created (%sMB)'' [nm, fmt_nat sz]" "Out ''Vault creation failed'' []"]
    by (simp add: cmd_vault_def create_request_def)
qed

lemma vault_open_served:
  assumes "cl_socket_ok cl" "cl_connect_ok cl" "cl_strdup_ok cl" "da_malloc_ok v"
    and "typed pw" "w_stdin w = pw @ CHR 0x0A # rest" "clean nm" "length nm < 64"
    and "container_open (da_co v) (Some nm) (Some (before_quote pw)) (e_files (w_daemon w), e_cont (w_daemon w)) = (r, files', cs)"
  shows "\<exists>w1. cmd_vault cl (daemon_serve H v) [c, ''open'', nm] w = (0, w1) \<and>
    w_daemon w1 = (w_daemon w)\<lparr>e_files := files', e_cont := cs\<rparr> \<and>
    last (w_out w1) = (if rc r = 0 then Out ''Vault '%s' opened at /mnt/securez-vault/%s'' [nm, nm]
       else Out ''Wrong password or vault not found'' [])"
proof -
  let ?w1 = "(say [Err ''Vault password: '' []] w)\<lparr>w_stdin := rest, w_password := pw\<rparr>"
  have p1: "prompt_password ''Vault password: '' w = (True, ?w1)"
    using prompt_typed [OF assms(5,6)] .
  have len: "length pw < 256" "CHR 0x00 \<notin> set pw" using assms(5) by (simp_all add: typed_def)
  have "snprintf_buf 4096 (open_request nm pw) = open_request nm pw"
    using request_sizes(4) [OF assms(7) len(2) assms(8) len(1), of 0] by simp
  moreover have "daemon_serve H v (open_request nm pw) (w_daemon ?w1) =
      (Some (resp_status r), (w_daemon w)\<lparr>e_files := files', e_cont := cs\<rparr>)"
    using serve_open [OF assms(7) len(2) assms(8) len(1) assms(4), where H = H and st = "w_daemon w"] assms(9) by simp
  note sent = send_quiet [where serve = "daemon_serve H v" and w = ?w1, OF assms(1-3) this]
  ultimately show ?thesis
    using p1 sent [of "Out ''Vault '%s' opened at /mnt/securez-vault/%s'' [nm, nm]" "Out ''Wrong password or vault not found'' []"]
    by (simp add: cmd_vault_def open_request_def)
qed


definition vault_engine0 :: engine_state where
  "vault_engine0 = running_engine\<lparr>e_files := fst luks_start, e_cont := snd luks_start\<rparr>"


end
