(* ===== verification/Shell_Signals.thy ===== *)
theory Shell_Signals
  imports Shell_Exec
begin

text \<open>
  How the shell waits for a pipeline while the handler of \<open>SIGCHLD\<close> is installed
  (\<open>sigchld_handler\<close> and the waiting loop of \<open>execute_pipeline\<close> in \<open>shell/src/szshell.c\<close>). A
  child ends at any moment and leaves a zombie and a pending signal; the handler reaps every
  zombie there is; \<open>waitpid\<close> reaps the child it is asked for, blocks while that child runs, and
  fails when the child has been reaped before, leaving the variable \<open>status\<close> without a value.

  The theorems: the loop comes to an end once the children do, and what it gets for a child is
  that child's status or nothing; and a child that ends while the shell waits for an earlier
  one loses its status, so that the exit code of the pipeline is undefined.
\<close>

section \<open>Children, the handler and the loop\<close>

datatype kid_state = Running | Zombie wait_status | Gone

record wait_state =
  kids :: "kid_state list"
  pending :: bool
  waited :: "wait_status option list"

definition sigchld_handler :: "wait_state \<Rightarrow> wait_state" where
  "sigchld_handler s =
     s\<lparr>kids := map (\<lambda>k. case k of Zombie _ \<Rightarrow> Gone | _ \<Rightarrow> k) (kids s), pending := False\<rparr>"

text \<open>
  The steps. The child the loop waits for is the one after those it has waited for. \<open>ends\<close>
  gives the status each child ends with.
\<close>

inductive wait_step :: "wait_status list \<Rightarrow> wait_state \<Rightarrow> wait_state \<Rightarrow> bool" for ends where
  kid_ends: "i < length (kids s) \<Longrightarrow> kids s ! i = Running \<Longrightarrow>
     wait_step ends s (s\<lparr>kids := (kids s)[i := Zombie (ends ! i)], pending := True\<rparr>)"
| handler: "pending s \<Longrightarrow> wait_step ends s (sigchld_handler s)"
| waitpid_reaps: "length (waited s) < length (kids s) \<Longrightarrow> kids s ! length (waited s) = Zombie st \<Longrightarrow>
     wait_step ends s (s\<lparr>kids := (kids s)[length (waited s) := Gone], waited := waited s @ [Some st]\<rparr>)"
| waitpid_fails: "length (waited s) < length (kids s) \<Longrightarrow> kids s ! length (waited s) = Gone \<Longrightarrow>
     wait_step ends s (s\<lparr>waited := waited s @ [None]\<rparr>)"

definition wait_start :: "nat \<Rightarrow> wait_state" where
  "wait_start n = \<lparr>kids = replicate n Running, pending = False, waited = []\<rparr>"

text \<open>What the loop makes of the outcomes: the status of the last child counts.\<close>

definition loop_kernel :: "wait_state \<Rightarrow> 'd kernel \<Rightarrow> 'd kernel" where
  "loop_kernel s ke = ke\<lparr>ke_status := (\<lambda>cs i. waited s ! i)\<rparr>"

section \<open>The loop ends and does not invent a status\<close>

definition wait_inv :: "wait_status list \<Rightarrow> wait_state \<Rightarrow> bool" where
  "wait_inv ends s \<longleftrightarrow> length (kids s) = length ends \<and> length (waited s) \<le> length ends \<and>
     (\<forall>i < length ends. \<forall>st. kids s ! i = Zombie st \<longrightarrow> st = ends ! i) \<and>
     (\<forall>i < length (waited s). kids s ! i = Gone \<and> waited s ! i \<in> {None, Some (ends ! i)})"

lemma kids_handler:
  "i < length (kids s) \<Longrightarrow> kids (sigchld_handler s) ! i =
     (case kids s ! i of Zombie _ \<Rightarrow> Gone | k \<Rightarrow> k)"
  "length (kids (sigchld_handler s)) = length (kids s)" "waited (sigchld_handler s) = waited s"
  "\<not> pending (sigchld_handler s)"
  by (simp_all add: sigchld_handler_def split: kid_state.splits)

lemma wait_step_inv:
  assumes "wait_step ends s s'" "wait_inv ends s"
  shows "wait_inv ends s'"
  using assms
proof cases
  case handler
  then show ?thesis
    using assms(2) by (auto simp: wait_inv_def kids_handler split: kid_state.splits)
qed (auto simp: wait_inv_def nth_list_update nth_append less_Suc_eq)

lemma wait_steps_inv:
  "(wait_step ends)\<^sup>*\<^sup>* s s' \<Longrightarrow> wait_inv ends s \<Longrightarrow> wait_inv ends s'"
  by (induction rule: rtranclp_induct) (auto intro: wait_step_inv)

lemma wait_start_inv: "wait_inv ends (wait_start (length ends))"
  by (simp add: wait_inv_def wait_start_def)

text \<open>Every step uses up a child that runs, a pending signal, or a turn of the loop.\<close>

definition wait_rank :: "wait_state \<Rightarrow> nat" where
  "wait_rank s = 2 * length (filter (\<lambda>k. k = Running) (kids s)) + (if pending s then 1 else 0) +
     (length (kids s) - length (waited s))"

lemma filter_update_less:
  "i < length xs \<Longrightarrow> P (xs ! i) \<Longrightarrow> \<not> P y \<Longrightarrow>
     Suc (length (filter P (xs[i := y]))) = length (filter P xs)"
  by (induction xs arbitrary: i) (auto split: nat.splits)

lemma filter_update_same:
  "i < length xs \<Longrightarrow> \<not> P (xs ! i) \<Longrightarrow> \<not> P y \<Longrightarrow> length (filter P (xs[i := y])) = length (filter P xs)"
  by (induction xs arbitrary: i) (auto split: nat.splits)

lemma filter_handler:
  "length (filter (\<lambda>k. k = Running) (kids (sigchld_handler s))) = length (filter (\<lambda>k. k = Running) (kids s))"
proof -
  have "(case k of Zombie _ \<Rightarrow> Gone | _ \<Rightarrow> k) = Running \<longleftrightarrow> k = Running" for k
    by (cases k) auto
  then show ?thesis by (simp add: sigchld_handler_def filter_map comp_def)
qed

lemma wait_step_rank:
  assumes "wait_step ends s s'"
  shows "wait_rank s' < wait_rank s"
  using assms
proof cases
  case (kid_ends i)
  then show ?thesis
    using filter_update_less [of i "kids s" "\<lambda>k. k = Running" "Zombie (ends ! i)"]
    by (simp add: wait_rank_def)
next
  case handler
  then show ?thesis
    by (simp add: wait_rank_def filter_handler kids_handler)
next
  case (waitpid_reaps st)
  then show ?thesis
    using filter_update_same [of "length (waited s)" "kids s" "\<lambda>k. k = Running" Gone]
    by (simp add: wait_rank_def)
next
  case waitpid_fails
  then show ?thesis by (simp add: wait_rank_def)
qed

lemma wait_steps_rank: "(wait_step ends ^^ n) s s' \<Longrightarrow> n + wait_rank s' \<le> wait_rank s"
proof (induction n arbitrary: s')
  case (Suc n)
  from Suc.prems obtain t where "(wait_step ends ^^ n) s t" "wait_step ends t s'" by auto
  then show ?case using Suc.IH [of t] wait_step_rank [of ends t s'] by simp
qed simp

lemma wait_progress:
  assumes "length (waited s) < length (kids s)"
  shows "\<exists>s'. wait_step ends s s'"
  using assms
  by (cases "kids s ! length (waited s)")
    (blast intro: kid_ends waitpid_reaps waitpid_fails)+

text \<open>
  The loop that waits for the children of a pipeline. However the ends of the children, the
  handler of \<open>SIGCHLD\<close> and the calls of \<open>waitpid\<close> follow each other, there are at most three
  steps for each child, the loop is never stuck, and when it is over it has an outcome for
  every child: the status with which that child ended, or none.
\<close>

theorem wait_loop_ends:
  assumes "(wait_step ends ^^ n) (wait_start (length ends)) s"
  shows "n \<le> 3 * length ends \<and>
    ((\<exists>s'. wait_step ends s s') \<or> length (waited s) = length ends) \<and>
    (\<forall>i < length (waited s). waited s ! i \<in> {None, Some (ends ! i)})"
proof -
  have "wait_inv ends s"
    using wait_steps_inv [OF relpowp_imp_rtranclp [OF assms] wait_start_inv] .
  moreover have "wait_rank (wait_start (length ends)) = 3 * length ends"
    by (simp add: wait_rank_def wait_start_def)
  ultimately show ?thesis
    using wait_steps_rank [OF assms] wait_progress [of s ends] by (auto simp: wait_inv_def)
qed

theorem wait_loop_ends_witness:
  "\<exists>n s. (wait_step [Exited 3] ^^ n) (wait_start (length [Exited 3])) s \<and> n \<le> 3 \<and> waited s = [Some (Exited 3)]"
proof -
  define s0 where "s0 = wait_start (length [Exited 3])"
  define s1 where "s1 = s0\<lparr>kids := (kids s0)[0 := Zombie (Exited 3)], pending := True\<rparr>"
  define s2 where "s2 = s1\<lparr>kids := (kids s1)[0 := Gone], waited := [Some (Exited 3)]\<rparr>"
  have "wait_step [Exited 3] s0 s1"
    using kid_ends [of 0 s0 "[Exited 3]"] by (simp add: s0_def s1_def wait_start_def)
  moreover have "wait_step [Exited 3] s1 s2"
    using waitpid_reaps [of s1 "Exited 3" "[Exited 3]"] by (simp add: s0_def s1_def s2_def wait_start_def)
  ultimately have run: "(wait_step [Exited 3] ^^ 2) (wait_start (length [Exited 3])) s2"
    unfolding s0_def [symmetric] by (auto simp: numeral_2_eq_2)
  from wait_loop_ends [OF this] run show ?thesis
    by (intro exI [of _ 2] exI [of _ s2]) (simp add: s2_def)
qed

section \<open>A status that is lost\<close>

definition lost :: "nat \<Rightarrow> wait_state \<Rightarrow> bool" where
  "lost i s \<longleftrightarrow> i < length (kids s) \<and>
     (if i < length (waited s) then waited s ! i = None else kids s ! i = Gone)"

lemma lost_step: "wait_step ends s s' \<Longrightarrow> lost i s \<Longrightarrow> lost i s'"
  by (induction rule: wait_step.induct)
    (auto simp: lost_def kids_handler nth_append nth_list_update less_Suc_eq split: if_splits)

lemma lost_steps: "(wait_step ends)\<^sup>*\<^sup>* s s' \<Longrightarrow> lost i s \<Longrightarrow> lost i s'"
  by (induction rule: rtranclp_induct) (auto intro: lost_step)

text \<open>
  C37: the exit code of a pipeline whose last command ends first. If the last child has ended
  while the shell still waits for an earlier one, the handler of \<open>SIGCHLD\<close> runs and reaps it;
  then, however the loop goes on, \<open>waitpid\<close> fails for the last child and the exit code of the
  pipeline is computed from a variable that was never written.
\<close>

theorem sigchld_loses_status:
  assumes "(wait_step ends)\<^sup>*\<^sup>* (wait_start (length ends)) s" "length (waited s) < length ends - 1"
    and "kids s ! (length ends - 1) = Zombie st" "pending s"
    and "(wait_step ends)\<^sup>*\<^sup>* (sigchld_handler s) s'" "length (waited s') = length ends"
    and "length cs = length ends"
  shows "wait_all (loop_kernel s' ke) cs = Inl EUndefined"
proof -
  have len: "length (kids s) = length ends"
    using wait_steps_inv [OF assms(1) wait_start_inv] by (simp add: wait_inv_def)
  have "lost (length ends - 1) (sigchld_handler s)"
    using assms(2,3) len by (auto simp: lost_def kids_handler)
  from lost_steps [OF assms(5) this] have "waited s' ! (length ends - 1) = None"
    using assms(2,6) by (auto simp: lost_def)
  then show ?thesis using assms(2,7) by (auto simp: wait_all_def loop_kernel_def)
qed

text \<open>The pipeline \<open>yes | head -1\<close>: the second child ends while the first one runs.\<close>

lemma wait_completes: "\<exists>s'. (wait_step ends)\<^sup>*\<^sup>* s s' \<and> length (kids s') \<le> length (waited s')"
proof (induction "wait_rank s" arbitrary: s rule: less_induct)
  case less
  show ?case
  proof (cases "length (waited s) < length (kids s)")
    case True
    then obtain t where t: "wait_step ends s t" using wait_progress by blast
    then show ?thesis using less [OF wait_step_rank [OF t]] by (blast intro: converse_rtranclp_into_rtranclp)
  qed (auto simp: not_less)
qed

theorem sigchld_loses_status_witness:
  "\<exists>s s'. (wait_step [Killed, Exited 0])\<^sup>*\<^sup>* (wait_start 2) s \<and> kids s = [Running, Zombie (Exited 0)] \<and>
     (wait_step [Killed, Exited 0])\<^sup>*\<^sup>* (sigchld_handler s) s' \<and>
     (\<forall>c1 c2. wait_all (loop_kernel s' kernel0) [c1, c2] = Inl EUndefined)"
proof -
  let ?e = "[Killed, Exited 0]"
  define s where "s = (wait_start 2)\<lparr>kids := [Running, Zombie (Exited 0)], pending := True\<rparr>"
  have "wait_step ?e (wait_start (length ?e)) s"
    using kid_ends [of 1 "wait_start 2" ?e] by (simp add: s_def wait_start_def eval_nat_numeral)
  then have run: "(wait_step ?e)\<^sup>*\<^sup>* (wait_start (length ?e)) s" by blast
  have shape: "length (waited s) < length ?e - 1" "kids s ! (length ?e - 1) = Zombie (Exited 0)" "pending s"
    by (simp_all add: s_def wait_start_def)
  obtain s' where r: "(wait_step ?e)\<^sup>*\<^sup>* (sigchld_handler s) s'" "length (kids s') \<le> length (waited s')"
    using wait_completes by blast
  have "(wait_step ?e)\<^sup>*\<^sup>* (wait_start (length ?e)) s'"
    using run handler [OF shape(3), of ?e] r(1) by (meson rtranclp.rtrancl_into_rtrancl rtranclp_trans)
  from wait_steps_inv [OF this wait_start_inv] have fin: "length (waited s') = length ?e"
    using r(2) by (simp add: wait_inv_def)
  have "wait_all (loop_kernel s' kernel0) [c1, c2] = Inl EUndefined" for c1 c2
    by (rule sigchld_loses_status [OF run shape r(1) fin]) simp
  moreover have "kids s = [Running, Zombie (Exited 0)]" by (simp add: s_def)
  moreover have "(wait_step ?e)\<^sup>*\<^sup>* (wait_start 2) s" using run by (simp add: numeral_2_eq_2)
  ultimately show ?thesis using r(1) by blast
qed

end
