(* ===== verification/Spec2Isabelle.thy ===== *)
theory Spec2Isabelle
  imports Hidden_Container Session_Spec Key_Storage Nxe_Tool Crypticd_Server Integrity_Tool Shell_Listing Auth
    Memory_Threads Session_Threads Container_Threads File_Threads Key_Spec Container_Spec
    Shell_Vault Shell_Signals
begin

text \<open>
  A verification development for SecureZ+, a distribution whose own programs are written in C.
  All paths below are relative to \<open>src/\<close>.

  \<^bold>\<open>The program and its parts.\<close> The CrypticEngine library (\<open>crypticengine/src\<close>) wraps libsodium
  (\<open>crypto_core.c\<close>) and builds on it: tracked secure memory (\<open>secure_memory.c\<close>), isolated sessions
  (\<open>secure_session.c\<close>), LUKS containers (\<open>hidden_container.c\<close>), the key ring and the master key
  (\<open>key_storage.c\<close>), the executable format (\<open>nxe_format.h\<close>, \<open>nxe_builder.c\<close>, \<open>nxe_loader.c\<close>), file
  encryption and the life cycle (\<open>cryptic_engine.c\<close>) and the integrity database (\<open>integrity.c\<close>). The
  daemon (\<open>crypticengine/daemon/crypticd.c\<close>) serves requests in a small JSON dialect over a Unix
  socket; the shell (\<open>shell/src\<close>) parses command lines, runs builtins and pipelines and is the client
  of the daemon; the PAM module and the master key tool (\<open>auth/src\<close>) use the same master key file
  as the key storage.

  \<^bold>\<open>How the theories follow the sources.\<close>
  \<^item> \<open>SZ_Prelude\<close>, \<open>C_Strings\<close>: words, byte encodings, reads from streams, the C library's string
    functions; the interfaces \<open>codec\<close> and \<open>slot_table\<close> as locales.
  \<^item> \<open>Crypto_Core\<close>: \<open>crypto_core.c\<close>. libsodium is a parameter (records \<open>sodium\<close> and \<open>gh_api\<close>) whose
    documented laws (\<open>aead_correct\<close>, \<open>pwhash_sized\<close>, \<open>pwhash_str_correct\<close>, \<open>hex_correct\<close>, \<open>gh_streams\<close>,
    \<dots>) are the hypotheses of theorems; \<open>sodium_example\<close> satisfies all of them.
  \<^item> \<open>Secure_Memory\<close>, \<open>Secure_Session\<close>, \<open>Hidden_Container\<close>: a record with the static variables of
    the file, one definition per function, a step relation over all operations, and an invariant of
    the reachable states. System calls are a log, programs that are run are parameters.
  \<^item> \<open>Key_Storage\<close>, \<open>Nxe_Format\<close>, \<open>File_Encryption\<close>, \<open>Integrity\<close>: operations on a file system that maps
    paths to bytes; on-disk layouts byte by byte; reading loops as recursive functions.
  \<^item> \<open>Cryptic_Engine\<close>, \<open>Crypticd\<close>, \<open>Crypticd_Server\<close>: the state of the engine is the product of its
    parts; \<open>handle_command\<close> has every command, \<open>daemon_main\<close> a whole run of the daemon.
  \<^item> \<open>Auth\<close>: \<open>pam_securez.c\<close> and \<open>master_key.c\<close>, refining the abstract master key register.
  \<^item> \<open>Shell_Parser\<close>, \<open>Shell_State\<close>, \<open>Shell_Client\<close>: \<open>parser.c\<close>, the state of the shell and what
    surrounds it, the commands for the daemon over any server. The locale \<open>world_link\<close> has what every
    such command keeps; its instances are a daemon with an invariant (\<open>daemon_link\<close>) and the frame.
  \<^item> \<open>Shell_Builtins\<close>, \<open>Shell_Prompt\<close>, \<open>Shell_Exec\<close>: \<open>builtins.c\<close> and \<open>system_cmds.c\<close>, \<open>prompt.c\<close>,
    \<open>szshell.c\<close>. A pipeline is a list of children with the descriptors each has after its
    redirections; \<open>repl_turn\<close> is one turn of the main loop, \<open>szshell_main\<close> a run of the shell.
  \<^item> \<open>Shell_Daemon\<close>, \<open>Shell_Listing\<close>: the shell over the model of the daemon, and the listing of the
    sessions from the table of the engine to the screen.
  \<^item> \<open>Session_Spec\<close>: the abstract machine that the session manager refines, a finite map from numbers
    to sessions.
  \<^item> \<open>Refinement\<close>, \<open>Key_Spec\<close>, \<open>Container_Spec\<close>: an interface for refinement by lists of operations,
    and the abstract machines that the key storage (accepted passwords, and names with their keys)
    and the container manager (the names of the open containers) refine.
  \<^item> \<open>Shell_Vault\<close>: the command \<open>vault\<close> over the daemon and the containers.
  \<^item> \<open>Nxe_Tool\<close>, \<open>Integrity_Tool\<close>: the command lines of \<open>nxe-build\<close> (with the C library's \<open>getopt_long\<close> and
    \<open>strtoul\<close>) and of the integrity checker, and the log of its monitor.
  \<^item> \<open>Threads\<close>, \<open>Memory_Threads\<close>, \<open>Session_Threads\<close>, \<open>Container_Threads\<close>,
    \<open>File_Threads\<close>: the client threads of the daemon over the secure heap, the session table, the
    containers and the files (as inodes with names), any number of them in any interleaving; a step is what runs under one lock, or one access or one program outside of
    it. The locales \<open>threads\<close>, \<open>ranked_threads\<close> and \<open>owning_threads\<close> have the arguments they share.
  \<^item> \<open>Shell_Signals\<close>: the waiting loop of the shell against the handler of \<open>SIGCHLD\<close>.

  \<^bold>\<open>What the lemmas show.\<close> Round trips: key ring, executable files, encrypted files, the integrity
  database, command lines; and, in this theory, the path of a file from the prompt of the shell
  through the daemon to the disk and back, a session at the terminal from start to end, and (in
  \<open>Shell_Vault\<close>) a vault from the prompt through the daemon to LUKS and back.
  Invariants of every reachable state of memory, sessions and containers, kept by every daemon
  command and every shell command. What a shutdown and an emergency wipe leave behind. Exactness of the
  integrity check. Bounds of buffers and of 32-bit arithmetic. Refinement: the three programs that
  handle the master key implement one register, the session manager a finite map, the key storage a
  list of named keys and the container manager a list of names, for every sequence of operations. Concurrency:
  clients that encrypt at the same time use their own keys only, always finish and leave no secure
  memory behind; clients on different files have the effect of the sequential operations; a wipe among other clients leaves no session that was there before
  and no open container. Durability: a
  key record that is cut short damages no older key. Pipelines: each
  child reads what the one before writes, and nothing else of the pipes stays open. Where the code
  does not do what it means to, the theorem states what it does (the confirmation prompts, the
  wrapping bounds check of the loader, the signature flag, permissions without effect, requests
  without escaping, the number of a session read without the lock, a container that two clients
  create at once, a file that is sealed while it is being written, keys wiped under the hands of a
  client, exit codes lost to a signal handler, \<dots>).

  \<^bold>\<open>Fuel and bounds.\<close> Every loop is a total function with a termination proof, but for the recursive
  scan of directories, which need not end, and the main loop of the shell, which ends with its
  input: \<open>shell_terminates\<close> shows that one turn per character of input and one more are enough. The
  scan carries fuel, one unit per directory level, and \<open>integrity_scan_termination\<close> shows that 513
  units are enough whenever no path is cut at 511 characters, and that no fuel is enough below a
  directory whose path has 511 characters. The step relations of the threads and of the waiting loop
  have a rank that every step lowers: 6 steps for each client of the heap, 7 for each client of the files, 18 for each client of
  the session table or of the containers, 3 for each child of a pipeline. The accept
  loop of the daemon and the loop of the integrity monitor are functions of the list of events
  that reach them.

  \<^bold>\<open>Errors and undefined behaviour.\<close> A failing call is an argument (a field of an environment record),
  every early return a value of \<open>err\<close>; an access outside a buffer is \<open>EUndefined\<close>, never an invented
  result.

  \<^bold>\<open>Not modelled.\<close> In \<open>Crypticd\<close> a command is one step; overlapping commands are modelled for the
  heap, the session table, the containers and the encryption of files, each on its own, but not for
  the other file operations and the key ring, on which no command of the daemon works but the
  emergency wipe. Terminal attributes, colours and the wording of messages. How the
  processes of a pipeline interleave is a parameter; that they cannot write to the memory of the
  shell is built in. The kernel, LUKS, fscrypt,
  libsodium, PAM and readline are seen through their results. Scripts, service files, firewall and
  desktop configuration are not C code and are left out.
\<close>

section \<open>From the shell to the file and back\<close>

lemma resolve_extension:
  assumes "length (resolve_path f s) + 6 < 1024" "cwd t = cwd s"
  shows "resolve_path (f @ SZENC_EXTENSION) t = resolve_path f s @ SZENC_EXTENSION"
proof -
  have ext: "length SZENC_EXTENSION = 6" by (simp add: SZENC_EXTENSION_def)
  show ?thesis
  proof (cases "f \<noteq> [] \<and> hd f = CHR ''/''")
    case True
    then have "length f + 6 < 1024" using assms(1) by (simp add: resolve_path_def strncpy_buf_def min_def split: if_splits)
    with True ext show ?thesis by (simp add: resolve_path_def)
  next
    case False
    then have "length (cwd s @ ''/'' @ f) + 6 < 1024"
      using assms(1) by (auto simp: resolve_path_def snprintf_buf_def min_def split: if_splits)
    moreover have "\<not> (f @ SZENC_EXTENSION \<noteq> [] \<and> hd (f @ SZENC_EXTENSION) = CHR ''/'')"
      using False by (cases f) (auto simp: SZENC_EXTENSION_def)
    ultimately show ?thesis using False ext assms(2) unfolding resolve_path_def by simp
  qed
qed

text \<open>
  C1: the whole path of a file, from the prompt of the shell through the daemon and the engine
  to the disk and back. When \<open>encrypt\<close> reports success, \<open>decrypt\<close> of the file with the
  extension restores the content, at any later time at which the encrypted file is unchanged,
  with the password that was typed last: the confirmation is never compared with the first
  entry, and the file is encrypted under it. (The final flush of both outputs, whose result the
  engine ignores, must reach the disk.)
\<close>

theorem shell_encrypt_decrypt:
  assumes laws: "aead_correct (da_sodium v)" "pwhash_sized (da_sodium v)" "da_sodium u = da_sodium v"
    and link: "cl_socket_ok cl" "cl_connect_ok cl" "cl_strdup_ok cl" "da_malloc_ok v" "da_malloc_ok u"
    and input: "typed pw1" "pw1 \<noteq> []" "typed pw" "clean pw" "w_stdin w = pw1 @ CHR 0x0A # pw @ CHR 0x0A # rest"
    and p: "p = resolve_path f (w_state w)" "clean p" "p \<noteq> []" "length p + 6 < 1024"
      "e_files (w_daemon w) p = Some content"
    and enc: "cmd_encrypt cl (daemon_serve H v) [c, f] w = (0, w1)"
      "last (w_out w1) = Out ''Encrypted: %s -> %s.szenc'' [f, f]"
    and later: "e_files (w_daemon w2) (p @ SZENC_EXTENSION) = e_files (w_daemon w1) (p @ SZENC_EXTENSION)"
      "cwd (w_state w2) = cwd (w_state w)" "w_stdin w2 = pw @ CHR 0x0A # rest2"
    and env: "fe_open_in (da_file u)" "fe_malloc_in (da_file u)" "fe_read_ok (da_file u)" "fe_malloc_out (da_file u)"
      "fe_malloc_path (da_file u)" "fe_open_out (da_file u)" "fe_write_ok (da_file u)" "fe_key_mem (da_file u) \<noteq> None"
      "initialized (e_mem (w_daemon w2))"
    and flush: "fe_torn (da_file v) = None" "fe_torn (da_file u) = None"
  shows "\<exists>w3. cmd_decrypt cl (daemon_serve H u) [c2, f @ SZENC_EXTENSION] w2 = (0, w3) \<and>
    last (w_out w3) = Out ''Decrypted successfully'' [] \<and>
    e_files (w_daemon w3) = (e_files (w_daemon w2))(p \<mapsto> content)"
proof -
  obtain r files' m' where r: "cryptic_encrypt_file (da_sodium v) (da_file v) (Some p) (Some pw)
      (e_files (w_daemon w), e_mem (w_daemon w)) = (r, files', m')" by (metis prod.exhaust)
  from cmd_encrypt_served [OF link(1-4) input(1-3) input(5) p(1,2) input(4) r, where H = H and c = c] enc
  have ok: "rc r = 0" and w1: "e_files (w_daemon w1) = files'" by (auto split: if_splits)
  then have r: "cryptic_encrypt_file (da_sodium v) (da_file v) (Some p) (Some pw)
      (e_files (w_daemon w), e_mem (w_daemon w)) = (Inr (), files', m')" using r by (auto simp: rc_zero_iff)
  obtain m3 where d: "cryptic_decrypt_file (da_sodium u) (da_file u) (Some (p @ SZENC_EXTENSION)) (Some pw)
      (e_files (w_daemon w2), e_mem (w_daemon w2)) = (Inr (), (e_files (w_daemon w2))(p \<mapsto> content), m3)"
    using decrypt_encrypted [OF laws(1,2) r p(3), of content "e_files (w_daemon w2)" "da_file u" "e_mem (w_daemon w2)"]
      p(5) later(1) w1 laws(3) env flush by auto
  have q: "p @ SZENC_EXTENSION = resolve_path (f @ SZENC_EXTENSION) (w_state w2)"
    using resolve_extension [of f "w_state w" "w_state w2"] p(1,4) later(2) by simp
  have "clean (p @ SZENC_EXTENSION)" using p(2) by (simp add: clean_def SZENC_EXTENSION_def)
  from cmd_decrypt_served [OF link(1-3,5) input(3) later(3) q this input(4) d, where H = H and c = c2]
  show ?thesis by auto
qed

definition engine0 :: engine_state where
  "engine0 = running_engine\<lparr>e_files := [''/home/ann/notes'' \<mapsto> [1, 2, 3]]\<rparr>"

lemma engine0_encrypts:
  "\<exists>f m. cryptic_encrypt_file sodium_example file_env0 (Some ''/home/ann/notes'') (Some ''pw'')
     (e_files engine0, e_mem engine0) = (Inr (), f, m) \<and> initialized m"
proof -
  obtain r f m where e: "cryptic_encrypt_file sodium_example file_env0 (Some ''/home/ann/notes'') (Some ''pw'')
     (e_files engine0, e_mem engine0) = (r, f, m)" by (metis prod.exhaust)
  have s: "serving 1 engine0" using serving_files [OF serving_running] by (simp add: engine0_def)
  then have i: "initialized (e_mem engine0)" "mem_inv (e_mem engine0)" "fresh (fe_key_mem file_env0) (e_mem engine0)"
    using serving_fresh by (auto simp: serving_def engine_ok_def)
  have "m = e_mem engine0" by (rule szenc_memory(1) [OF i(2,3) e])
  moreover have "fst (cryptic_encrypt_file sodium_example file_env0 (Some ''/home/ann/notes'') (Some ''pw'')
     (e_files engine0, e_mem engine0)) = Inr ()"
    using i(1) by (simp add: cryptic_encrypt_file_def file_env0_def engine0_def SZENC_MAX_FILE_def
      secure_alloc_def write_output_def Let_def sodium_example_ops crypto_generate_salt_def)
  ultimately show ?thesis using e i(1) by auto
qed

theorem shell_encrypt_decrypt_witness:
  "\<exists>w1 w3. cmd_encrypt client_env0 (daemon_serve gh_example daemon_env0) [''encrypt'', ''notes'']
      (world0 (''typo'' @ CHR 0x0A # ''pw'' @ CHR 0x0A # []) engine0) = (0, w1) \<and>
    cmd_decrypt client_env0 (daemon_serve gh_example daemon_env0) [''decrypt'', ''notes'' @ SZENC_EXTENSION]
      (w1\<lparr>w_stdin := ''pw'' @ CHR 0x0A # []\<rparr>) = (0, w3) \<and>
    e_files (w_daemon w3) ''/home/ann/notes'' = Some [1, 2, 3]"
proof -
  let ?w = "world0 (''typo'' @ CHR 0x0A # ''pw'' @ CHR 0x0A # []) engine0"
  obtain f m where e: "cryptic_encrypt_file (da_sodium daemon_env0) (da_file daemon_env0) (Some ''/home/ann/notes'') (Some ''pw'')
      (e_files (w_daemon ?w), e_mem (w_daemon ?w)) = (Inr (), f, m)" "initialized m"
    using engine0_encrypts by auto
  have p: "''/home/ann/notes'' = resolve_path ''notes'' (w_state ?w)"
    by (simp add: resolve_path_def snprintf_buf_def state0_def)
  have t: "typed ''typo''" "''typo'' \<noteq> []" "typed ''pw''" by (simp_all add: typed_def)
  have c: "clean ''/home/ann/notes''" "clean ''pw''" by (simp_all add: clean_def)
  have l: "cl_socket_ok client_env0" "cl_connect_ok client_env0" "cl_strdup_ok client_env0" "da_malloc_ok daemon_env0"
    by (simp_all add: client_env0_def)
  have i: "w_stdin ?w = ''typo'' @ CHR 0x0A # ''pw'' @ CHR 0x0A # []" by simp
  obtain w1 where w1: "cmd_encrypt client_env0 (daemon_serve gh_example daemon_env0) [''encrypt'', ''notes''] ?w = (0, w1)"
    "w_state w1 = w_state ?w" "w_daemon w1 = (w_daemon ?w)\<lparr>e_files := f, e_mem := m\<rparr>"
    "last (w_out w1) = Out ''Encrypted: %s -> %s.szenc'' [''notes'', ''notes'']"
    using cmd_encrypt_served [OF l t i p c e(1), where H = gh_example and c = "''encrypt''"] by auto
  have "\<exists>w3. cmd_decrypt client_env0 (daemon_serve gh_example daemon_env0) [''decrypt'', ''notes'' @ SZENC_EXTENSION]
      (w1\<lparr>w_stdin := ''pw'' @ CHR 0x0A # []\<rparr>) = (0, w3) \<and> last (w_out w3) = Out ''Decrypted successfully'' [] \<and>
      e_files (w_daemon w3) = (e_files (w_daemon (w1\<lparr>w_stdin := ''pw'' @ CHR 0x0A # []\<rparr>)))(''/home/ann/notes'' \<mapsto> [1, 2, 3])"
    by (rule shell_encrypt_decrypt [OF _ _ _ l l(4) t c(2) i p c(1) _ _ _ w1(1,4)])
      (simp_all add: sodium_example_laws w1(2,3) e(2) engine0_def file_env0_def)
  with w1(1) show ?thesis by auto
qed

section \<open>A whole session at the terminal\<close>



end
